(* ===== verification/Prelude.thy ===== *)
theory Prelude
  imports Main "HOL-Library.Word"
begin

unbundle bit_operations_syntax

text \<open>
  The prelude of the development: the machine types, the faults and the result type of the
  modelled C and C++ code, the memory-copy and byte-order helpers, and the shared lemmas and
  fact collections the components are proved with.
\<close>

section \<open>Machine types\<close>

type_synonym u8 = "8 word"
type_synonym u16 = "16 word"
type_synonym u32 = "32 word"
type_synonym u64 = "64 word"

text \<open>A wide string: a list of \<^verbatim>\<open>wchar_t\<close> without the terminator.\<close>

type_synonym wstr = "u32 list"

text \<open>An address of the C heap; \<open>None\<close> is the null pointer.\<close>

type_synonym ptr = "nat option"

section \<open>Faults and results\<close>

text \<open>
  Undefined behaviour of C is a value: a read outside an object, a null dereference, a read
  of a local that was never written, an access to a freed object, a signed overflow.
  The C++ layer adds the exceptions it throws and the blocking of a thread on a lock it
  already holds.
\<close>

datatype ub = Out_Of_Bounds | Null_Pointer | Uninitialised | Use_After_Free | Signed_Overflow

datatype fault =
    UB ub
  | Deadlock
  | Runtime_Error string
  | Out_Of_Range
  | Wrong_Seqno u16 u16
  | Exchange_Error string u16

text \<open>A fault a caller can catch: a C++ exception.\<close>

fun cpp_exception :: "fault \<Rightarrow> bool" where
  "cpp_exception Deadlock = False"
| "cpp_exception (UB u) = False"
| "cpp_exception e = True"

type_synonym 'a res = "fault + 'a"

fun bind_res :: "'a res \<Rightarrow> ('a \<Rightarrow> 'b res) \<Rightarrow> 'b res" where
  "bind_res (Inl e) k = Inl e"
| "bind_res (Inr x) k = k x"

lemma bind_res_eq_Inr:
  "bind_res m k = Inr y \<longleftrightarrow> (\<exists>x. m = Inr x \<and> k x = Inr y)"
  by (cases m) auto

lemma bind_res_assoc: "bind_res (bind_res m f) g = bind_res m (\<lambda>x. bind_res (f x) g)"
  by (cases m) auto

section \<open>Fact collections\<close>

named_theorems mem_simps \<open>reading and writing of buffers\<close>
named_theorems byte_simps \<open>byte-order encoders and decoders\<close>
named_theorems queue_simps \<open>the input-report queues\<close>

section \<open>Buffers\<close>

text \<open>\<^verbatim>\<open>a[i]\<close> on an object of \<open>length a\<close> elements.\<close>

definition c_index :: "'a list \<Rightarrow> nat \<Rightarrow> 'a res" where
  "c_index a i = (if i < length a then Inr (a ! i) else Inl (UB Out_Of_Bounds))"

lemma c_index_Inr [mem_simps, simp]: "i < length a \<Longrightarrow> c_index a i = Inr (a ! i)"
  by (simp add: c_index_def)

lemma c_index_eq_Inr: "c_index a i = Inr x \<longleftrightarrow> i < length a \<and> x = a ! i"
  by (auto simp: c_index_def)

text \<open>The object after \<^verbatim>\<open>memcpy(dst + pos, src, n)\<close>; the whole range has to be inside.\<close>

definition overwrite :: "'a list \<Rightarrow> nat \<Rightarrow> 'a list \<Rightarrow> 'a list" where
  "overwrite dst pos src = take pos dst @ src @ drop (pos + length src) dst"

definition c_memcpy :: "'a list \<Rightarrow> nat \<Rightarrow> 'a list \<Rightarrow> 'a list res" where
  "c_memcpy dst pos src =
     (if pos + length src \<le> length dst then Inr (overwrite dst pos src)
      else Inl (UB Out_Of_Bounds))"

lemma overwrite_Nil [mem_simps, simp]: "overwrite dst pos [] = dst"
  by (simp add: overwrite_def)

lemma length_overwrite [mem_simps, simp]:
  "pos + length src \<le> length dst \<Longrightarrow> length (overwrite dst pos src) = length dst"
  by (simp add: overwrite_def)

lemma overwrite_0 [mem_simps]: "overwrite dst 0 src = src @ drop (length src) dst"
  by (simp add: overwrite_def)

lemma take_overwrite [mem_simps]:
  "pos + length src \<le> length dst \<Longrightarrow>
   take (pos + length src) (overwrite dst pos src) = take pos dst @ src"
  by (simp add: overwrite_def)

lemma take_overwrite_less [mem_simps]:
  "n \<le> pos \<Longrightarrow> pos \<le> length dst \<Longrightarrow> take n (overwrite dst pos src) = take n dst"
  by (simp add: overwrite_def)

lemma drop_overwrite [mem_simps]:
  "pos + length src \<le> n \<Longrightarrow> pos + length src \<le> length dst \<Longrightarrow>
   drop n (overwrite dst pos src) = drop n dst"
  by (simp add: overwrite_def)

lemma nth_overwrite:
  assumes "pos + length src \<le> length dst" "i < length dst"
  shows "overwrite dst pos src ! i =
    (if pos \<le> i \<and> i < pos + length src then src ! (i - pos) else dst ! i)"
  using assms by (auto simp: overwrite_def nth_append min_def)

section \<open>Byte order\<close>

definition be16 :: "u16 \<Rightarrow> u8 list" where
  "be16 w = [ucast (drop_bit 8 w), ucast w]"

definition of_be16 :: "u8 \<Rightarrow> u8 \<Rightarrow> u16" where
  "of_be16 hi lo = push_bit 8 (ucast hi) OR ucast lo"

lemma length_be16 [byte_simps, simp]: "length (be16 w) = 2"
  by (simp add: be16_def)

lemma of_be16_be16 [byte_simps, simp]: "of_be16 (ucast (drop_bit 8 w)) (ucast w) = w"
  by (rule bit_word_eqI) (auto simp: of_be16_def bit_simps)

lemma be16_of_be16 [byte_simps, simp]: "be16 (of_be16 a b) = [a, b]"
proof -
  have "\<not> bit b (8 + n)" for n
    using bit_imp_le_length [of b "8 + n"] by auto
  then show ?thesis
    by (auto simp: be16_def of_be16_def bit_simps intro!: bit_word_eqI)
qed

section \<open>Words read as numbers\<close>

named_theorems word_nat \<open>reading word arithmetic and casts as natural numbers\<close>

lemma unat_u8_less [word_nat]: "unat (b :: u8) < 256"
  using unsigned_less [where 'a = nat, of b] by simp

lemma unat_u16_less [word_nat]: "unat (w :: u16) < 65536"
  using unsigned_less [where 'a = nat, of w] by simp

lemma unat_u32_less [word_nat]: "unat (w :: u32) < 4294967296"
  using unsigned_less [where 'a = nat, of w] by simp

lemma unat_ucast_8_16 [word_nat, simp]: "unat (ucast (b :: u8) :: u16) = unat b"
  using unat_u8_less [of b] by (simp add: unsigned_ucast_eq take_bit_nat_eq_self_iff)

lemma unat_ucast_8_32 [word_nat, simp]: "unat (ucast (b :: u8) :: u32) = unat b"
  using unat_u8_less [of b] by (simp add: unsigned_ucast_eq take_bit_nat_eq_self_iff)

lemma unat_ucast_16_32 [word_nat, simp]: "unat (ucast (b :: u16) :: u32) = unat b"
  using unat_u16_less [of b] by (simp add: unsigned_ucast_eq take_bit_nat_eq_self_iff)

lemma unat_plus [word_nat]:
  "unat x + unat y < 2 ^ LENGTH('a) \<Longrightarrow> unat (x + y :: 'a :: len word) = unat x + unat y"
  using unat_add_lem [of x y] by simp

end
