(* ===== verification/Report_Descriptor.thy ===== *)
theory Report_Descriptor
  imports Prelude
begin

text \<open>
  Parsing of HID report descriptors: \<^verbatim>\<open>uses_numbered_reports\<close> of
  \<^verbatim>\<open>src/src/hid/linux/hid.c\<close> and \<^verbatim>\<open>get_bytes\<close>/\<^verbatim>\<open>get_usage\<close> of
  \<^verbatim>\<open>src/src/hid/libusb/hid.c\<close> (compiled under \<^verbatim>\<open>INVASIVE_GET_USAGE\<close>).
  The descriptor is the byte array \<open>rd\<close>; the code is told its \<open>size\<close>, which need not be the
  length of the array, so that every read is checked. The cursor \<open>i\<close> is the
  \<^verbatim>\<open>unsigned int\<close> of the source and wraps at 32 bits; a loop that never ends has the value
  \<open>None\<close>. The abstract specification is the sequence of the descriptor's items.
\<close>

section \<open>Items: lengths\<close>

text \<open>The \<^verbatim>\<open>switch (size_code)\<close> on the two low bits of a short item's key.\<close>

definition short_data_len :: "u8 \<Rightarrow> u32" where
  "short_data_len key =
     (let size_code = key AND 3 in if size_code = 3 then 4 else ucast size_code)"

text \<open>\<^verbatim>\<open>data_len\<close> and \<^verbatim>\<open>key_size\<close> of the item at \<open>i\<close> (long and short items).\<close>

definition item_lengths :: "u8 list \<Rightarrow> nat \<Rightarrow> u32 \<Rightarrow> u8 \<Rightarrow> (u32 \<times> u32) res" where
  "item_lengths rd sz i key =
     (if key AND 0xf0 = 0xf0 then
        (if unat (i + 1) < sz
         then bind_res (c_index rd (unat (i + 1))) (\<lambda>b. Inr (ucast b, 3))
         else Inr (0, 3))
      else Inr (short_data_len key, 1))"

section \<open>linux: uses_numbered_reports\<close>

partial_function (option) unr_loop :: "u8 list \<Rightarrow> nat \<Rightarrow> u32 \<Rightarrow> bool res option" where
  "unr_loop rd sz i =
     (if unat i < sz then
        (case c_index rd (unat i) of
           Inl e \<Rightarrow> Some (Inl e)
         | Inr key \<Rightarrow>
             if key = 0x85 then Some (Inr True)
             else (case item_lengths rd sz i key of
                     Inl e \<Rightarrow> Some (Inl e)
                   | Inr (data_len, key_size) \<Rightarrow> unr_loop rd sz (i + (data_len + key_size))))
      else Some (Inr False))"

definition uses_numbered_reports :: "u8 list \<Rightarrow> u32 \<Rightarrow> bool res option" where
  "uses_numbered_reports rd sz = unr_loop rd (unat sz) 0"

section \<open>libusb: get_bytes and get_usage\<close>

text \<open>
  The operands of \<^verbatim>\<open>rpt[cur+4] * 0x01000000\<close> are \<^verbatim>\<open>int\<close>: a top byte of 128 or more
  overflows a signed 32-bit multiplication.
\<close>

definition get_bytes :: "u8 list \<Rightarrow> nat \<Rightarrow> nat \<Rightarrow> nat \<Rightarrow> u32 res" where
  "get_bytes rpt len num_bytes cur =
     (if cur + num_bytes \<ge> len then Inr 0
      else if num_bytes = 0 then Inr 0
      else if num_bytes = 1 then
        bind_res (c_index rpt (cur + 1)) (\<lambda>b1. Inr (ucast b1))
      else if num_bytes = 2 then
        bind_res (c_index rpt (cur + 2)) (\<lambda>b2.
        bind_res (c_index rpt (cur + 1)) (\<lambda>b1. Inr (ucast b2 * 256 + ucast b1)))
      else if num_bytes = 4 then
        bind_res (c_index rpt (cur + 4)) (\<lambda>b4.
        bind_res (c_index rpt (cur + 3)) (\<lambda>b3.
        bind_res (c_index rpt (cur + 2)) (\<lambda>b2.
        bind_res (c_index rpt (cur + 1)) (\<lambda>b1.
          if unat b4 * 0x01000000 \<ge> 2 ^ 31 then Inl (UB Signed_Overflow)
          else Inr (ucast b4 * 0x01000000 + ucast b3 * 0x00010000
                    + ucast b2 * 0x00000100 + ucast b1)))))
      else Inr 0)"

text \<open>
  The out-parameters and the two flags of \<^verbatim>\<open>get_usage\<close>; the caller initialises the
  parameters.
\<close>

record usage_state =
  us_page :: u16
  us_usage :: u16
  us_page_found :: bool
  us_usage_found :: bool

text \<open>The body of the loop after the lengths are known: store what the key says.\<close>

definition usage_key :: "u8 list \<Rightarrow> nat \<Rightarrow> u32 \<Rightarrow> u8 \<Rightarrow> u32 \<Rightarrow> usage_state \<Rightarrow> usage_state res" where
  "usage_key rd sz i key data_len st =
     (let key_cmd = key AND 0xfc in
      bind_res
        (if key_cmd = 0x4 then
           bind_res (get_bytes rd sz (unat data_len) (unat i))
             (\<lambda>v. Inr (st\<lparr>us_page := ucast v, us_page_found := True\<rparr>))
         else Inr st)
        (\<lambda>st. if key_cmd = 0x8 then
           bind_res (get_bytes rd sz (unat data_len) (unat i))
             (\<lambda>v. Inr (st\<lparr>us_usage := ucast v, us_usage_found := True\<rparr>))
         else Inr st))"

text \<open>The result is the return value (0 or -1) with the out-parameters.\<close>

partial_function (option) get_usage_loop ::
    "u8 list \<Rightarrow> nat \<Rightarrow> u32 \<Rightarrow> usage_state \<Rightarrow> (int \<times> usage_state) res option" where
  "get_usage_loop rd sz i st =
     (if unat i < sz then
        (case c_index rd (unat i) of
           Inl e \<Rightarrow> Some (Inl e)
         | Inr key \<Rightarrow>
             (case item_lengths rd sz i key of
                Inl e \<Rightarrow> Some (Inl e)
              | Inr (data_len, key_size) \<Rightarrow>
                  (case usage_key rd sz i key data_len st of
                     Inl e \<Rightarrow> Some (Inl e)
                   | Inr st' \<Rightarrow>
                       if us_page_found st' \<and> us_usage_found st' then Some (Inr (0, st'))
                       else get_usage_loop rd sz (i + (data_len + key_size)) st')))
      else Some (Inr (-1, st)))"

definition get_usage :: "u8 list \<Rightarrow> nat \<Rightarrow> u16 \<Rightarrow> u16 \<Rightarrow> (int \<times> usage_state) res option" where
  "get_usage report_descriptor sz page usage =
     get_usage_loop report_descriptor sz 0
       \<lparr>us_page = page, us_usage = usage, us_page_found = False, us_usage_found = False\<rparr>"

section \<open>Abstract specification: the items of a descriptor\<close>

text \<open>
  The number of bytes between an item's key and the next key, from the key and the bytes
  that follow it.
\<close>

definition item_skip :: "u8 \<Rightarrow> u8 list \<Rightarrow> nat" where
  "item_skip key bs =
     (if key AND 0xf0 = 0xf0 then (case bs of [] \<Rightarrow> 0 | b # _ \<Rightarrow> unat b) + 2
      else unat (short_data_len key))"

function item_keys :: "u8 list \<Rightarrow> u8 list" where
  "item_keys [] = []"
| "item_keys (key # bs) = key # item_keys (drop (item_skip key bs) bs)"
  by pat_completeness auto
termination by (relation "measure length") auto

section \<open>Lemmas\<close>

lemma short_data_len_le: "unat (short_data_len key) \<le> 4"
proof -
  have "unat (key AND 3) \<le> 3"
    using word_and_le1 [of key 3] by (simp add: word_le_nat_alt)
  then show ?thesis by (auto simp: short_data_len_def Let_def)
qed

lemma item_skip_le: "item_skip key bs \<le> 257"
proof -
  have "unat (b :: u8) \<le> 255" for b using unat_u8_less [of b] by simp
  then show ?thesis
    using short_data_len_le [of key] by (auto simp: item_skip_def split: list.split)
qed

text \<open>The cursor moves to the next key without wrapping, as long as the size leaves room.\<close>

lemma item_lengths_step:
  assumes i: "unat i < sz" and sz: "sz \<le> length rd" "sz + 258 < 2 ^ 32"
  obtains data_len key_size where
    "item_lengths rd sz i key = Inr (data_len, key_size)"
    "unat (i + (data_len + key_size)) =
       unat i + 1 + item_skip key (drop (unat i + 1) (take sz rd))"
proof -
  let ?bs = "drop (unat i + 1) (take sz rd)"
  have i1: "unat (i + 1) = unat i + 1"
    using i sz by (simp add: unat_plus)
  show thesis
  proof (cases "key AND 0xf0 = 0xf0 \<and> unat (i + 1) < sz")
    case True
    then have "?bs = rd ! (unat i + 1) # drop (unat i + 2) (take sz rd)"
      using i1 sz by (subst Cons_nth_drop_Suc [symmetric]) auto
    then have skip: "item_skip key ?bs = unat (rd ! (unat i + 1)) + 2"
      using True by (simp add: item_skip_def)
    let ?d = "ucast (rd ! (unat i + 1)) :: u32"
    have d: "unat ?d \<le> 255"
      using unat_u8_less [of "rd ! (unat i + 1)"] by simp
    have "unat (?d + 3) = unat ?d + 3"
      using d by (simp add: unat_plus)
    then have "unat (i + (?d + 3)) = unat i + (unat ?d + 3)"
      using d i sz by (simp add: unat_plus)
    then show thesis
      using True i1 sz skip by (intro that [of ?d 3]) (auto simp: item_lengths_def)
  next
    case False
    then have sk: "key AND 0xf0 = 0xf0 \<Longrightarrow> ?bs = []" using i1 by auto
    define dl ks where "dl = (if key AND 0xf0 = 0xf0 then 0 else short_data_len key)"
      and "ks = (if key AND 0xf0 = 0xf0 then 3 else 1 :: u32)"
    have dl: "unat dl \<le> 4" using short_data_len_le [of key] by (simp add: dl_def)
    have "unat (dl + ks) = unat dl + unat ks"
      using dl by (simp add: unat_plus ks_def)
    then have "unat (i + (dl + ks)) = unat i + (unat dl + unat ks)"
      using dl i sz by (simp add: unat_plus ks_def)
    moreover have "item_skip key ?bs + 1 = unat dl + unat ks"
      using sk by (auto simp: item_skip_def dl_def ks_def)
    ultimately show thesis
      using False by (intro that [of dl ks]) (auto simp: item_lengths_def dl_def ks_def)
  qed
qed

lemma unr_loop_spec:
  assumes sz: "sz \<le> length rd" "sz + 258 < 2 ^ 32"
  shows "unr_loop rd sz i = Some (Inr (0x85 \<in> set (item_keys (drop (unat i) (take sz rd)))))"
proof (induction "sz - unat i" arbitrary: i rule: less_induct)
  case less
  show ?case
  proof (cases "unat i < sz")
    case False
    then show ?thesis by (subst unr_loop.simps) simp
  next
    case True
    let ?key = "rd ! unat i" and ?bs = "drop (unat i + 1) (take sz rd)"
    obtain dl ks where len: "item_lengths rd sz i ?key = Inr (dl, ks)"
      and next_i: "unat (i + (dl + ks)) = unat i + 1 + item_skip ?key ?bs"
      using item_lengths_step [OF True sz] .
    have "drop (unat i) (take sz rd) = ?key # ?bs"
      using True sz by (subst Cons_nth_drop_Suc [symmetric]) auto
    moreover have "drop (item_skip ?key ?bs) ?bs = drop (unat (i + (dl + ks))) (take sz rd)"
      by (simp add: next_i add.commute)
    moreover have "unr_loop rd sz (i + (dl + ks)) =
        Some (Inr (0x85 \<in> set (item_keys (drop (unat (i + (dl + ks))) (take sz rd)))))"
      using True next_i by (intro less) auto
    ultimately show ?thesis
      using True sz by (subst unr_loop.simps) (auto simp: len)
  qed
qed

section \<open>Usage and Usage Page as a scan of the items\<close>

definition item_value :: "u8 \<Rightarrow> u8 list \<Rightarrow> u32 res" where
  "item_value key bs =
     (let n = unat (short_data_len key) in
      if length bs < n then Inr 0
      else if n = 4 \<and> unat (bs ! 3) \<ge> 128 then Inl (UB Signed_Overflow)
      else Inr (\<Sum>k<n. ucast (bs ! k) * 256 ^ k))"

definition usage_item :: "u8 \<Rightarrow> u8 list \<Rightarrow> usage_state \<Rightarrow> usage_state res" where
  "usage_item key bs st =
     (if key AND 0xfc = 4 then
        bind_res (item_value key bs) (\<lambda>v. Inr (st\<lparr>us_page := ucast v, us_page_found := True\<rparr>))
      else if key AND 0xfc = 8 then
        bind_res (item_value key bs) (\<lambda>v. Inr (st\<lparr>us_usage := ucast v, us_usage_found := True\<rparr>))
      else Inr st)"

function usage_scan :: "u8 list \<Rightarrow> usage_state \<Rightarrow> (int \<times> usage_state) res" where
  "usage_scan [] st = Inr (-1, st)"
| "usage_scan (key # bs) st =
     bind_res (usage_item key bs st)
       (\<lambda>st'. if us_page_found st' \<and> us_usage_found st' then Inr (0, st')
              else usage_scan (drop (item_skip key bs) bs) st')"
  by pat_completeness auto
termination by (relation "measure (\<lambda>(bs, st). length bs)") auto

lemma low_bits_cases: "(key AND 3 :: u8) \<in> {0, 1, 2, 3}"
proof -
  have "unat (key AND 3) \<le> 3"
    using word_and_le1 [of key 3] by (simp add: word_le_nat_alt)
  then have "unat (key AND 3) \<in> {0, 1, 2, 3}" by auto
  then show ?thesis by (simp add: word_unat_eq_iff)
qed

lemma short_data_len_cases: "unat (short_data_len key) \<in> {0, 1, 2, 4}"
  using low_bits_cases [of key] by (auto simp: short_data_len_def)

lemma sum_upto_bytes:
  "(\<Sum>k<1. f k) = f (0::nat)" "(\<Sum>k<2. f k) = f 0 + f (1::nat)"
  "(\<Sum>k<4. f k) = f 3 + f 2 + f 1 + f (0::nat)" for f :: "nat \<Rightarrow> u32"
  by (simp_all add: numeral_eq_Suc ac_simps)

lemma get_bytes_item_value:
  assumes i: "unat i < sz" and sz: "sz \<le> length rd"
  shows "get_bytes rd sz (unat (short_data_len key)) (unat i) =
     item_value key (drop (unat i + 1) (take sz rd))"
proof -
  let ?n = "unat (short_data_len key)" and ?bs = "drop (unat i + 1) (take sz rd)"
  have len: "length ?bs = sz - unat i - 1" using sz by simp
  show ?thesis
  proof (cases "unat i + ?n \<ge> sz")
    case True
    then have "length ?bs < ?n" using i len by linarith
    then show ?thesis using True by (simp add: get_bytes_def item_value_def Let_def)
  next
    case False
    then have n: "\<not> length ?bs < ?n" using i len by linarith
    have idx: "c_index rd (unat i + m) = Inr (?bs ! (m - 1))" if "1 \<le> m" "m \<le> ?n" for m
      using that False sz by simp
    have "?n \<in> {0, 1, 2, 4}" by (rule short_data_len_cases)
    then consider "?n = 0" | "?n = 1" | "?n = 2" | "?n = 4" by auto
    then show ?thesis
    proof cases
      case 1
      then show ?thesis by (simp add: get_bytes_def item_value_def)
    next
      case 2
      then show ?thesis using False n idx [of 1]
        by (simp add: get_bytes_def item_value_def Let_def sum_upto_bytes del: length_drop)
    next
      case 3
      then show ?thesis using False n idx [of 1] idx [of 2]
        by (simp add: get_bytes_def item_value_def Let_def sum_upto_bytes del: length_drop)
    next
      case 4
      then show ?thesis using False n idx [of 1] idx [of 2] idx [of 3] idx [of 4]
        by (simp add: get_bytes_def item_value_def Let_def sum_upto_bytes del: length_drop)
    qed
  qed
qed

lemma usage_keys_are_short:
  assumes "key AND 0xfc = 4 \<or> key AND 0xfc = (8 :: u8)"
  shows "key AND 0xf0 \<noteq> 0xf0"
proof -
  have "(key AND 0xfc) AND 0xf0 = key AND 0xf0" by (simp add: and.assoc)
  with assms show ?thesis by auto
qed

text \<open>
  A usage item is a short item, so \<^verbatim>\<open>get_bytes\<close> is only called with 0, 1, 2 or 4.
\<close>

lemma item_lengths_short:
  "key AND 0xf0 \<noteq> 0xf0 \<Longrightarrow> item_lengths rd sz i key = Inr (short_data_len key, 1)"
  by (simp add: item_lengths_def)

lemma usage_key_item:
  assumes "unat i < sz" "sz \<le> length rd"
    and "item_lengths rd sz i key = Inr (data_len, key_size)"
  shows "usage_key rd sz i key data_len st =
    usage_item key (drop (unat i + 1) (take sz rd)) st"
proof (cases "key AND 0xfc = 4 \<or> key AND 0xfc = 8")
  case True
  then have "data_len = short_data_len key"
    using assms(3) usage_keys_are_short [OF True] by (simp add: item_lengths_short)
  then have "get_bytes rd sz (unat data_len) (unat i) =
      item_value key (drop (unat i + 1) (take sz rd))"
    using get_bytes_item_value [OF assms(1,2)] by simp
  then show ?thesis
    using True
    by (cases "item_value key (drop (unat i + 1) (take sz rd))")
      (auto simp: usage_key_def usage_item_def Let_def)
next
  case False
  then show ?thesis by (simp add: usage_key_def usage_item_def Let_def)
qed

lemma get_usage_loop_spec:
  assumes sz: "sz \<le> length rd" "sz + 258 < 2 ^ 32"
  shows "get_usage_loop rd sz i st = Some (usage_scan (drop (unat i) (take sz rd)) st)"
proof (induction "sz - unat i" arbitrary: i st rule: less_induct)
  case less
  show ?case
  proof (cases "unat i < sz")
    case False
    then show ?thesis by (subst get_usage_loop.simps) simp
  next
    case True
    let ?key = "rd ! unat i" and ?bs = "drop (unat i + 1) (take sz rd)"
    obtain dl ks where len: "item_lengths rd sz i ?key = Inr (dl, ks)"
      and next_i: "unat (i + (dl + ks)) = unat i + 1 + item_skip ?key ?bs"
      using item_lengths_step [OF True sz] .
    have items: "drop (unat i) (take sz rd) = ?key # ?bs"
      using True sz by (subst Cons_nth_drop_Suc [symmetric]) auto
    have rest: "drop (item_skip ?key ?bs) ?bs = drop (unat (i + (dl + ks))) (take sz rd)"
      by (simp add: next_i add.commute)
    have IH: "get_usage_loop rd sz (i + (dl + ks)) st' =
        Some (usage_scan (drop (unat (i + (dl + ks))) (take sz rd)) st')" for st'
      using True next_i by (intro less) auto
    have key: "usage_key rd sz i ?key dl st = usage_item ?key ?bs st"
      using True sz(1) len by (rule usage_key_item)
    show ?thesis
      unfolding items usage_scan.simps rest
      using True sz IH
      by (subst get_usage_loop.simps)
        (cases "usage_item ?key ?bs st"; simp add: len key)
  qed
qed

section \<open>Usage and Usage Page as the values of items\<close>

text \<open>
  The items of a descriptor with their command (4 is Usage Page, 8 is Usage) and their value;
  the value of a 4-byte item overflows in \<^verbatim>\<open>get_bytes\<close> if its top byte is 128 or more.
\<close>

function desc_items :: "u8 list \<Rightarrow> (u8 \<times> u32 res) list" where
  "desc_items [] = []"
| "desc_items (key # bs) = (key AND 0xfc, item_value key bs) # desc_items (drop (item_skip key bs) bs)"
  by pat_completeness auto
termination by (relation "measure length") auto

text \<open>The Usage Page and Usage items up to the first one with which both kinds have occurred.\<close>

fun consulted :: "bool \<Rightarrow> bool \<Rightarrow> (u8 \<times> u32 res) list \<Rightarrow> (u8 \<times> u32 res) list" where
  "consulted p u [] = []"
| "consulted p u ((k, v) # its) =
     (if k = 4 \<or> k = 8
      then (k, v) # (if (p \<or> k = 4) \<and> (u \<or> k = 8) then [] else consulted (p \<or> k = 4) (u \<or> k = 8) its)
      else consulted p u its)"

definition item_values :: "u8 \<Rightarrow> (u8 \<times> u32 res) list \<Rightarrow> u16 list" where
  "item_values k its = map (\<lambda>x. ucast (projr (snd x))) (filter (\<lambda>x. fst x = k) its)"

lemma item_values_simps [simp]:
  "item_values k [] = []"
  "item_values k ((k', v) # its) = (if k' = k then ucast (projr v) # item_values k its else item_values k its)"
  by (simp_all add: item_values_def)

lemma consulted_usage: "x \<in> set (consulted p u its) \<Longrightarrow> fst x = 4 \<or> fst x = 8"
  by (induction p u its rule: consulted.induct) (auto split: if_splits)

lemma consulted_items: "set (consulted p u its) \<subseteq> set its"
  by (induction p u its rule: consulted.induct) auto

text \<open>What is stored for a list of such items.\<close>

fun store_items :: "(u8 \<times> u32 res) list \<Rightarrow> usage_state \<Rightarrow> usage_state res" where
  "store_items [] st = Inr st"
| "store_items ((k, v) # its) st =
     bind_res v (\<lambda>w. store_items its
       (if k = 4 then st\<lparr>us_page := ucast w, us_page_found := True\<rparr>
        else st\<lparr>us_usage := ucast w, us_usage_found := True\<rparr>))"

lemma usage_scan_store:
  "\<not> (us_page_found st \<and> us_usage_found st) \<Longrightarrow>
   usage_scan bs st =
     bind_res (store_items (consulted (us_page_found st) (us_usage_found st) (desc_items bs)) st)
       (\<lambda>st'. Inr (if us_page_found st' \<and> us_usage_found st' then 0 else -1, st'))"
proof (induction bs st rule: usage_scan.induct)
  case (2 key bs st)
  show ?case
  proof (cases "key AND 0xfc = 4 \<or> key AND 0xfc = 8")
    case False
    then show ?thesis using 2 by (auto simp: usage_item_def)
  next
    case True
    then show ?thesis
    proof (cases "item_value key bs")
      case (Inl e)
      then show ?thesis using True by (auto simp: usage_item_def)
    next
      case (Inr v)
      then show ?thesis using True 2 by (auto simp: usage_item_def)
    qed
  qed
qed auto

lemma store_items_ok:
  assumes "\<forall>x \<in> set its. (fst x = 4 \<or> fst x = 8) \<and> \<not> isl (snd x)"
  shows "store_items its st = Inr
    \<lparr>us_page = last (us_page st # item_values 4 its), us_usage = last (us_usage st # item_values 8 its),
     us_page_found = (us_page_found st \<or> item_values 4 its \<noteq> []),
     us_usage_found = (us_usage_found st \<or> item_values 8 its \<noteq> [])\<rparr>"
  using assms
proof (induction its st rule: store_items.induct)
  case (2 k v its st)
  then obtain w where "v = Inr w" by (cases v) auto
  then show ?case using 2 by auto
qed simp

lemma store_items_overflow:
  "\<exists>x \<in> set its. isl (snd x) \<Longrightarrow> \<forall>x \<in> set its. \<forall>e. snd x = Inl e \<longrightarrow> e = UB Signed_Overflow \<Longrightarrow>
   store_items its st = Inl (UB Signed_Overflow)"
proof (induction its st rule: store_items.induct)
  case (2 k v its st)
  then show ?case by (cases v) auto
qed simp

lemma desc_items_overflow: "x \<in> set (desc_items bs) \<Longrightarrow> snd x = Inl e \<Longrightarrow> e = UB Signed_Overflow"
  by (induction bs rule: desc_items.induct) (auto simp: item_value_def Let_def split: if_splits)

text \<open>The first value of a kind is among the items consulted.\<close>

lemma consulted_hd:
  assumes "item_values 4 its \<noteq> [] \<or> p" "item_values 8 its \<noteq> [] \<or> u" "\<not> (p \<and> u)"
  shows "(\<not> p \<longrightarrow> item_values 4 (consulted p u its) \<noteq> [] \<and>
      hd (item_values 4 (consulted p u its)) = hd (item_values 4 its)) \<and>
    (\<not> u \<longrightarrow> item_values 8 (consulted p u its) \<noteq> [] \<and>
      hd (item_values 8 (consulted p u its)) = hd (item_values 8 its))"
  using assms
proof (induction p u its rule: consulted.induct)
  case (2 p u k v its)
  then show ?case by (cases "k = 4"; cases "k = 8"; cases p; cases u) auto
qed simp

lemma get_usage_values:
  fixes rd :: "u8 list" and page usage :: u16
  assumes "sz \<le> length rd" "sz + 258 < 2 ^ 32"
  defines "its \<equiv> desc_items (take sz rd)"
  defines "C \<equiv> consulted False False its"
  shows "get_usage rd sz page usage =
    (if \<exists>x \<in> set C. isl (snd x) then Some (Inl (UB Signed_Overflow))
     else Some (Inr (if item_values 4 C \<noteq> [] \<and> item_values 8 C \<noteq> [] then 0 else -1,
       \<lparr>us_page = last (page # item_values 4 C), us_usage = last (usage # item_values 8 C),
        us_page_found = (item_values 4 C \<noteq> []), us_usage_found = (item_values 8 C \<noteq> [])\<rparr>)))"
proof -
  let ?st = "\<lparr>us_page = page, us_usage = usage, us_page_found = False, us_usage_found = False\<rparr>"
  have g: "get_usage rd sz page usage = Some (bind_res (store_items C ?st)
      (\<lambda>st'. Inr (if us_page_found st' \<and> us_usage_found st' then 0 else -1, st')))"
    using get_usage_loop_spec [OF assms(1,2), of 0 ?st] usage_scan_store [of ?st "take sz rd"]
    by (simp add: get_usage_def C_def its_def)
  show ?thesis
  proof (cases "\<exists>x \<in> set C. isl (snd x)")
    case True
    have "\<forall>x \<in> set C. \<forall>e. snd x = Inl e \<longrightarrow> e = UB Signed_Overflow"
      using consulted_items [of False False its] desc_items_overflow unfolding C_def its_def by blast
    then show ?thesis using True store_items_overflow [OF True, of ?st] g by simp
  next
    case False
    then have "\<forall>x \<in> set C. (fst x = 4 \<or> fst x = 8) \<and> \<not> isl (snd x)"
      using consulted_usage unfolding C_def by blast
    then show ?thesis using store_items_ok [of C ?st] False g by simp
  qed
qed

text \<open>
  In a buffer of at most 4096 bytes the scan comes to an end for every announced size, also
  for one above the size of the buffer: then it runs into the end of the buffer.
\<close>

lemma item_lengths_bound:
  assumes "item_lengths rd sz i key = Inr (dl, ks)"
  shows "1 \<le> unat ks \<and> unat dl + unat ks \<le> 258"
  using assms unat_u8_less [of "rd ! unat (i + 1)"] short_data_len_le [of key]
  by (auto simp: item_lengths_def c_index_def split: if_splits)

lemma uses_numbered_reports_total:
  assumes "length rd \<le> 4096"
  shows "uses_numbered_reports rd sz \<noteq> None"
proof -
  have "unr_loop rd n i \<noteq> None" for n i
  proof (induction "4096 - unat i" arbitrary: i rule: less_induct)
    case less
    show ?case
    proof (cases "unat i < n \<and> unat i < length rd")
      case False
      then show ?thesis by (subst unr_loop.simps) (auto simp: c_index_def)
    next
      case True
      have "unr_loop rd n (i + (dl + ks)) \<noteq> None"
        if "item_lengths rd n i (rd ! unat i) = Inr (dl, ks)" for dl ks
      proof (rule less)
        have b: "1 \<le> unat ks" "unat dl + unat ks \<le> 258" using item_lengths_bound [OF that] by auto
        then have "unat (dl + ks) = unat dl + unat ks" by (intro unat_plus) simp
        moreover from this have "unat (i + (dl + ks)) = unat i + unat (dl + ks)"
          using b True assms by (intro unat_plus) simp
        ultimately show "4096 - unat (i + (dl + ks)) < 4096 - unat i" using b True assms by linarith
      qed
      then show ?thesis using True by (subst unr_loop.simps) (auto split: sum.split)
    qed
  qed
  then show ?thesis by (simp add: uses_numbered_reports_def)
qed

section \<open>Properties\<close>

text \<open>
  C6. For a descriptor that lies inside the buffer the kernel filled,
  \<^verbatim>\<open>uses_numbered_reports\<close> terminates, reads only inside the buffer and answers whether
  some item of the descriptor has the key 0x85 (Report ID); a 0x85 byte inside the data of
  an item does not count.
\<close>

theorem uses_numbered_reports_correct:
  assumes "unat sz \<le> length rd" and "unat sz + 258 < 2 ^ 32"
  shows "uses_numbered_reports rd sz =
    Some (Inr (0x85 \<in> set (item_keys (take (unat sz) rd))))"
  using unr_loop_spec [OF assms, of 0] by (simp add: uses_numbered_reports_def)

theorem uses_numbered_reports_correct_witness:
  "uses_numbered_reports [0x05, 0x85, 0x85, 0x01] 4 =
     Some (Inr (0x85 \<in> set (item_keys (take (unat (4 :: u32)) [0x05, 0x85, 0x85, 0x01]))))"
  by (rule uses_numbered_reports_correct) simp_all

text \<open>
  C7. For a descriptor inside its buffer, \<^verbatim>\<open>get_usage\<close> terminates without a read outside the
  buffer. Its comment says that it returns the first Usage and Usage Page of the descriptor, and 0;
  that is what it does when, up to the item that completes the pair, there is one of each. In
  general it returns the last of each up to there, so the last of several Usage Pages in front of
  the first Usage; if a kind is missing the result is -1. The only fault is the signed overflow in
  \<^verbatim>\<open>get_bytes\<close>, for a 4-byte value whose top byte is 128 or more among these items.
\<close>

theorem get_usage_correct:
  assumes "sz \<le> length rd" and "sz + 258 < 2 ^ 32"
    and its: "its = desc_items (take sz rd)" and C: "C = consulted False False its"
  shows "((\<forall>x \<in> set C. \<not> isl (snd x)) \<and> item_values 4 its \<noteq> [] \<and> item_values 8 its \<noteq> [] \<and>
      length (item_values 4 C) \<le> 1 \<and> length (item_values 8 C) \<le> 1 \<longrightarrow>
      get_usage rd sz page usage = Some (Inr (0,
        \<lparr>us_page = hd (item_values 4 its), us_usage = hd (item_values 8 its),
         us_page_found = True, us_usage_found = True\<rparr>))) \<and>
    get_usage rd sz page usage =
      (if \<exists>x \<in> set C. isl (snd x) then Some (Inl (UB Signed_Overflow))
       else Some (Inr (if item_values 4 C \<noteq> [] \<and> item_values 8 C \<noteq> [] then 0 else -1,
         \<lparr>us_page = last (page # item_values 4 C), us_usage = last (usage # item_values 8 C),
          us_page_found = (item_values 4 C \<noteq> []), us_usage_found = (item_values 8 C \<noteq> [])\<rparr>)))"
proof -
  let ?p = "item_values 4 C" and ?u = "item_values 8 C"
  note g = get_usage_values [OF assms(1,2), of page usage, folded its, folded C]
  have one: "last (a # xs) = hd xs" if "xs \<noteq> []" "length xs \<le> 1" for a :: u16 and xs
    using that by (cases xs) auto
  have "?p \<noteq> []" "hd ?p = hd (item_values 4 its)" "?u \<noteq> []" "hd ?u = hd (item_values 8 its)"
    if "item_values 4 its \<noteq> []" "item_values 8 its \<noteq> []"
    using consulted_hd [of its False False] that unfolding C by auto
  then show ?thesis using g one [of ?p page] one [of ?u usage] by auto
qed

lemma desc_items_demo:
  "desc_items [0x06, 0xA0, 0xFF, 0x09, 0x01] = [(4, Inr 0xFFA0), (8, Inr 1)]"
  "desc_items [0x05, 0x01, 0x05, 0x0C, 0x09, 0x02] = [(4, Inr 1), (4, Inr 0x0C), (8, Inr 2)]"
  by code_simp+

theorem get_usage_correct_witness:
  "get_usage [0x06, 0xA0, 0xFF, 0x09, 0x01] 5 0 0 =
     Some (Inr (0, \<lparr>us_page = 0xFFA0, us_usage = 1, us_page_found = True, us_usage_found = True\<rparr>)) \<and>
   get_usage [0x05, 0x01, 0x05, 0x0C, 0x09, 0x02] 6 0 0 =
     Some (Inr (0, \<lparr>us_page = 0x0C, us_usage = 2, us_page_found = True, us_usage_found = True\<rparr>))"
  using get_usage_correct [OF _ _ refl refl, of 5 "[0x06, 0xA0, 0xFF, 0x09, 0x01]" 0 0]
    get_usage_correct [OF _ _ refl refl, of 6 "[0x05, 0x01, 0x05, 0x0C, 0x09, 0x02]" 0 0]
  by (simp add: desc_items_demo del: desc_items.simps)

text \<open>A 4-byte Usage with a top byte of 128 or more overflows the signed multiplication.\<close>

lemma get_usage_signed_overflow:
  "get_usage [0x0B, 0x01, 0x00, 0x00, 0xFF] 5 0 0 = Some (Inl (UB Signed_Overflow))"
  by (simp add: get_usage_def get_usage_loop.simps c_index_def item_lengths_def
      short_data_len_def usage_key_def get_bytes_def)

end
