(* ===== verification/Hidapi.thy ===== *)
theory Hidapi
  imports Prelude
begin

text \<open>
  The public interface of hidapi (\<^verbatim>\<open>src/include/minter/ledger/hid/hidapi.h\<close>): the record
  \<^verbatim>\<open>struct hid_device_info\<close>, the operations a client calls, as a record over the state
  \<open>'s\<close> of a backend, and the contract of the interface as the locale \<open>hid_backend\<close>, with two
  extensions for backends whose reads return and for those that can close.
  Then the search of \<^verbatim>\<open>hid_open\<close> for the path to open, which each backend repeats.
\<close>

section \<open>Device records\<close>

text \<open>
  \<^verbatim>\<open>struct hid_device_info\<close>; the \<^verbatim>\<open>next\<close> pointer is the tail of the list the record is in.
\<close>

record dev_info =
  di_path :: "string option"
  di_vendor_id :: u16
  di_product_id :: u16
  di_serial_number :: "wstr option"
  di_release_number :: u16
  di_manufacturer_string :: "wstr option"
  di_product_string :: "wstr option"
  di_usage_page :: u16
  di_usage :: u16
  di_interface_number :: int

text \<open>The record \<^verbatim>\<open>calloc(1, sizeof(struct hid_device_info))\<close> makes.\<close>

definition calloc_dev_info :: dev_info where
  "calloc_dev_info = \<lparr>di_path = None, di_vendor_id = 0, di_product_id = 0,
     di_serial_number = None, di_release_number = 0, di_manufacturer_string = None,
     di_product_string = None, di_usage_page = 0, di_usage = 0, di_interface_number = 0\<rparr>"

text \<open>The filter every backend's \<^verbatim>\<open>hid_enumerate\<close> applies; 0 matches any id.\<close>

definition id_matches :: "u16 \<Rightarrow> u16 \<Rightarrow> u16 \<Rightarrow> u16 \<Rightarrow> bool" where
  "id_matches vendor_id product_id dev_vid dev_pid \<longleftrightarrow>
     (vendor_id = 0 \<or> vendor_id = dev_vid) \<and> (product_id = 0 \<or> product_id = dev_pid)"

section \<open>Operations\<close>

text \<open>
  A device handle is a \<^verbatim>\<open>hid_device *\<close>. Read returns the C result with the bytes stored at
  the start of the caller's buffer.
\<close>

record 's hid_api =
  api_enumerate :: "u16 \<Rightarrow> u16 \<Rightarrow> 's \<Rightarrow> dev_info list res \<times> 's"
  api_open :: "u16 \<Rightarrow> u16 \<Rightarrow> wstr option \<Rightarrow> 's \<Rightarrow> ptr res \<times> 's"
  api_open_path :: "string option \<Rightarrow> 's \<Rightarrow> ptr res \<times> 's"
  api_set_nonblocking :: "ptr \<Rightarrow> int \<Rightarrow> 's \<Rightarrow> int res \<times> 's"
  api_read :: "ptr \<Rightarrow> nat \<Rightarrow> 's \<Rightarrow> (int \<times> u8 list) res \<times> 's"
  api_write :: "ptr \<Rightarrow> u8 list \<Rightarrow> 's \<Rightarrow> int res \<times> 's"
  api_close :: "ptr \<Rightarrow> 's \<Rightarrow> unit res \<times> 's"
  api_error :: "ptr \<Rightarrow> 's \<Rightarrow> wstr option res"
  api_errno :: "'s \<Rightarrow> int"

section \<open>Contract\<close>

text \<open>
  What a client may rely on: a handle that was opened is alive until it is closed, reading from
  and writing to a live handle have no undefined behaviour, a read that comes back reports -1 or the
  number of bytes it stored, at most the number asked for, and the other handles keep their state
  of life. A read that waits for ever is written \<open>Inl Deadlock\<close>. That closing a handle comes to an
  end, and without a fault, is not part of it: when it does, that handle is dead and no other.
\<close>

locale hid_backend =
  fixes api :: "'s hid_api"
    and alive :: "'s \<Rightarrow> nat \<Rightarrow> bool"
  assumes enumerate_keeps: "api_enumerate api v p s = (rl, s') \<Longrightarrow> alive s' = alive s"
    and open_alive:
      "api_open api v p sn s = (Inr (Some h), s') \<Longrightarrow> alive s' h \<and> \<not> alive s h"
    and open_path_alive:
      "api_open_path api path s = (Inr (Some h), s') \<Longrightarrow> alive s' h \<and> \<not> alive s h"
    and open_keeps: "api_open api v p sn s = (r, s') \<Longrightarrow> alive s k \<Longrightarrow> alive s' k"
    and open_path_keeps: "api_open_path api path s = (r, s') \<Longrightarrow> alive s k \<Longrightarrow> alive s' k"
    and nonblocking_safe:
      "alive s h \<Longrightarrow> api_set_nonblocking api (Some h) b s = (ri, s') \<Longrightarrow>
       ri = Inr 0 \<and> alive s' = alive s"
    and read_safe:
      "alive s h \<Longrightarrow> api_read api (Some h) n s = (rr, s') \<Longrightarrow>
       (rr = Inl Deadlock \<or>
         (\<exists>k bs. rr = Inr (k, bs) \<and> (k = -1 \<and> bs = [] \<or> k = int (length bs)) \<and> length bs \<le> n))
       \<and> alive s' = alive s"
    and write_safe:
      "alive s h \<Longrightarrow> data \<noteq> [] \<Longrightarrow> api_write api (Some h) data s = (ri, s') \<Longrightarrow>
       (\<exists>k. ri = Inr k \<and> -1 \<le> k) \<and> alive s' = alive s"
    and close_safe:
      "alive s h \<Longrightarrow> api_close api (Some h) s = (ru, s') \<Longrightarrow>
       if ru = Inr () then alive s' = (alive s)(h := False) else \<exists>e. ru = Inl e \<and> \<not> cpp_exception e"
    and error_safe: "alive s h \<Longrightarrow> \<exists>e. api_error api (Some h) s = Inr e"

text \<open>A backend whose reads always return, if only after the system call they block in.\<close>

locale returning_backend = hid_backend +
  assumes read_returns:
    "alive s h \<Longrightarrow> api_read api (Some h) n s = (rr, s') \<Longrightarrow> rr \<noteq> Inl Deadlock"

text \<open>
  A backend that can close the handles in \<open>closable\<close>: all that are alive for linux and windows,
  for libusb those whose read thread can be joined.
\<close>

locale closing_backend = hid_backend +
  fixes closable :: "'s \<Rightarrow> nat \<Rightarrow> bool"
  assumes close_returns:
    "alive s h \<Longrightarrow> closable s h \<Longrightarrow> \<exists>s'. api_close api (Some h) s = (Inr (), s')"

text \<open>A call that never returns leaves its caller waiting.\<close>

definition or_never :: "'s \<Rightarrow> ('a res \<times> 's) option \<Rightarrow> 'a res \<times> 's" where
  "or_never s r = (case r of None \<Rightarrow> (Inl Deadlock, s) | Some x \<Rightarrow> x)"

text \<open>What the contract asks of the result of a read that comes back.\<close>

definition good_result :: "nat \<Rightarrow> (int \<times> u8 list) res \<Rightarrow> bool" where
  "good_result n r \<longleftrightarrow> (\<exists>k bs. r = Inr (k, bs) \<and> (k = - 1 \<and> bs = [] \<or> k = int (length bs)) \<and> length bs \<le> n)"

lemma good_result_simps [simp]:
  "good_result n (Inr (- 1, []))" "good_result n (Inr (0, []))" "\<not> good_result n (Inl e)"
  "good_result n (Inr (int (min (length x) n), take n x))"
  by (auto simp: good_result_def)

section \<open>The search of hid_open\<close>

text \<open>
  The loop of \<^verbatim>\<open>hid_open\<close> over the enumerated devices. With a serial number, the linux,
  mac and windows versions compare without a null check of \<^verbatim>\<open>cur_dev->serial_number\<close>; the
  libusb version checks it. The result is \<^verbatim>\<open>path_to_open\<close>.
\<close>

fun lx_find_path :: "u16 \<Rightarrow> u16 \<Rightarrow> wstr option \<Rightarrow> dev_info list \<Rightarrow> string option res" where
  "lx_find_path vid pid serial [] = Inr None"
| "lx_find_path vid pid serial (d # ds) =
     (if di_vendor_id d = vid \<and> di_product_id d = pid then
        (case serial of
           Some sn \<Rightarrow>
             (case di_serial_number d of
                None \<Rightarrow> Inl (UB Null_Pointer)
              | Some dsn \<Rightarrow> if sn = dsn then Inr (di_path d) else lx_find_path vid pid serial ds)
         | None \<Rightarrow> Inr (di_path d))
      else lx_find_path vid pid serial ds)"

fun lu_find_path :: "u16 \<Rightarrow> u16 \<Rightarrow> wstr option \<Rightarrow> dev_info list \<Rightarrow> string option res" where
  "lu_find_path vid pid serial [] = Inr None"
| "lu_find_path vid pid serial (d # ds) =
     (if di_vendor_id d = vid \<and> di_product_id d = pid then
        (case serial of
           Some sn \<Rightarrow>
             if di_serial_number d \<noteq> None \<and> Some sn = di_serial_number d then Inr (di_path d)
             else lu_find_path vid pid serial ds
         | None \<Rightarrow> Inr (di_path d))
      else lu_find_path vid pid serial ds)"

fun mc_find_path :: "u16 \<Rightarrow> u16 \<Rightarrow> wstr option \<Rightarrow> dev_info list \<Rightarrow> string option res" where
  "mc_find_path vid pid serial [] = Inr None"
| "mc_find_path vid pid serial (d # ds) =
     (if di_vendor_id d = vid \<and> di_product_id d = pid then
        (case serial of
           Some sn \<Rightarrow>
             (case di_serial_number d of
                None \<Rightarrow> Inl (UB Null_Pointer)
              | Some dsn \<Rightarrow> if sn = dsn then Inr (di_path d) else mc_find_path vid pid serial ds)
         | None \<Rightarrow> Inr (di_path d))
      else mc_find_path vid pid serial ds)"

fun wn_find_path :: "u16 \<Rightarrow> u16 \<Rightarrow> wstr option \<Rightarrow> dev_info list \<Rightarrow> string option res" where
  "wn_find_path vid pid serial [] = Inr None"
| "wn_find_path vid pid serial (d # ds) =
     (if di_vendor_id d = vid \<and> di_product_id d = pid then
        (case serial of
           Some sn \<Rightarrow>
             (case di_serial_number d of
                None \<Rightarrow> Inl (UB Null_Pointer)
              | Some dsn \<Rightarrow> if sn = dsn then Inr (di_path d) else wn_find_path vid pid serial ds)
         | None \<Rightarrow> Inr (di_path d))
      else wn_find_path vid pid serial ds)"

text \<open>The device asked for: the ids, and the serial number when one is given.\<close>

definition wanted :: "u16 \<Rightarrow> u16 \<Rightarrow> wstr option \<Rightarrow> dev_info \<Rightarrow> bool" where
  "wanted vid pid serial d \<longleftrightarrow> di_vendor_id d = vid \<and> di_product_id d = pid \<and>
     (serial \<noteq> None \<longrightarrow> di_serial_number d = serial)"

text \<open>
  The contract the four searches share: on a list whose records carry a serial number, the
  search has no undefined behaviour and moves on exactly over the records not wanted.
\<close>

locale path_search =
  fixes find_path :: "u16 \<Rightarrow> u16 \<Rightarrow> wstr option \<Rightarrow> dev_info list \<Rightarrow> string option res"
  assumes find_Nil: "find_path vid pid serial [] = Inr None"
    and find_hit: "wanted vid pid serial d \<Longrightarrow> find_path vid pid serial (d # ds) = Inr (di_path d)"
    and find_miss: "\<not> wanted vid pid serial d \<Longrightarrow> di_serial_number d \<noteq> None \<Longrightarrow>
      find_path vid pid serial (d # ds) = find_path vid pid serial ds"
    and find_miss_any: "\<not> wanted vid pid None d \<Longrightarrow>
      find_path vid pid None (d # ds) = find_path vid pid None ds"
begin

lemma find_path_first:
  assumes "serial = None \<or> (\<forall>d \<in> set ds. di_serial_number d \<noteq> None)"
  shows "find_path vid pid serial ds =
    Inr (case List.find (wanted vid pid serial) ds of None \<Rightarrow> None | Some d \<Rightarrow> di_path d)"
  using assms
proof (induction ds)
  case Nil
  then show ?case by (simp add: find_Nil)
next
  case (Cons d ds)
  then show ?case
    by (cases "wanted vid pid serial d") (auto simp: find_hit find_miss find_miss_any)
qed

end

interpretation lx_search: path_search lx_find_path
  by unfold_locales (auto simp: wanted_def split: option.splits)

interpretation lu_search: path_search lu_find_path
  by unfold_locales (auto simp: wanted_def split: option.splits)

interpretation mc_search: path_search mc_find_path
  by unfold_locales (auto simp: wanted_def split: option.splits)

interpretation wn_search: path_search wn_find_path
  by unfold_locales (auto simp: wanted_def split: option.splits)

end
