(* ===== verification/Toolbox.thy ===== *)
theory Toolbox
  imports Prelude
begin

text \<open>
  The byte containers \<^verbatim>\<open>tb::bytes_data\<close>/\<^verbatim>\<open>tb::bytes_buffer\<close> come from the external package
  \<^verbatim>\<open>toolbox\<close>, which is not part of the repository: they are a parameter of the model. A
  container is seen as the list of its bytes, and the operations the wallet calls are the
  fields of \<open>tb_ops\<close>. The predicate \<open>tb_laws\<close> names what the wallet relies on; nothing is
  said about a write past the end, a range outside the container or a short read of a number,
  except where the caller tests for it. The record \<open>tb_vec\<close> of a plain vector of bytes
  satisfies the laws and serves to evaluate concrete runs.
\<close>

section \<open>Operations\<close>

text \<open>
  \<open>tb_write b pos d\<close> is \<^verbatim>\<open>b.write(pos, d)\<close> with the new contents and the returned count;
  \<open>tb_pop_front_to b pos c\<close> is \<^verbatim>\<open>b.pop_front_to(pos, c)\<close> with the new \<open>b\<close>, the new \<open>c\<close>
  and the count; \<open>tb_at\<close> is the checked \<^verbatim>\<open>b.at(i)\<close> and \<open>tb_sub\<close> the operator \<^verbatim>\<open>b[i]\<close>.
\<close>

record tb_ops =
  tb_new :: "nat \<Rightarrow> u8 list"
  tb_write :: "u8 list \<Rightarrow> nat \<Rightarrow> u8 list \<Rightarrow> (u8 list \<times> nat) res"
  tb_put16 :: "u16 \<Rightarrow> u8 list"
  tb_put32 :: "u32 \<Rightarrow> u8 list"
  tb_num16 :: "u8 list \<Rightarrow> nat \<Rightarrow> u16 res"
  tb_num32 :: "u8 list \<Rightarrow> nat \<Rightarrow> u32 res"
  tb_at :: "u8 list \<Rightarrow> nat \<Rightarrow> u8 res"
  tb_take_range :: "u8 list \<Rightarrow> nat \<Rightarrow> nat \<Rightarrow> u8 list res"
  tb_take_range_from :: "u8 list \<Rightarrow> nat \<Rightarrow> u8 list res"
  tb_take_range_to :: "u8 list \<Rightarrow> nat \<Rightarrow> u8 list res"
  tb_take_first :: "u8 list \<Rightarrow> nat \<Rightarrow> u8 list res"
  tb_take_last :: "u8 list \<Rightarrow> nat \<Rightarrow> u8 list res"
  tb_pop_front_to :: "u8 list \<Rightarrow> nat \<Rightarrow> u8 list \<Rightarrow> (u8 list \<times> u8 list \<times> nat) res"
  tb_resize :: "u8 list \<Rightarrow> nat \<Rightarrow> u8 list"
  tb_to_string :: "u8 list \<Rightarrow> string"
  tb_from_string_raw :: "string \<Rightarrow> u8 list"
  tb_from_hex :: "string \<Rightarrow> u8 list res"
  tb_to_hex :: "u8 list \<Rightarrow> string"
  tb_sub :: "u8 list \<Rightarrow> nat \<Rightarrow> u8 res"

section \<open>Laws\<close>

definition be32 :: "u32 \<Rightarrow> u8 list" where
  "be32 w = [ucast (drop_bit 24 w), ucast (drop_bit 16 w), ucast (drop_bit 8 w), ucast w]"

definition of_be32 :: "u8 list \<Rightarrow> u32" where
  "of_be32 bs = push_bit 24 (ucast (bs ! 0)) OR push_bit 16 (ucast (bs ! 1))
     OR push_bit 8 (ucast (bs ! 2)) OR ucast (bs ! 3)"

text \<open>The bytes of a character string.\<close>

definition of_byte :: "u8 \<Rightarrow> char" where
  "of_byte b = char_of (unat b)"

definition to_byte :: "char \<Rightarrow> u8" where
  "to_byte c = of_nat (of_char c)"

lemma of_byte_to_byte [byte_simps, simp]: "of_byte (to_byte c) = c"
proof -
  have "(of_char c :: nat) < 256" using of_char_mod_256 [of c, where 'a = nat] by linarith
  then show ?thesis
    by (simp add: of_byte_def to_byte_def unsigned_of_nat take_bit_nat_eq_self)
qed

definition tb_laws :: "tb_ops \<Rightarrow> bool" where
  "tb_laws tb \<longleftrightarrow>
     (\<forall>n. length (tb_new tb n) = n) \<and>
     (\<forall>b pos d. pos + length d \<le> length b \<longrightarrow>
        tb_write tb b pos d = Inr (overwrite b pos d, length d)) \<and>
     (\<forall>w. tb_put16 tb w = be16 w) \<and>
     (\<forall>w. tb_put32 tb w = be32 w) \<and>
     (\<forall>b i. i + 2 \<le> length b \<longrightarrow> tb_num16 tb b i = Inr (of_be16 (b ! i) (b ! (i + 1)))) \<and>
     (\<forall>b i. i + 4 \<le> length b \<longrightarrow> tb_num32 tb b i = Inr (of_be32 (take 4 (drop i b)))) \<and>
     (\<forall>b i. i < length b \<longrightarrow> tb_at tb b i = Inr (b ! i)) \<and>
     (\<forall>b i j. i \<le> j \<longrightarrow> j \<le> length b \<longrightarrow>
        tb_take_range tb b i j = Inr (take (j - i) (drop i b))) \<and>
     (\<forall>b i. i \<le> length b \<longrightarrow> tb_take_range_from tb b i = Inr (drop i b)) \<and>
     (\<forall>b j. j \<le> length b \<longrightarrow> tb_take_range_to tb b j = Inr (take j b)) \<and>
     (\<forall>b n. n \<le> length b \<longrightarrow> tb_take_first tb b n = Inr (take n b)) \<and>
     (\<forall>b n. n \<le> length b \<longrightarrow> tb_take_last tb b n = Inr (drop (length b - n) b)) \<and>
     (\<forall>b pos c. pos \<le> length c \<longrightarrow>
        tb_pop_front_to tb b pos c =
          (let n = min (length b) (length c - pos)
           in Inr (drop n b, overwrite c pos (take n b), n))) \<and>
     (\<forall>b. tb_to_string tb b = map of_byte b) \<and>
     (\<forall>s. tb_from_string_raw tb s = map to_byte s) \<and>
     (\<forall>b i. i < length b \<longrightarrow> tb_sub tb b i = Inr (b ! i))"

lemma tb_lawsD:
  assumes "tb_laws tb"
  shows "length (tb_new tb n) = n"
    and "pos + length d \<le> length b \<Longrightarrow> tb_write tb b pos d = Inr (overwrite b pos d, length d)"
    and "tb_put16 tb w = be16 w"
    and "tb_put32 tb v = be32 v"
    and "i + 2 \<le> length b \<Longrightarrow> tb_num16 tb b i = Inr (of_be16 (b ! i) (b ! (i + 1)))"
    and "i + 4 \<le> length b \<Longrightarrow> tb_num32 tb b i = Inr (of_be32 (take 4 (drop i b)))"
    and "i < length b \<Longrightarrow> tb_at tb b i = Inr (b ! i)"
    and "i \<le> j \<Longrightarrow> j \<le> length b \<Longrightarrow> tb_take_range tb b i j = Inr (take (j - i) (drop i b))"
    and "i \<le> length b \<Longrightarrow> tb_take_range_from tb b i = Inr (drop i b)"
    and "j \<le> length b \<Longrightarrow> tb_take_range_to tb b j = Inr (take j b)"
    and "n \<le> length b \<Longrightarrow> tb_take_first tb b n = Inr (take n b)"
    and "n \<le> length b \<Longrightarrow> tb_take_last tb b n = Inr (drop (length b - n) b)"
    and "pos \<le> length c \<Longrightarrow> tb_pop_front_to tb b pos c =
      Inr (drop (min (length b) (length c - pos)) b,
           overwrite c pos (take (min (length b) (length c - pos)) b),
           min (length b) (length c - pos))"
    and "tb_to_string tb b = map of_byte b"
    and "tb_from_string_raw tb str = map to_byte str"
    and "i < length b \<Longrightarrow> tb_sub tb b i = Inr (b ! i)"
  using assms by (simp_all add: tb_laws_def Let_def)

section \<open>A vector of bytes\<close>

text \<open>
  A write past the end grows the vector with zero bytes; a range or a number outside raises
  \<^verbatim>\<open>std::out_of_range\<close>.
\<close>

definition hex_nibble :: "char \<Rightarrow> nat option" where
  "hex_nibble c = (let n = of_char c :: nat in
     if 48 \<le> n \<and> n \<le> 57 then Some (n - 48) else if 97 \<le> n \<and> n \<le> 102 then Some (n - 87) else None)"

fun hex_bytes :: "string \<Rightarrow> u8 list res" where
  "hex_bytes (a # b # cs) =
     (case (hex_nibble a, hex_nibble b) of
        (Some x, Some y) \<Rightarrow> bind_res (hex_bytes cs) (\<lambda>bs. Inr (of_nat (16 * x + y) # bs))
      | _ \<Rightarrow> Inl Out_Of_Range)"
| "hex_bytes [] = Inr []"
| "hex_bytes [a] = Inl Out_Of_Range"

definition hex_byte :: "u8 \<Rightarrow> string" where
  "hex_byte b = [''0123456789abcdef'' ! (unat b div 16), ''0123456789abcdef'' ! (unat b mod 16)]"

definition tb_vec :: tb_ops where
  "tb_vec = \<lparr>
     tb_new = (\<lambda>n. replicate n 0),
     tb_write = (\<lambda>b pos d.
       Inr (overwrite (b @ replicate (pos + length d - length b) 0) pos d, length d)),
     tb_put16 = be16,
     tb_put32 = be32,
     tb_num16 = (\<lambda>b i. if i + 2 \<le> length b then Inr (of_be16 (b ! i) (b ! (i + 1)))
                       else Inl Out_Of_Range),
     tb_num32 = (\<lambda>b i. if i + 4 \<le> length b then Inr (of_be32 (take 4 (drop i b)))
                       else Inl Out_Of_Range),
     tb_at = (\<lambda>b i. if i < length b then Inr (b ! i) else Inl Out_Of_Range),
     tb_take_range = (\<lambda>b i j. if i \<le> j \<and> j \<le> length b then Inr (take (j - i) (drop i b))
                              else Inl Out_Of_Range),
     tb_take_range_from = (\<lambda>b i. if i \<le> length b then Inr (drop i b) else Inl Out_Of_Range),
     tb_take_range_to = (\<lambda>b j. if j \<le> length b then Inr (take j b) else Inl Out_Of_Range),
     tb_take_first = (\<lambda>b n. if n \<le> length b then Inr (take n b) else Inl Out_Of_Range),
     tb_take_last = (\<lambda>b n. if n \<le> length b then Inr (drop (length b - n) b)
                           else Inl Out_Of_Range),
     tb_pop_front_to = (\<lambda>b pos c.
       if pos \<le> length c then
         (let n = min (length b) (length c - pos)
          in Inr (drop n b, overwrite c pos (take n b), n))
       else Inl Out_Of_Range),
     tb_resize = (\<lambda>b n. take n b @ replicate (n - length b) 0),
     tb_to_string = map of_byte,
     tb_from_string_raw = map to_byte,
     tb_from_hex = hex_bytes,
     tb_to_hex = (\<lambda>b. concat (map hex_byte b)),
     tb_sub = c_index\<rparr>"

lemma tb_vec_laws: "tb_laws tb_vec"
  by (simp add: tb_laws_def tb_vec_def Let_def)

lemma of_be32_be32 [byte_simps, simp]: "of_be32 (be32 w) = w"
proof (rule bit_word_eqI)
  fix n :: nat
  assume "n < LENGTH(32)"
  then consider "n < 8" | "8 \<le> n" "n < 16" | "16 \<le> n" "n < 24" | "24 \<le> n" "n < 32"
    by fastforce
  then show "bit (of_be32 (be32 w)) n = bit w n"
    by cases (auto simp: of_be32_def be32_def bit_simps)
qed

lemma length_be32 [byte_simps, simp]: "length (be32 w) = 4"
  by (simp add: be32_def)

end
