(* ===== verification/Hidpp_Device.thy ===== *)
theory Hidpp_Device
  imports Hidapi Toolbox
begin

text \<open>
  The C++ device handle \<^verbatim>\<open>minter::hidpp_device\<close> (\<^verbatim>\<open>src/src/hidpp_device.cpp\<close>,
  \<^verbatim>\<open>src/include/minter/ledger/hidpp_device.h\<close>) over an arbitrary hidapi backend, and the
  enumeration of \<^verbatim>\<open>minter::hidpp\<close> (\<^verbatim>\<open>src/src/hidpp_base.cpp\<close>). The mutex \<open>m_dev_lock\<close> is a
  \<^verbatim>\<open>std::mutex\<close>: locking it again in the thread that holds it does not return, which is the
  fault \<open>Deadlock\<close>. The parts of the C++ library that depend on the locale and on the
  system's error table are the record \<open>text_lib\<close>.
\<close>

section \<open>Platform and library parameters\<close>

text \<open>\<open>narrow\<close> is the \<^verbatim>\<open>std::codecvt\<close> conversion (\<open>None\<close>: its result is an error).\<close>

record text_lib =
  narrow :: "wstr \<Rightarrow> string option"
  tl_strerror :: "int \<Rightarrow> string"

text \<open>The build: \<^verbatim>\<open>WIN32\<close> (writes) and \<^verbatim>\<open>_MSC_VER\<close> (reads).\<close>

record build =
  b_win32 :: bool
  b_msc :: bool

text \<open>Decimal output of integers, as \<^verbatim>\<open>operator<<\<close> and \<^verbatim>\<open>fmt\<close> print them.\<close>

fun dec_nat :: "nat \<Rightarrow> string" where
  "dec_nat n = (if n < 10 then [char_of (48 + n)] else dec_nat (n div 10) @ [char_of (48 + n mod 10)])"

declare dec_nat.simps [simp del]

definition dec_int :: "int \<Rightarrow> string" where
  "dec_int i = (if i < 0 then ''-'' @ dec_nat (nat (- i)) else dec_nat (nat i))"

section \<open>State\<close>

record hidpp_device =
  m_dev :: ptr
  m_vendorId :: u16
  m_productId :: u16
  m_path :: "string option"
  m_dev_lock :: bool

definition hidpp_device_ids :: "u16 \<Rightarrow> u16 \<Rightarrow> hidpp_device" where
  "hidpp_device_ids vendorId productId =
     \<lparr>m_dev = None, m_vendorId = vendorId, m_productId = productId, m_path = None,
      m_dev_lock = False\<rparr>"

definition hidpp_device_info :: "dev_info \<Rightarrow> hidpp_device" where
  "hidpp_device_info info =
     \<lparr>m_dev = None, m_vendorId = di_vendor_id info, m_productId = di_product_id info,
      m_path = None, m_dev_lock = False\<rparr>"

definition hidpp_device_path :: "string option \<Rightarrow> hidpp_device" where
  "hidpp_device_path path =
     \<lparr>m_dev = None, m_vendorId = 0, m_productId = 0, m_path = path, m_dev_lock = False\<rparr>"

text \<open>
  The copy constructor starts with a mutex of its own; the assignment keeps the mutex of the
  target. Neither closes the handle the target held.
\<close>

definition hidpp_copy :: "hidpp_device \<Rightarrow> hidpp_device" where
  "hidpp_copy other =
     \<lparr>m_dev = m_dev other, m_vendorId = m_vendorId other, m_productId = m_productId other,
      m_path = m_path other, m_dev_lock = False\<rparr>"

definition hidpp_assign :: "hidpp_device \<Rightarrow> hidpp_device \<Rightarrow> hidpp_device" where
  "hidpp_assign d other =
     d\<lparr>m_dev := m_dev other, m_vendorId := m_vendorId other, m_productId := m_productId other,
       m_path := m_path other\<rparr>"

definition hidpp_valid :: "hidpp_device \<Rightarrow> bool" where
  "hidpp_valid d \<longleftrightarrow> m_dev d \<noteq> None"

section \<open>The lock\<close>

type_synonym ('a, 's) dev_op = "hidpp_device \<Rightarrow> 's \<Rightarrow> 'a res \<times> hidpp_device \<times> 's"

text \<open>
  A scope with a \<^verbatim>\<open>std::lock_guard\<close>: the guard unlocks when the scope is left, by a return
  or by an exception; a thread blocked on the lock never leaves it.
\<close>

definition lock_guard :: "('a, 's) dev_op \<Rightarrow> ('a, 's) dev_op" where
  "lock_guard body d s =
     (if m_dev_lock d then (Inl Deadlock, d, s)
      else (case body (d\<lparr>m_dev_lock := True\<rparr>) s of
              (Inl Deadlock, d', s') \<Rightarrow> (Inl Deadlock, d', s')
            | (r, d', s') \<Rightarrow> (r, d'\<lparr>m_dev_lock := False\<rparr>, s')))"

lemma unlocked_id [simp]: "\<not> m_dev_lock d \<Longrightarrow> d\<lparr>m_dev_lock := False\<rparr> = d"
  by (cases d) simp

section \<open>Operations\<close>

definition hidpp_open :: "'s hid_api \<Rightarrow> (bool, 's) dev_op" where
  "hidpp_open api = lock_guard (\<lambda>d s.
     case (if m_vendorId d = 0 \<or> m_productId d = 0
           then api_open_path api (m_path d) s
           else api_open api (m_vendorId d) (m_productId d) None s) of
       (Inl e, s1) \<Rightarrow> (Inl e, d, s1)
     | (Inr None, s1) \<Rightarrow> (Inr False, d\<lparr>m_dev := None\<rparr>, s1)
     | (Inr (Some h), s1) \<Rightarrow>
         (case api_set_nonblocking api (Some h) 0 s1 of
            (Inl e, s2) \<Rightarrow> (Inl e, d\<lparr>m_dev := Some h\<rparr>, s2)
          | (Inr _, s2) \<Rightarrow> (Inr True, d\<lparr>m_dev := Some h\<rparr>, s2)))"

definition hidpp_close :: "'s hid_api \<Rightarrow> (unit, 's) dev_op" where
  "hidpp_close api = lock_guard (\<lambda>d s.
     case m_dev d of
       None \<Rightarrow> (Inr (), d, s)
     | Some h \<Rightarrow>
         (case api_close api (Some h) s of
            (Inl e, s1) \<Rightarrow> (Inl e, d, s1)
          | (Inr _, s1) \<Rightarrow> (Inr (), d\<lparr>m_dev := None\<rparr>, s1)))"

text \<open>\<^verbatim>\<open>get_dev_error\<close> takes the lock itself.\<close>

definition get_dev_error :: "'s hid_api \<Rightarrow> text_lib \<Rightarrow> (string, 's) dev_op" where
  "get_dev_error api lib = lock_guard (\<lambda>d s.
     case (if m_dev d \<noteq> None then api_error api (m_dev d) s else Inr None) of
       Inl e \<Rightarrow> (Inl e, d, s)
     | Inr err \<Rightarrow>
         (let ss = (case err of
                      None \<Rightarrow> ''''
                    | Some tmp \<Rightarrow>
                        (case narrow lib tmp of
                           None \<Rightarrow> ''''
                         | Some txt \<Rightarrow> ''HID error: '' @ txt @ '';''));
              errno = api_errno api s
          in (Inr (if errno = 0 then ss
                   else ss @ ''['' @ dec_int errno @ ''] '' @ tl_strerror lib errno), d, s)))"

definition getError :: "'s hid_api \<Rightarrow> text_lib \<Rightarrow> (string, 's) dev_op" where
  "getError api lib d s = get_dev_error api lib d s"

text \<open>\<^verbatim>\<open>write(const uint8_t*, size_t)\<close>: the \<^verbatim>\<open>int\<close> of hidapi becomes a \<^verbatim>\<open>size_t\<close>.\<close>

definition hidpp_write_raw :: "'s hid_api \<Rightarrow> u8 list \<Rightarrow> (u64, 's) dev_op" where
  "hidpp_write_raw api data = lock_guard (\<lambda>d s.
     case api_write api (m_dev d) data s of
       (Inl e, s1) \<Rightarrow> (Inl e, d, s1)
     | (Inr n, s1) \<Rightarrow> (Inr (of_int n), d, s1))"

definition hidpp_write :: "build \<Rightarrow> tb_ops \<Rightarrow> 's hid_api \<Rightarrow> u8 list \<Rightarrow> (u64, 's) dev_op" where
  "hidpp_write b tb api data d s =
     (if b_win32 b then
        (case bind_res (tb_write tb (tb_new tb (length data + 1)) 0 [0])
                (\<lambda>(w, _). tb_write tb w 1 data) of
           Inl e \<Rightarrow> (Inl e, d, s)
         | Inr (with_hid_report, _) \<Rightarrow> hidpp_write_raw api with_hid_report d s)
      else hidpp_write_raw api data d s)"

text \<open>
  \<^verbatim>\<open>read(tb::bytes_data &, size_t)\<close>; the result is the returned count with the new contents
  of \<open>out\<close>. The error branch calls \<^verbatim>\<open>get_dev_error\<close> while the lock is held.
\<close>

definition hidpp_read ::
    "build \<Rightarrow> tb_ops \<Rightarrow> 's hid_api \<Rightarrow> text_lib \<Rightarrow> u8 list \<Rightarrow> nat \<Rightarrow> (u64 \<times> u8 list, 's) dev_op" where
  "hidpp_read b tb api lib out readLen = lock_guard (\<lambda>d s.
     let targetReadLen = (if b_msc b then readLen + 1 else readLen) in
     case api_read api (m_dev d) targetReadLen s of
       (Inl e, s1) \<Rightarrow> (Inl e, d, s1)
     | (Inr (n, bs), s1) \<Rightarrow>
         (let buf = overwrite (replicate targetReadLen 0) 0 bs in
          case api_error api (m_dev d) s1 of
            Inl e \<Rightarrow> (Inl e, d, s1)
          | Inr (Some _) \<Rightarrow>
              (case get_dev_error api lib d s1 of
                 (Inl e, d', s2) \<Rightarrow> (Inl e, d', s2)
               | (Inr _, d', s2) \<Rightarrow> (Inr (0, out), d', s2))
          | Inr None \<Rightarrow>
              (if b_msc b then
                 (case bind_res (tb_take_range tb buf 1 targetReadLen) (tb_write tb out 0) of
                    Inl e \<Rightarrow> (Inl e, d, s1)
                  | Inr (out', _) \<Rightarrow> (Inr (of_int (n - 1), out'), d, s1))
               else
                 (case tb_write tb out 0 buf of
                    Inl e \<Rightarrow> (Inl e, d, s1)
                  | Inr (out', _) \<Rightarrow> (Inr (of_int n, out'), d, s1)))))"

text \<open>\<^verbatim>\<open>read_back\<close>: only the inner block holds the lock.\<close>

definition hidpp_read_back ::
    "tb_ops \<Rightarrow> 's hid_api \<Rightarrow> text_lib \<Rightarrow> u8 list \<Rightarrow> nat \<Rightarrow> nat \<Rightarrow> (nat \<times> u8 list, 's) dev_op" where
  "hidpp_read_back tb api lib out seq readLen d s =
     (case lock_guard (\<lambda>d s.
        case api_read api (m_dev d) readLen s of
          (Inl e, s1) \<Rightarrow> (Inl e, d, s1)
        | (Inr (_, bs), s1) \<Rightarrow>
            (case api_error api (m_dev d) s1 of
               Inl e \<Rightarrow> (Inl e, d, s1)
             | Inr (Some _) \<Rightarrow>
                 (case get_dev_error api lib d s1 of
                    (Inl e, d', s2) \<Rightarrow> (Inl e, d', s2)
                  | (Inr _, d', s2) \<Rightarrow> (Inr None, d', s2))
             | Inr None \<Rightarrow> (Inr (Some (overwrite (replicate readLen 0) 0 bs)), d, s1))) d s of
        (Inl e, d', s') \<Rightarrow> (Inl e, d', s')
      | (Inr None, d', s') \<Rightarrow> (Inr (0, out), d', s')
      | (Inr (Some buf), d', s') \<Rightarrow>
          (let pos = seq * readLen;
               out1 = (if length out \<le> pos then tb_resize tb out (length out + pos) else out)
           in case tb_write tb out1 (seq * readLen) buf of
                Inl e \<Rightarrow> (Inl e, d', s')
              | Inr (out2, _) \<Rightarrow> (Inr (readLen, out2), d', s')))"

text \<open>\<^verbatim>\<open>read(uint8_t *, size_t)\<close>; \<open>out\<close> is \<open>None\<close> for a null pointer.\<close>

definition hidpp_read_raw :: "'s hid_api \<Rightarrow> u8 list option \<Rightarrow> nat \<Rightarrow> (u64 \<times> u8 list, 's) dev_op" where
  "hidpp_read_raw api out readLen d s =
     (case out of
        None \<Rightarrow> (Inl (Runtime_Error ''Output variable is null''), d, s)
      | Some buf \<Rightarrow>
          lock_guard (\<lambda>d s.
            case api_read api (m_dev d) readLen s of
              (Inl e, s1) \<Rightarrow> (Inl e, d, s1)
            | (Inr (n, bs), s1) \<Rightarrow>
                (case c_memcpy buf 0 bs of
                   Inl e \<Rightarrow> (Inl e, d, s1)
                 | Inr buf' \<Rightarrow> (Inr (of_int n, buf'), d, s1))) d s)"

section \<open>hidpp: enumeration\<close>

text \<open>
  \<^verbatim>\<open>enumerate_devices\<close> walks the linked list and wraps each node; the wrapper owns the node.
\<close>

fun wrap_infos :: "dev_info list \<Rightarrow> dev_info list \<Rightarrow> dev_info list" where
  "wrap_infos infos [] = infos"
| "wrap_infos infos (current # rest) = wrap_infos (infos @ [current]) rest"

definition enumerate_devices :: "'s hid_api \<Rightarrow> u16 \<Rightarrow> u16 \<Rightarrow> 's \<Rightarrow> dev_info list res \<times> 's" where
  "enumerate_devices api vendorId productId s =
     (case api_enumerate api vendorId productId s of
        (Inl e, s1) \<Rightarrow> (Inl e, s1)
      | (Inr devs, s1) \<Rightarrow> (Inr (wrap_infos [] devs), s1))"

lemma wrap_infos_append [simp]: "wrap_infos infos devs = infos @ devs"
  by (induction devs arbitrary: infos) auto

end
