(* ===== verification/Frame_Io.thy ===== *)
theory Frame_Io
  imports Hidpp_Device
begin

text \<open>
  The Ledger framing: \<^verbatim>\<open>struct APDU\<close> (\<^verbatim>\<open>hidpp_base.h\<close>), \<^verbatim>\<open>minter::frame_io\<close>
  (\<^verbatim>\<open>frame_io.cpp\<close>) and \<^verbatim>\<open>minter::frame_io_apdu\<close> (\<^verbatim>\<open>frame_io_apdu.cpp\<close>). The class
  hierarchy is record extension. Exceptions keep the state they leave behind: \<open>m_seq\<close>,
  \<open>m_offset\<close> and \<open>rn\<close> are part of the result of a call that throws. A loop whose end
  depends on the byte container is \<open>None\<close> if it does not end. Log output is not modelled.
\<close>

section \<open>Parameters\<close>

text \<open>\<open>env_sleep\<close> is what happens to the world while a thread sleeps, in milliseconds.\<close>

record 's env =
  env_build :: build
  env_tb :: tb_ops
  env_api :: "'s hid_api"
  env_lib :: text_lib
  env_sleep :: "nat \<Rightarrow> 's \<Rightarrow> 's"

section \<open>APDU\<close>

text \<open>\<open>payload\<close> is the array of 255 bytes, \<open>payload_size\<close> the \<^verbatim>\<open>size_t\<close> the sender sets.\<close>

record APDU =
  cla :: u8
  ins :: u8
  p1 :: u8
  p2 :: u8
  payload_size :: nat
  payload :: "u8 list"

definition to_bytes :: "tb_ops \<Rightarrow> APDU \<Rightarrow> u8 list res" where
  "to_bytes tb a =
     bind_res (tb_write tb (tb_new tb (5 + payload_size a)) 0 [cla a]) (\<lambda>(out, _).
     bind_res (tb_write tb out 1 [ins a]) (\<lambda>(out, _).
     bind_res (tb_write tb out 2 [p1 a]) (\<lambda>(out, _).
     bind_res (tb_write tb out 3 [p2 a]) (\<lambda>(out, _).
     bind_res (tb_write tb out 4 [of_nat (payload_size a)]) (\<lambda>(out, _).
       if payload_size a > 0 then
         bind_res (tb_write tb out 5 (take (unat (of_nat (payload_size a) :: u8)) (payload a)))
           (\<lambda>(out, _). Inr out)
       else Inr out)))))"

section \<open>frame_io\<close>

record frame_io =
  m_io :: hidpp_device
  m_seq :: u16
  m_offset :: u64
  m_buffer :: "u8 list"

text \<open>Upper-case hexadecimal with a minimal width of 2, as \<^verbatim>\<open>{0:2X}\<close> prints it.\<close>

fun hex_digits :: "nat \<Rightarrow> string" where
  "hex_digits n =
     (if n < 16 then [''0123456789ABCDEF'' ! n]
      else hex_digits (n div 16) @ [''0123456789ABCDEF'' ! (n mod 16)])"

declare hex_digits.simps [simp del]

definition fmt_2X :: "nat \<Rightarrow> string" where
  "fmt_2X n = (let ds = hex_digits n in replicate (2 - length ds) (CHR '' '') @ ds)"

text \<open>The three header fields of the frame in \<open>m_buffer\<close>.\<close>

definition parse_header :: "tb_ops \<Rightarrow> u8 list \<Rightarrow> (u16 \<times> u8 \<times> u16) res" where
  "parse_header tb b =
     bind_res (tb_num16 tb b 0) (\<lambda>channelId.
     bind_res (tb_at tb b 2) (\<lambda>commandTag.
     bind_res (tb_num16 tb b 3) (\<lambda>cseq. Inr (channelId, commandTag, cseq))))"

text \<open>The checks of the header, in the order of the code.\<close>

definition check_header :: "u16 \<Rightarrow> u16 \<times> u8 \<times> u16 \<Rightarrow> unit res" where
  "check_header seq h =
     (case h of (channelId, commandTag, cseq) \<Rightarrow>
        if channelId \<noteq> 0x0101 then
          Inl (Runtime_Error (''bad channel ID 0x'' @ fmt_2X (unat channelId)))
        else if commandTag \<noteq> 0x05 then
          Inl (Runtime_Error (''bad command tag 0x'' @ fmt_2X (unat commandTag)))
        else if cseq \<noteq> seq then Inl (Wrong_Seqno seq cseq)
        else Inr ())"

type_synonym ('a, 'f, 's) frame_op = "'f \<Rightarrow> 's \<Rightarrow> 'a res \<times> 'f \<times> 's"

text \<open>
  \<^verbatim>\<open>frame_io::read(out)\<close>: the returned count with the new contents of \<open>out\<close>.
\<close>

definition frame_read ::
    "'s env \<Rightarrow> u8 list \<Rightarrow> (u64 \<times> u8 list, 'z frame_io_scheme, 's) frame_op" where
  "frame_read env out fr s =
     (let tb = env_tb env in
      case hidpp_read (env_build env) tb (env_api env) (env_lib env) (m_buffer fr) 64 (m_io fr) s of
        (Inl e, io, s1) \<Rightarrow> (Inl e, fr\<lparr>m_io := io\<rparr>, s1)
      | (Inr (n, b), io, s1) \<Rightarrow>
          (let fr1 = fr\<lparr>m_io := io, m_buffer := b\<rparr> in
           if n \<noteq> 64 then (Inr (0, out), fr1, s1)
           else
             (case bind_res (parse_header tb b) (check_header (m_seq fr)) of
                Inl e \<Rightarrow> (Inl e, fr1, s1)
              | Inr _ \<Rightarrow>
                  (case bind_res (tb_take_range_from tb b 5)
                          (tb_write tb out (if m_seq fr = 0 then 0 else unat (m_offset fr - 5))) of
                     Inl e \<Rightarrow> (Inl e, fr1, s1)
                   | Inr (out', k) \<Rightarrow>
                       (Inr (of_nat k, out'),
                        fr1\<lparr>m_seq := m_seq fr + 1, m_offset := m_offset fr + 64\<rparr>, s1)))))"

text \<open>
  The loop of \<^verbatim>\<open>frame_io::write\<close>; the count the device reports as written is only logged.
\<close>

partial_function (option) write_loop ::
    "'s env \<Rightarrow> u8 list \<Rightarrow> u8 list \<Rightarrow> u16 \<Rightarrow> 'z frame_io_scheme \<Rightarrow> 's
      \<Rightarrow> (unit res \<times> 'z frame_io_scheme \<times> 's) option" where
  "write_loop env buffer chunk cseq fr s =
     (if buffer = [] then Some (Inr (), fr, s)
      else
        (case bind_res (tb_write (env_tb env) chunk 3 (tb_put16 (env_tb env) cseq)) (\<lambda>(chunk1, _).
              bind_res (tb_pop_front_to (env_tb env) buffer 5 chunk1) (\<lambda>(buffer', chunk2, n).
              bind_res (tb_take_range_to (env_tb env) chunk2 (5 + n)) (\<lambda>toUsb.
                Inr (buffer', chunk2, toUsb)))) of
           Inl e \<Rightarrow> Some (Inl e, fr, s)
         | Inr (buffer', chunk2, toUsb) \<Rightarrow>
             (case hidpp_write (env_build env) (env_tb env) (env_api env) toUsb (m_io fr) s of
                (Inl e, io, s1) \<Rightarrow> Some (Inl e, fr\<lparr>m_io := io\<rparr>, s1)
              | (Inr _, io, s1) \<Rightarrow>
                  write_loop env buffer' chunk2 (cseq + 1) (fr\<lparr>m_io := io\<rparr>) s1)))"

text \<open>The containers \<^verbatim>\<open>chunk\<close> and \<^verbatim>\<open>buffer\<close> before the loop.\<close>

definition write_setup :: "tb_ops \<Rightarrow> APDU \<Rightarrow> (u8 list \<times> u8 list \<times> nat) res" where
  "write_setup tb a =
     bind_res (to_bytes tb a) (\<lambda>apduData.
     bind_res (tb_write tb (tb_new tb 64) 0 (tb_put16 tb 0x0101)) (\<lambda>(chunk, _).
     bind_res (tb_write tb chunk 2 [0x05]) (\<lambda>(chunk, _).
     bind_res (tb_write tb (tb_new tb (length apduData + 2)) 0
                (tb_put16 tb (of_nat (length apduData)))) (\<lambda>(buffer, _).
     bind_res (tb_write tb buffer 2 apduData) (\<lambda>(buffer, _).
       Inr (buffer, chunk, length apduData))))))"

definition frame_write ::
    "'s env \<Rightarrow> APDU \<Rightarrow> 'z frame_io_scheme \<Rightarrow> 's \<Rightarrow> (nat res \<times> 'z frame_io_scheme \<times> 's) option" where
  "frame_write env a fr s =
     (case write_setup (env_tb env) a of
        Inl e \<Rightarrow> Some (Inl e, fr, s)
      | Inr (buffer, chunk, size_apdu) \<Rightarrow>
          map_option (\<lambda>(r, fr', s'). (bind_res r (\<lambda>_. Inr size_apdu), fr', s'))
            (write_loop env buffer chunk 0 fr s))"

definition frame_reset :: "'z frame_io_scheme \<Rightarrow> 'z frame_io_scheme" where
  "frame_reset fr = fr\<lparr>m_seq := 0\<rparr>"

section \<open>frame_io_apdu\<close>

record frame_io_apdu = frame_io +
  apdu_buf :: "u8 list"
  rn :: u64

text \<open>The constructors: the device is copied, the buffer has 64 bytes.\<close>

definition frame_io_apdu_new :: "tb_ops \<Rightarrow> hidpp_device \<Rightarrow> frame_io_apdu" where
  "frame_io_apdu_new tb dev =
     \<lparr>m_io = hidpp_copy dev, m_seq = 0, m_offset = 0, m_buffer = tb_new tb 64,
      apdu_buf = tb_new tb 2, rn = 0\<rparr>"

text \<open>\<^verbatim>\<open>while (rn < respLen) rn += read(buffer) + 5\<close>.\<close>

partial_function (option) read_loop ::
    "'s env \<Rightarrow> u16 \<Rightarrow> u8 list \<Rightarrow> frame_io_apdu \<Rightarrow> 's
      \<Rightarrow> (u8 list res \<times> frame_io_apdu \<times> 's) option" where
  "read_loop env respLen buffer fr s =
     (if rn fr < ucast respLen then
        (case frame_read env buffer fr s of
           (Inl e, fr1, s1) \<Rightarrow> Some (Inl e, fr1, s1)
         | (Inr (n, buffer'), fr1, s1) \<Rightarrow>
             read_loop env respLen buffer' (fr1\<lparr>rn := rn fr1 + (n + 5)\<rparr>) s1)
      else Some (Inr buffer, fr, s))"

text \<open>The data and the status code cut out of the reassembled response.\<close>

definition CODE_NO_STATUS_RESULT :: u16 where
  "CODE_NO_STATUS_RESULT = 0x9001"

definition cut_response :: "tb_ops \<Rightarrow> u16 \<Rightarrow> u8 list \<Rightarrow> (u8 list \<times> u16) res" where
  "cut_response tb respLen buffer =
     (if respLen \<ge> 2 then
        bind_res (tb_take_range tb buffer 2 (unat respLen - 2)) (\<lambda>resp.
        bind_res (tb_take_range tb buffer (unat respLen - 2) (unat respLen)) (\<lambda>respCode.
        bind_res (tb_num16 tb respCode 0) (\<lambda>status. Inr (resp, status))))
      else Inr ([], CODE_NO_STATUS_RESULT))"

text \<open>
  \<^verbatim>\<open>exchange\<close>: the response data and the value stored through \<^verbatim>\<open>statusCode\<close>. Only the
  normal return resets \<open>m_offset\<close> and \<open>rn\<close>.
\<close>

definition frame_exchange ::
    "'s env \<Rightarrow> APDU \<Rightarrow> frame_io_apdu \<Rightarrow> 's
      \<Rightarrow> ((u8 list \<times> u16) res \<times> frame_io_apdu \<times> 's) option" where
  "frame_exchange env a fr s =
     (if payload_size a > 255 then
        Some (Inl (Runtime_Error ''payload size can't be more than 255''), fr, s)
      else
        (case frame_write env a (frame_reset fr) s of
           None \<Rightarrow> None
         | Some (Inl e, fr1, s1) \<Rightarrow> Some (Inl e, fr1, s1)
         | Some (Inr _, fr1, s1) \<Rightarrow>
             (case frame_read env (tb_new (env_tb env) 255) fr1 s1 of
                (Inl e, fr2, s2) \<Rightarrow> Some (Inl e, fr2, s2)
              | (Inr (n, buffer), fr2, s2) \<Rightarrow>
                  (let fr3 = fr2\<lparr>rn := rn fr2 + (n + 5)\<rparr> in
                   case tb_num16 (env_tb env) buffer 0 of
                     Inl e \<Rightarrow> Some (Inl e, fr3, s2)
                   | Inr len16 \<Rightarrow>
                       (let respLen = len16 + 2 in
                        case read_loop env respLen buffer fr3 s2 of
                          None \<Rightarrow> None
                        | Some (Inl e, fr4, s3) \<Rightarrow> Some (Inl e, fr4, s3)
                        | Some (Inr buffer', fr4, s3) \<Rightarrow>
                            (case cut_response (env_tb env) respLen buffer' of
                               Inl e \<Rightarrow> Some (Inl e, fr4, s3)
                             | Inr r \<Rightarrow>
                                 Some (Inr r, fr4\<lparr>m_seq := 0, m_offset := 0, rn := 0,
                                                  apdu_buf := []\<rparr>, s3)))))))"

end
