(* ===== verification/Frame_Correct.thy ===== *)
theory Frame_Correct
  imports Frame_Io
begin

text \<open>
  The wire format as an abstract specification (the packets that carry a message, and the
  receiver that puts them together), and the theorems that relate \<^verbatim>\<open>frame_io\<close> and
  \<^verbatim>\<open>frame_io_apdu\<close> to it: what \<^verbatim>\<open>write\<close> sends for an APDU, what \<^verbatim>\<open>exchange\<close> makes of the
  packets of a response, for which response lengths that is the response, and what a failed
  exchange leaves behind.
\<close>

section \<open>Specification: packets\<close>

definition packet_header :: "u16 \<Rightarrow> u8 list" where
  "packet_header seq = be16 0x0101 @ [0x05] @ be16 seq"

lemma length_packet_header [simp]: "length (packet_header seq) = 5"
  by (simp add: packet_header_def)

text \<open>A message is its two length bytes and its bytes; a packet carries up to 59 of them.\<close>

definition message :: "u8 list \<Rightarrow> u8 list" where
  "message data = be16 (of_nat (length data)) @ data"

function wire_packets :: "u16 \<Rightarrow> u8 list \<Rightarrow> u8 list list" where
  "wire_packets seq bs =
     (if bs = [] then [] else (packet_header seq @ take 59 bs) # wire_packets (seq + 1) (drop 59 bs))"
  by pat_completeness auto
termination by (relation "measure (\<lambda>(seq, bs). length bs)") auto

declare wire_packets.simps [simp del]

lemma wire_packets_Nil [simp]: "wire_packets seq [] = []"
  by (simp add: wire_packets.simps)

text \<open>The receiver: checks the headers in sequence and concatenates what they carry.\<close>

fun join_packets :: "u16 \<Rightarrow> u8 list list \<Rightarrow> u8 list option" where
  "join_packets seq [] = Some []"
| "join_packets seq (p # ps) =
     (if length p \<le> 64 \<and> take 5 p = packet_header seq
      then map_option ((@) (drop 5 p)) (join_packets (seq + 1) ps) else None)"

definition receive_message :: "u8 list list \<Rightarrow> u8 list option" where
  "receive_message ps =
     (case join_packets 0 ps of
        Some (hi # lo # rest) \<Rightarrow>
          (if unat (of_be16 hi lo) \<le> length rest then Some (take (unat (of_be16 hi lo)) rest)
           else None)
      | _ \<Rightarrow> None)"

lemma join_wire_packets: "join_packets seq (wire_packets seq bs) = Some bs"
proof (induction seq bs rule: wire_packets.induct)
  case (1 seq bs)
  then show ?case by (subst wire_packets.simps) simp
qed

lemma receive_wire_packets:
  assumes "length data < 2 ^ 16"
  shows "receive_message (wire_packets 0 (message data)) = Some data"
proof -
  have "unat (of_nat (length data) :: u16) = length data"
    using assms by (simp add: take_bit_nat_eq_self unsigned_of_nat)
  then show ?thesis
    by (simp add: receive_message_def join_wire_packets message_def be16_def)
qed

lemma wire_packets_length:
  "p \<in> set (wire_packets seq bs) \<Longrightarrow> length p \<le> 64"
  by (induction seq bs rule: wire_packets.induct) (subst (asm) wire_packets.simps; auto split: if_splits)

lemma wire_packets_count: "length (wire_packets seq bs) = (length bs + 58) div 59"
proof (induction seq bs rule: wire_packets.induct)
  case (1 seq bs)
  show ?case
  proof (cases "bs = []")
    case True then show ?thesis by simp
  next
    case False
    then have "length (wire_packets seq bs) = Suc ((length (drop 59 bs) + 58) div 59)"
      using 1 by (subst wire_packets.simps) simp
    also have "\<dots> = (length bs + 58) div 59"
    proof (cases "length bs \<le> 59")
      case True
      then have "length (drop 59 bs) = 0" "length bs \<ge> 1" using False by (auto simp: Suc_le_eq)
      then show ?thesis using True by simp
    next
      case False
      then have "length bs + 58 = (length bs - 59 + 58) + 59" by simp
      then show ?thesis by simp
    qed
    finally show ?thesis .
  qed
qed

section \<open>to_bytes and write\<close>

text \<open>The APDU on the wire.\<close>

definition apdu_bytes :: "APDU \<Rightarrow> u8 list" where
  "apdu_bytes a =
     [cla a, ins a, p1 a, p2 a, of_nat (payload_size a)] @ take (payload_size a) (payload a)"

text \<open>The array has 255 elements and the size respects it.\<close>

definition apdu_wf :: "APDU \<Rightarrow> bool" where
  "apdu_wf a \<longleftrightarrow> length (payload a) = 255 \<and> payload_size a \<le> 255"

lemma overwrite_chain:
  assumes "length out = 5 + length pl"
  shows "overwrite (overwrite (overwrite (overwrite (overwrite (overwrite out 0 [a]) 1 [b]) 2 [c]) 3 [d])
      4 [e]) 5 pl = [a, b, c, d, e] @ pl"
  using assms by (simp add: overwrite_def numeral_eq_Suc take_Suc_conv_app_nth)

lemma to_bytes_correct:
  assumes "tb_laws tb" "apdu_wf a"
  shows "to_bytes tb a = Inr (apdu_bytes a)"
proof -
  note tb = tb_lawsD [OF assms(1)]
  have sz: "unat (of_nat (payload_size a) :: u8) = payload_size a"
    using assms(2) by (simp add: apdu_wf_def take_bit_nat_eq_self unsigned_of_nat)
  have len: "length (take (payload_size a) (payload a)) = payload_size a"
    using assms(2) by (simp add: apdu_wf_def)
  show ?thesis
  proof (cases "payload_size a = 0")
    case True
    then show ?thesis
      using overwrite_chain [of "tb_new tb 5" "[]"] by (simp add: to_bytes_def apdu_bytes_def tb)
  next
    case False
    then show ?thesis
      using len overwrite_chain [of "tb_new tb (5 + payload_size a)" "take (payload_size a) (payload a)"]
      by (simp add: to_bytes_def apdu_bytes_def tb sz)
  qed
qed

text \<open>Handing packets to the device one after the other, up to the first fault.\<close>

fun send_packets :: "'s env \<Rightarrow> u8 list list \<Rightarrow> (unit, 's) dev_op" where
  "send_packets env [] d s = (Inr (), d, s)"
| "send_packets env (p # ps) d s =
     (case hidpp_write (env_build env) (env_tb env) (env_api env) p d s of
        (Inl e, d1, s1) \<Rightarrow> (Inl e, d1, s1)
      | (Inr _, d1, s1) \<Rightarrow> send_packets env ps d1 s1)"

lemma chunk_packet:
  assumes "length chunk = 64" "take 3 chunk = be16 0x0101 @ [0x05]" "n \<le> 59" "n \<le> length bs"
  shows "take (5 + n) (overwrite (overwrite chunk 3 (be16 seq)) 5 (take n bs)) =
      packet_header seq @ take n bs"
    and "take 3 (overwrite (overwrite chunk 3 (be16 seq)) 5 (take n bs)) = be16 0x0101 @ [0x05]"
proof -
  let ?c1 = "overwrite chunk 3 (be16 seq)"
  have len: "length ?c1 = 64" "length (take n bs) = n" using assms by simp_all
  have "take 5 ?c1 = packet_header seq"
    using take_overwrite [of 3 "be16 seq" chunk] assms by (simp add: packet_header_def)
  then show "take (5 + n) (overwrite ?c1 5 (take n bs)) = packet_header seq @ take n bs"
    using take_overwrite [of 5 "take n bs" ?c1] assms(3) len by simp
  show "take 3 (overwrite ?c1 5 (take n bs)) = be16 0x0101 @ [0x05]"
    using assms len by (simp add: take_overwrite_less)
qed

lemma write_loop_sends:
  assumes tb: "tb_laws (env_tb env)"
    and "length chunk = 64" "take 3 chunk = be16 0x0101 @ [0x05]"
  shows "write_loop env bs chunk seq fr s =
    Some (case send_packets env (wire_packets seq bs) (m_io fr) s of
            (r, d, s') \<Rightarrow> (r, fr\<lparr>m_io := d\<rparr>, s'))"
  using assms(2,3)
proof (induction seq bs arbitrary: chunk fr s rule: wire_packets.induct)
  case (1 seq bs)
  show ?case
  proof (cases "bs = []")
    case True
    then show ?thesis by (subst write_loop.simps) simp
  next
    case False
    let ?n = "min (length bs) 59"
    let ?chunk1 = "overwrite chunk 3 (be16 seq)"
    let ?chunk2 = "overwrite ?chunk1 5 (take ?n bs)"
    let ?p = "packet_header seq @ take 59 bs"
    note laws = tb_lawsD [OF tb]
    have len1: "length ?chunk1 = 64" using 1 by simp
    have len2: "length ?chunk2 = 64" using len1 by simp
    have w: "tb_write (env_tb env) chunk 3 (be16 seq) = Inr (?chunk1, 2)"
      using 1 laws(2) [of 3 "be16 seq" chunk] by simp
    have pop: "tb_pop_front_to (env_tb env) bs 5 ?chunk1 = Inr (drop 59 bs, ?chunk2, ?n)"
      using laws(13) [of 5 ?chunk1 bs] len1 by (simp add: min_def)
    have head: "take (5 + ?n) ?chunk2 = ?p" "take 3 ?chunk2 = be16 0x0101 @ [0x05]"
      using chunk_packet [of chunk ?n bs seq] 1 by (simp_all add: min_def)
    have to_usb: "tb_take_range_to (env_tb env) ?chunk2 (5 + ?n) = Inr ?p"
      using laws(10) [of "5 + ?n" ?chunk2] len2 head(1) by simp
    note IH = "1.IH" [OF False len2 head(2)]
    obtain r io s1 where hw: "hidpp_write (env_build env) (env_tb env) (env_api env) ?p (m_io fr) s
        = (r, io, s1)" by (metis prod_cases3)
    show ?thesis
      using False hw IH [of "fr\<lparr>m_io := io\<rparr>" s1]
      by (subst write_loop.simps, subst wire_packets.simps)
        (simp add: laws(3) w pop to_usb split: sum.split)
  qed
qed

lemma write_setup_correct:
  assumes tb: "tb_laws tb" and "apdu_wf a"
  obtains chunk where "write_setup tb a = Inr (message (apdu_bytes a), chunk, 5 + payload_size a)"
    "length chunk = 64" "take 3 chunk = be16 0x0101 @ [0x05]"
proof -
  note laws = tb_lawsD [OF tb]
  have len: "length (apdu_bytes a) = 5 + payload_size a"
    using assms(2) by (simp add: apdu_bytes_def apdu_wf_def)
  let ?c = "overwrite (overwrite (tb_new tb 64) 0 (be16 0x0101)) 2 [0x05]"
  have "write_setup tb a = Inr (message (apdu_bytes a), ?c, 5 + payload_size a)"
    using assms len
    by (simp add: write_setup_def to_bytes_correct laws message_def overwrite_def)
  moreover have "length ?c = 64" "take 3 ?c = be16 0x0101 @ [0x05]"
    using laws(1) [of 64] by (simp_all add: overwrite_def be16_def)
  ultimately show thesis by (rule that)
qed

lemma frame_write_sends:
  assumes "tb_laws (env_tb env)" "apdu_wf a"
  shows "frame_write env a fr s =
    Some (case send_packets env (wire_packets 0 (message (apdu_bytes a))) (m_io fr) s of
            (r, d, s') \<Rightarrow> (bind_res r (\<lambda>_. Inr (5 + payload_size a)), fr\<lparr>m_io := d\<rparr>, s'))"
proof -
  obtain chunk where "write_setup (env_tb env) a =
      Inr (message (apdu_bytes a), chunk, 5 + payload_size a)"
    "length chunk = 64" "take 3 chunk = be16 0x0101 @ [0x05]"
    using write_setup_correct [OF assms] .
  then show ?thesis
    using write_loop_sends [OF assms(1), of chunk "message (apdu_bytes a)" 0 fr s]
    by (cases "send_packets env (wire_packets 0 (message (apdu_bytes a))) (m_io fr) s")
      (simp add: frame_write_def)
qed

section \<open>read and exchange\<close>

text \<open>
  How a packet arrives: with \<^verbatim>\<open>_MSC_VER\<close> a report is read with the byte of its id in front, which
  is dropped.
\<close>

definition report_len :: "'s env \<Rightarrow> nat" where
  "report_len env = (if b_msc (env_build env) then 65 else 64)"

definition next_report :: "'s env \<Rightarrow> ptr \<Rightarrow> 's \<Rightarrow> (int \<times> u8 list) res \<times> 's" where
  "next_report env h s = api_read (env_api env) h (report_len env) s"

definition arrives :: "'s env \<Rightarrow> u8 list \<Rightarrow> (int \<times> u8 list) res \<Rightarrow> bool" where
  "arrives env f r \<longleftrightarrow>
     (case r of
        Inl e \<Rightarrow> False
      | Inr (n, bs) \<Rightarrow> n = int (length bs) \<and>
          (if b_msc (env_build env) then bs \<noteq> [] \<and> tl bs = f else bs = f))"

text \<open>
  The device has the packets \<open>fs\<close> ready: each read of a report gives the next one, and no
  error is recorded.
\<close>

fun supplies :: "'s env \<Rightarrow> ptr \<Rightarrow> 's \<Rightarrow> u8 list list \<Rightarrow> bool" where
  "supplies env h s [] = True"
| "supplies env h s (f # fs) =
     (length f = 64 \<and>
      arrives env f (fst (next_report env h s)) \<and>
      api_error (env_api env) h (snd (next_report env h s)) = Inr None \<and>
      supplies env h (snd (next_report env h s)) fs)"

fun after_reads :: "'s env \<Rightarrow> ptr \<Rightarrow> 's \<Rightarrow> nat \<Rightarrow> 's" where
  "after_reads env h s 0 = s"
| "after_reads env h s (Suc n) = after_reads env h (snd (next_report env h s)) n"

lemma supplies_length: "supplies env h s fs \<Longrightarrow> f \<in> set fs \<Longrightarrow> length f = 64"
  by (induction env h s fs rule: supplies.induct) auto

text \<open>The packets carry the sequence numbers from \<open>k\<close> on.\<close>

fun headed :: "nat \<Rightarrow> u8 list list \<Rightarrow> bool" where
  "headed k [] = True"
| "headed k (f # fs) = (take 5 f = packet_header (of_nat k) \<and> headed (Suc k) fs)"

text \<open>Where \<^verbatim>\<open>read\<close> puts the packets: number \<open>k > 0\<close> at \<open>64 k - 5\<close>.\<close>

fun land :: "nat \<Rightarrow> u8 list list \<Rightarrow> u8 list \<Rightarrow> u8 list" where
  "land k [] b = b"
| "land k (f # fs) b = land (Suc k) fs (overwrite b (if k = 0 then 0 else 64 * k - 5) (drop 5 f))"

text \<open>A framer between two calls: unlocked device, 64-byte buffer, the counters at packet \<open>k\<close>.\<close>

definition framer_at :: "nat \<Rightarrow> frame_io_apdu \<Rightarrow> bool" where
  "framer_at k fr \<longleftrightarrow> \<not> m_dev_lock (m_io fr) \<and> length (m_buffer fr) = 64 \<and>
     m_seq fr = of_nat k \<and> m_offset fr = of_nat (64 * k) \<and> rn fr = of_nat (64 * k)"

lemma hidpp_read_supplied:
  assumes "tb_laws (env_tb env)" "\<not> m_dev_lock d" "length out = 64" "supplies env (m_dev d) s (f # fs)"
  shows "hidpp_read (env_build env) (env_tb env) (env_api env) (env_lib env) out 64 d s =
    (Inr (64, f), d, snd (next_report env (m_dev d) s))"
proof -
  have l: "length f = 64" and err: "api_error (env_api env) (m_dev d) (snd (next_report env (m_dev d) s)) = Inr None"
    using assms(4) by simp_all
  have out: "tb_write (env_tb env) out 0 f = Inr (f, 64)"
    using assms(3) l tb_lawsD(2) [OF assms(1), of 0 f out] by (simp add: overwrite_def)
  show ?thesis
  proof (cases "b_msc (env_build env)")
    case True
    then obtain id_byte s1 where rd: "api_read (env_api env) (m_dev d) 65 s = (Inr (65, id_byte # f), s1)"
      using assms(4) l by (cases "api_read (env_api env) (m_dev d) 65 s")
        (auto simp: arrives_def next_report_def report_len_def neq_Nil_conv split: sum.splits)
    have buf: "overwrite (replicate 65 0) 0 (id_byte # f) = id_byte # f"
      using l by (simp add: overwrite_def)
    have "tb_take_range (env_tb env) (id_byte # f) 1 65 = Inr f"
      using l tb_lawsD(8) [OF assms(1), of 1 65 "id_byte # f"] by simp
    then show ?thesis
      using True assms(2) rd err out buf
      by (simp add: hidpp_read_def lock_guard_def next_report_def report_len_def)
  next
    case False
    then obtain s1 where rd: "api_read (env_api env) (m_dev d) 64 s = (Inr (64, f), s1)"
      using assms(4) l by (cases "api_read (env_api env) (m_dev d) 64 s")
        (auto simp: arrives_def next_report_def report_len_def split: sum.splits)
    have "overwrite (replicate 64 0) 0 f = f" using l by (simp add: overwrite_def)
    then show ?thesis
      using False assms(2) rd err out
      by (simp add: hidpp_read_def lock_guard_def next_report_def report_len_def)
  qed
qed

lemma parse_packet:
  assumes "tb_laws tb" "length f = 64" "take 5 f = packet_header seq"
  shows "bind_res (parse_header tb f) (check_header seq) = Inr ()"
proof -
  have nth: "f ! i = packet_header seq ! i" if "i < 5" for i
    using that assms(2,3) by (metis length_packet_header nth_take)
  have "f ! 0 = 1" "f ! 1 = 1" "f ! 2 = 5"
    "f ! 3 = ucast (drop_bit 8 seq)" "f ! 4 = ucast seq"
    by (simp_all add: nth packet_header_def be16_def)
  moreover have "of_be16 1 1 = 0x0101" by (simp add: of_be16_def)
  ultimately show ?thesis
    using assms(2) by (simp add: parse_header_def check_header_def tb_lawsD [OF assms(1)])
qed

lemma frame_read_packet:
  assumes env: "tb_laws (env_tb env)" and "\<not> m_dev_lock (m_io fr)" "length (m_buffer fr) = 64"
    and sup: "supplies env (m_dev (m_io fr)) s (f # fs)"
    and hd: "take 5 f = packet_header (m_seq fr)"
    and pos: "pos = (if m_seq fr = 0 then 0 else unat (m_offset fr - 5))" "pos + 59 \<le> length out"
  shows "frame_read env out fr s =
    (Inr (59, overwrite out pos (drop 5 f)),
     fr\<lparr>m_buffer := f, m_seq := m_seq fr + 1, m_offset := m_offset fr + 64\<rparr>,
     snd (next_report env (m_dev (m_io fr)) s))"
proof -
  have tb: "tb_laws (env_tb env)" using env .
  have len: "length f = 64" using sup by simp
  have "hidpp_read (env_build env) (env_tb env) (env_api env) (env_lib env) (m_buffer fr) 64
      (m_io fr) s = (Inr (64, f), m_io fr, snd (next_report env (m_dev (m_io fr)) s))"
    using assms(1-4) by (rule hidpp_read_supplied)
  then show ?thesis
    using parse_packet [OF tb len hd] pos len tb_lawsD(2) [OF tb, of pos "drop 5 f" out]
    by (simp add: frame_read_def Let_def tb_lawsD(9) [OF tb] del: One_nat_def)
qed

lemma framer_pos:
  assumes "framer_at k fr" "k < 4"
  shows "(if m_seq fr = 0 then 0 else unat (m_offset fr - 5)) = (if k = 0 then 0 else 64 * k - 5)"
proof -
  have "k \<in> {0, 1, 2, 3}" using assms(2) by auto
  then show ?thesis using assms(1) by (auto simp: framer_at_def)
qed

lemma frame_read_at:
  assumes env: "tb_laws (env_tb env)" and fr: "framer_at k fr" "k < 4"
    and sup: "supplies env (m_dev (m_io fr)) s (f # fs)"
    and hd: "headed k (f # fs)" and out: "length out = 255"
  shows "frame_read env out fr s =
    (Inr (59, overwrite out (if k = 0 then 0 else 64 * k - 5) (drop 5 f)),
     fr\<lparr>m_buffer := f, m_seq := m_seq fr + 1, m_offset := m_offset fr + 64\<rparr>,
     snd (next_report env (m_dev (m_io fr)) s))"
    and "framer_at (Suc k)
      (fr\<lparr>m_buffer := f, m_seq := m_seq fr + 1, m_offset := m_offset fr + 64, rn := rn fr + (59 + 5)\<rparr>)"
proof -
  have "take 5 f = packet_header (m_seq fr)" using hd fr(1) by (simp add: framer_at_def)
  then show "frame_read env out fr s =
      (Inr (59, overwrite out (if k = 0 then 0 else 64 * k - 5) (drop 5 f)),
       fr\<lparr>m_buffer := f, m_seq := m_seq fr + 1, m_offset := m_offset fr + 64\<rparr>,
       snd (next_report env (m_dev (m_io fr)) s))"
    using fr out framer_pos [OF fr] by (intro frame_read_packet [OF env _ _ sup])
      (auto simp: framer_at_def)
  show "framer_at (Suc k)
      (fr\<lparr>m_buffer := f, m_seq := m_seq fr + 1, m_offset := m_offset fr + 64, rn := rn fr + (59 + 5)\<rparr>)"
    using fr(1) sup by (simp add: framer_at_def algebra_simps)
qed

lemma rn_bound:
  assumes "framer_at k fr" "k < 2 ^ 16"
  shows "rn fr < ucast respLen \<longleftrightarrow> 64 * k < unat (respLen :: u16)"
proof -
  have "unat (of_nat (64 * k) :: u64) = 64 * k"
    using assms(2) by (simp add: take_bit_nat_eq_self unsigned_of_nat del: of_nat_mult)
  moreover have "unat (ucast respLen :: u64) = unat respLen"
    using unat_u16_less [of respLen] by (simp add: unsigned_ucast_eq take_bit_nat_eq_self_iff)
  ultimately show ?thesis
    using assms(1) by (simp add: framer_at_def word_less_nat_alt del: of_nat_mult)
qed

lemma length_land: "length b = 255 \<Longrightarrow> (\<forall>f \<in> set fs. length f = 64) \<Longrightarrow> k + length fs \<le> 4
    \<Longrightarrow> length (land k fs b) = 255"
  by (induction k fs b rule: land.induct) auto

text \<open>
  The loop reads as long as 64 times the number of packets is below the length, and leaves the
  packets where \<open>land\<close> puts them.
\<close>

lemma read_loop_land:
  assumes "tb_laws (env_tb env)" "framer_at k fr" "k + length fs \<le> 4" "length buf = 255"
    and "supplies env (m_dev (m_io fr)) s fs" "headed k fs"
    and "unat respLen \<le> 64 * (k + length fs)"
    and "fs \<noteq> [] \<longrightarrow> 64 * (k + length fs - 1) < unat respLen"
  shows "\<exists>fr'. read_loop env respLen buf fr s =
      Some (Inr (land k fs buf), fr', after_reads env (m_dev (m_io fr)) s (length fs))
    \<and> framer_at (k + length fs) fr' \<and> m_io fr' = m_io fr"
  using assms
proof (induction fs arbitrary: k buf fr s)
  case Nil
  then have "\<not> rn fr < ucast respLen" by (subst rn_bound [of k]) auto
  then show ?case using Nil by (subst read_loop.simps) simp
next
  case (Cons f fs)
  let ?pos = "if k = 0 then 0 else 64 * k - 5"
  let ?fr = "fr\<lparr>m_buffer := f, m_seq := m_seq fr + 1, m_offset := m_offset fr + 64\<rparr>"
  let ?fr' = "?fr\<lparr>rn := rn fr + (59 + 5)\<rparr>"
  let ?s = "snd (next_report env (m_dev (m_io fr)) s)"
  have k: "k < 4" using Cons.prems(3) by simp
  have less: "rn fr < ucast respLen"
    using Cons.prems(8) k by (subst rn_bound [OF Cons.prems(2)]) auto
  note rd = frame_read_at [OF Cons.prems(1,2) k Cons.prems(5,6,4)]
  have len: "length f = 64" using Cons.prems(5) by simp
  have "\<exists>fr'. read_loop env respLen (overwrite buf ?pos (drop 5 f)) ?fr' ?s =
      Some (Inr (land (Suc k) fs (overwrite buf ?pos (drop 5 f))), fr',
        after_reads env (m_dev (m_io ?fr')) ?s (length fs))
    \<and> framer_at (Suc k + length fs) fr' \<and> m_io fr' = m_io ?fr'"
  proof (rule Cons.IH)
    show "length (overwrite buf ?pos (drop 5 f)) = 255"
      using len Cons.prems(4) k by simp
  qed (use Cons.prems rd(2) in auto)
  then show ?case
    using less rd(1) by (subst read_loop.simps) (auto simp: add.commute)
qed

text \<open>
  \<open>resp_len f\<close> is the length \<^verbatim>\<open>exchange\<close> computes from the first packet: two bytes more than
  the length it announces, in 16 bits.
\<close>

definition resp_len :: "u8 list \<Rightarrow> u16" where
  "resp_len f = of_be16 (f ! 5) (f ! 6) + 2"

lemma frame_exchange_reads:
  assumes env: "tb_laws (env_tb env)" and a: "apdu_wf a"
    and fr: "framer_at 0 (frame_reset fr)"
    and sent: "send_packets env (wire_packets 0 (message (apdu_bytes a))) (m_io fr) s =
      (Inr (), m_io fr, s1)"
    and sup: "supplies env (m_dev (m_io fr)) s1 (f # fs)" and hd: "headed 0 (f # fs)"
    and n: "length fs < 4" "unat (resp_len f) \<le> 64 * Suc (length fs)"
      "fs \<noteq> [] \<longrightarrow> 64 * length fs < unat (resp_len f)"
  shows "\<exists>fr'. frame_exchange env a fr s =
      (case cut_response (env_tb env) (resp_len f) (land 0 (f # fs) (tb_new (env_tb env) 255)) of
         Inl e \<Rightarrow> Some (Inl e, fr', after_reads env (m_dev (m_io fr)) s1 (Suc (length fs)))
       | Inr r \<Rightarrow> Some (Inr r, fr'\<lparr>m_seq := 0, m_offset := 0, rn := 0, apdu_buf := []\<rparr>,
                       after_reads env (m_dev (m_io fr)) s1 (Suc (length fs))))
    \<and> framer_at (Suc (length fs)) fr' \<and> m_io fr' = m_io fr"
proof -
  let ?fr = "frame_reset fr" and ?b = "tb_new (env_tb env) 255"
  have tb: "tb_laws (env_tb env)" using env .
  have wr: "frame_write env a ?fr s = Some (Inr (5 + payload_size a), ?fr, s1)"
    using frame_write_sends [OF tb a, of ?fr s] sent by (simp add: frame_reset_def)
  have len: "length ?b = 255" "length f = 64" using tb_lawsD(1) [OF tb] sup by auto
  have sup': "supplies env (m_dev (m_io ?fr)) s1 (f # fs)" using sup by (simp add: frame_reset_def)
  let ?b1 = "overwrite ?b 0 (drop 5 f)"
  let ?fr1 = "?fr\<lparr>m_buffer := f, m_seq := m_seq ?fr + 1, m_offset := m_offset ?fr + 64\<rparr>"
  let ?fr2 = "?fr1\<lparr>rn := rn ?fr + (59 + 5)\<rparr>"
  let ?s2 = "snd (next_report env (m_dev (m_io ?fr)) s1)"
  have rd: "frame_read env ?b ?fr s1 = (Inr (59, ?b1), ?fr1, ?s2)" and fr2: "framer_at 1 ?fr2"
    using frame_read_at [OF env fr _ sup' hd len(1)] by simp_all
  have b1: "length ?b1 = 255" using len by simp
  have num: "tb_num16 (env_tb env) ?b1 0 = Inr (of_be16 (f ! 5) (f ! 6))"
  proof -
    have "?b1 ! 0 = f ! 5" "?b1 ! 1 = f ! 6" using len by (simp_all add: nth_overwrite)
    then show ?thesis using b1 tb_lawsD(5) [OF tb, of 0 ?b1] by simp
  qed
  have "\<exists>fr'. read_loop env (resp_len f) ?b1 ?fr2 ?s2 =
      Some (Inr (land 1 fs ?b1), fr', after_reads env (m_dev (m_io ?fr2)) ?s2 (length fs))
    \<and> framer_at (1 + length fs) fr' \<and> m_io fr' = m_io ?fr2"
    using sup' hd n by (intro read_loop_land [OF env fr2 _ b1]) auto
  then obtain fr' where loop: "read_loop env (resp_len f) ?b1 ?fr2 ?s2 =
      Some (Inr (land 1 fs ?b1), fr', after_reads env (m_dev (m_io ?fr2)) ?s2 (length fs))"
    and fr': "framer_at (1 + length fs) fr'" "m_io fr' = m_io ?fr2" by blast
  have small: "\<not> payload_size a > 255" using a by (simp add: apdu_wf_def)
  have "frame_exchange env a fr s =
      (case cut_response (env_tb env) (resp_len f) (land 0 (f # fs) ?b) of
         Inl e \<Rightarrow> Some (Inl e, fr', after_reads env (m_dev (m_io fr)) s1 (Suc (length fs)))
       | Inr r \<Rightarrow> Some (Inr r, fr'\<lparr>m_seq := 0, m_offset := 0, rn := 0, apdu_buf := []\<rparr>,
                       after_reads env (m_dev (m_io fr)) s1 (Suc (length fs))))"
    using small wr rd num loop
    by (simp add: frame_exchange_def Let_def resp_len_def frame_reset_def split: sum.split)
  then show ?thesis using fr' by (auto simp: frame_reset_def)
qed

section \<open>The packets of a response\<close>

text \<open>The device answers with the data, the status word, and 64-byte packets padded at the end.\<close>

definition response :: "u8 list \<Rightarrow> u16 \<Rightarrow> u8 list" where
  "response data sw = message (data @ be16 sw)"

lemma nth_response: "2 \<le> i \<Longrightarrow> i < length data + 2 \<Longrightarrow> response data sw ! i = data ! (i - 2)"
  by (auto simp: response_def message_def nth_append)

definition pad64 :: "u8 \<Rightarrow> u8 list \<Rightarrow> u8 list" where
  "pad64 pad p = p @ replicate (64 - length p) pad"

definition response_packets :: "u8 \<Rightarrow> u8 list \<Rightarrow> u8 list list" where
  "response_packets pad stream = map (pad64 pad) (wire_packets 0 stream)"

lemma length_response [simp]: "length (response data sw) = length data + 4"
  by (simp add: response_def message_def)

lemma length_pad64 [simp]: "length p \<le> 64 \<Longrightarrow> length (pad64 pad p) = 64"
  by (simp add: pad64_def)

lemma response_packets_1:
  assumes "0 < length st" "length st \<le> 59"
  shows "response_packets pad st = [pad64 pad (packet_header 0 @ st)]"
  using assms by (simp add: response_packets_def wire_packets.simps)

lemma response_packets_2:
  assumes "59 < length st" "length st \<le> 118"
  shows "response_packets pad st =
    [packet_header 0 @ take 59 st, pad64 pad (packet_header 1 @ drop 59 st)]"
proof -
  have "wire_packets 0 st = [packet_header 0 @ take 59 st, packet_header 1 @ drop 59 st]"
    using assms by (subst wire_packets.simps, subst wire_packets.simps) (auto simp: min_def)
  then show ?thesis using assms by (simp add: response_packets_def pad64_def min_def)
qed

lemma response_packets_3:
  assumes "118 < length st" "length st \<le> 177"
  shows "response_packets pad st =
    [packet_header 0 @ take 59 st, packet_header 1 @ take 59 (drop 59 st),
     pad64 pad (packet_header 2 @ drop 118 st)]"
proof -
  have "wire_packets 0 st = [packet_header 0 @ take 59 st,
      packet_header 1 @ take 59 (drop 59 st), packet_header 2 @ drop 118 st]"
    using assms
    by (subst wire_packets.simps, subst wire_packets.simps, subst wire_packets.simps)
      (auto simp: min_def)
  then show ?thesis using assms by (simp add: response_packets_def pad64_def min_def)
qed

lemma resp_len_packet:
  assumes "length data < 2 ^ 16 - 4" "take 5 f = packet_header 0"
    and "take 2 (drop 5 f) = take 2 (response data sw)"
  shows "resp_len f = of_nat (length data + 4)" "unat (resp_len f) = length data + 4"
proof -
  have two: "take 2 (drop 5 f) = be16 (of_nat (length data + 2))"
    using assms(3) by (simp add: response_def message_def)
  have "f ! 5 = take 2 (drop 5 f) ! 0" "f ! 6 = take 2 (drop 5 f) ! 1"
    using arg_cong [OF two, of length] by (auto simp: min_def split: if_splits)
  then show "resp_len f = of_nat (length data + 4)"
    using two by (simp add: resp_len_def be16_def algebra_simps)
  then show "unat (resp_len f) = length data + 4"
    using assms(1) by (simp add: take_bit_nat_eq_self unsigned_of_nat del: of_nat_add)
qed

text \<open>What \<^verbatim>\<open>exchange\<close> cuts out of a buffer \<open>b\<close>.\<close>

lemma cut_response_buffer:
  assumes tb: "tb_laws tb" and "length b = 255" "4 \<le> n" "n \<le> 255" "unat respLen = n"
  shows "cut_response tb respLen b =
    Inr (take (n - 4) (drop 2 b), of_be16 (b ! (n - 2)) (b ! (n - 1)))"
proof -
  have "2 \<le> respLen" using assms by (simp add: word_le_nat_alt)
  moreover have "n - 2 - 2 = n - 4" "n - (n - 2) = 2" using assms(3) by auto
  moreover have "take 2 (drop (n - 2) b) ! 0 = b ! (n - 2)"
    "take 2 (drop (n - 2) b) ! 1 = b ! (n - 1)"
    using assms(2-4) by (auto simp: numeral_2_eq_2 Suc_diff_Suc)
  ultimately show ?thesis
    using assms(2-5)
    by (simp add: cut_response_def tb_lawsD [OF tb])
qed

lemma cut_response_exact:
  assumes tb: "tb_laws tb" and "length b = 255" "length data \<le> 251"
    and "unat respLen = length data + 4" "take (length data + 4) b = response data sw"
  shows "cut_response tb respLen b = Inr (data, sw)"
proof -
  let ?n = "length data + 4"
  have nth: "b ! i = response data sw ! i" if "i < ?n" for i
    using that assms(5) by (metis nth_take)
  have "take (?n - 4) (drop 2 b) = take (length data) (drop 2 (take ?n b))"
    by (simp add: drop_take)
  also have "\<dots> = data" unfolding assms(5) by (simp add: response_def message_def)
  finally have d: "take (?n - 4) (drop 2 b) = data" .
  have "of_be16 (b ! (?n - 2)) (b ! (?n - 1)) = sw"
    by (simp add: nth response_def message_def nth_append) (simp add: be16_def nth_append)
  then show ?thesis
    using d cut_response_buffer [OF tb assms(2), of ?n respLen] assms(3,4) by simp
qed

lemma land_1: "length b = 255 \<Longrightarrow> length f = 64 \<Longrightarrow> n \<le> 59 \<Longrightarrow>
    take n (land 0 [f] b) = take n (drop 5 f)"
  by (simp add: overwrite_def)

lemma land_2: "length b = 255 \<Longrightarrow> length f = 64 \<Longrightarrow> length g = 64 \<Longrightarrow>
    take 118 (land 0 [f, g] b) = drop 5 f @ drop 5 g"
  by (simp add: overwrite_def)

section \<open>Properties\<close>

text \<open>
  C2. \<^verbatim>\<open>frame_io::write\<close> sends an APDU as the packets of its message, in order, and nothing
  else; it returns the size of the APDU whatever counts the device reports, and the loop ends.
\<close>

theorem frame_write_correct:
  assumes "tb_laws (env_tb env)" "apdu_wf a"
  shows "frame_write env a fr s =
    Some (case send_packets env (wire_packets 0 (message (apdu_bytes a))) (m_io fr) s of
            (r, d, s') \<Rightarrow> (bind_res r (\<lambda>_. Inr (5 + payload_size a)), fr\<lparr>m_io := d\<rparr>, s'))"
  using assms by (rule frame_write_sends)

text \<open>
  A handle whose device takes reports and keeps them while \<open>ok\<close> holds: \<open>sent\<close> is what it was
  given so far. On Windows a report has the byte of its id in front of the packet.
\<close>

definition keeps_reports :: "'s env \<Rightarrow> ptr \<Rightarrow> ('s \<Rightarrow> bool) \<Rightarrow> ('s \<Rightarrow> u8 list list) \<Rightarrow> bool" where
  "keeps_reports env h ok sent \<longleftrightarrow>
     (\<forall>p s. ok s \<longrightarrow> (\<exists>n s'. api_write (env_api env) h p s = (Inr n, s') \<and> ok s' \<and>
        sent s' = sent s @ [p]))"

definition packet_of :: "build \<Rightarrow> u8 list \<Rightarrow> u8 list" where
  "packet_of b r = (if b_win32 b then tl r else r)"

text \<open>The application on the device reads the fields of an APDU from the message it received.\<close>

fun decode_apdu :: "u8 list \<Rightarrow> (u8 \<times> u8 \<times> u8 \<times> u8 \<times> u8 list) option" where
  "decode_apdu (c # i # p # q # n # data) =
     (if length data = unat n then Some (c, i, p, q, data) else None)"
| "decode_apdu _ = None"

lemma decode_apdu_bytes:
  assumes "apdu_wf a"
  shows "decode_apdu (apdu_bytes a) =
    Some (cla a, ins a, p1 a, p2 a, take (payload_size a) (payload a))"
  using assms by (simp add: apdu_bytes_def apdu_wf_def take_bit_nat_eq_self unsigned_of_nat)

lemma hidpp_write_kept:
  assumes "tb_laws (env_tb env)" "keeps_reports env (m_dev d) ok sent" "\<not> m_dev_lock d" "ok s"
  obtains n s' r where "hidpp_write (env_build env) (env_tb env) (env_api env) p d s = (Inr n, d, s')"
    "ok s'" "sent s' = sent s @ [r]" "packet_of (env_build env) r = p"
proof -
  note tb = tb_lawsD [OF assms(1)]
  let ?r = "if b_win32 (env_build env) then 0 # p else p"
  obtain n s' where "api_write (env_api env) (m_dev d) ?r s = (Inr n, s')" "ok s'"
    "sent s' = sent s @ [?r]"
    using assms(2,4) unfolding keeps_reports_def by blast
  moreover have "overwrite (overwrite (tb_new (env_tb env) (Suc (length p))) 0 [0]) (Suc 0) p = 0 # p"
    using tb(1) [of "Suc (length p)"] by (simp add: overwrite_def take_Suc)
  ultimately show thesis
    using assms(3)
    by (intro that [of "of_int n" s' ?r])
      (auto simp: hidpp_write_def hidpp_write_raw_def lock_guard_def tb packet_of_def)
qed

lemma send_packets_kept:
  assumes "tb_laws (env_tb env)" "keeps_reports env (m_dev d) ok sent" "\<not> m_dev_lock d" "ok s"
  shows "\<exists>s' rs. send_packets env ps d s = (Inr (), d, s') \<and> sent s' = sent s @ rs \<and>
    map (packet_of (env_build env)) rs = ps"
  using assms(4)
proof (induction ps arbitrary: s)
  case Nil
  show ?case by (auto intro: exI [of _ "[]"])
next
  case (Cons p ps)
  obtain n s1 r where 1: "hidpp_write (env_build env) (env_tb env) (env_api env) p d s = (Inr n, d, s1)"
    "ok s1" "sent s1 = sent s @ [r]" "packet_of (env_build env) r = p"
    using hidpp_write_kept [OF assms(1-3) Cons.prems] .
  obtain s2 rs where "send_packets env ps d s1 = (Inr (), d, s2)" "sent s2 = sent s1 @ rs"
    "map (packet_of (env_build env)) rs = ps"
    using Cons.IH [OF 1(2)] by blast
  then show ?case using 1 by (intro exI [of _ s2] exI [of _ "r # rs"]) simp
qed

text \<open>
  C3. What \<^verbatim>\<open>frame_io::write\<close> leaves with a device that keeps the reports it is given: a
  receiver that checks the headers and their sequence, joins what the packets carry, cuts it
  at the announced length and decodes the fields gets the class, the instruction, the
  parameters and the payload of the APDU back. The packets are at most 64 bytes long and as
  many as the bytes need at 59 a packet; the framer is left as it was.
\<close>

theorem frame_write_decodes:
  assumes "tb_laws (env_tb env)" "keeps_reports env (m_dev (m_io fr)) ok sent"
    and "\<not> m_dev_lock (m_io fr)" "ok s" "apdu_wf a"
  shows "\<exists>s' rs. frame_write env a fr s = Some (Inr (5 + payload_size a), fr, s') \<and>
    sent s' = sent s @ rs \<and>
    Option.bind (receive_message (map (packet_of (env_build env)) rs)) decode_apdu =
      Some (cla a, ins a, p1 a, p2 a, take (payload_size a) (payload a)) \<and>
    length rs = (payload_size a + 65) div 59 \<and>
    list_all (\<lambda>r. length (packet_of (env_build env) r) \<le> 64) rs"
proof -
  let ?ps = "wire_packets 0 (message (apdu_bytes a))"
  have len: "length (apdu_bytes a) = 5 + payload_size a" "length (apdu_bytes a) < 2 ^ 16"
    using assms(5) by (simp_all add: apdu_bytes_def apdu_wf_def)
  obtain s' rs where 1: "send_packets env ?ps (m_io fr) s = (Inr (), m_io fr, s')"
    "sent s' = sent s @ rs" and ps: "map (packet_of (env_build env)) rs = ?ps"
    using send_packets_kept [OF assms(1-4)] by blast
  have "length rs = (payload_size a + 65) div 59"
    using arg_cong [OF ps, of length] len(1) by (simp add: wire_packets_count message_def)
  moreover have "list_all (\<lambda>r. length (packet_of (env_build env) r) \<le> 64) rs"
    using wire_packets_length [of _ 0 "message (apdu_bytes a)"] unfolding ps [symmetric]
    by (auto simp: list_all_iff)
  ultimately show ?thesis
    using 1 frame_write_sends [OF assms(1,5), of fr s] receive_wire_packets [OF len(2)]
      decode_apdu_bytes [OF assms(5)]
    by (auto simp: ps)
qed

text \<open>The response as the buffer holds it, when one or two packets carry it.\<close>

lemma response_landed:
  assumes b: "length b = 255" and len: "length data \<le> 55 \<or> 61 \<le> length data \<and> length data \<le> 114"
  obtains f fs where "response_packets pad (response data sw) = f # fs" "headed 0 (f # fs)"
    "length fs < 4" "length data + 4 \<le> 64 * Suc (length fs)"
    "fs \<noteq> [] \<longrightarrow> 64 * length fs < length data + 4"
    "take 2 (drop 5 f) = take 2 (response data sw)"
    "take (length data + 4) (land 0 (f # fs) b) = response data sw"
proof (cases "length data \<le> 55")
  case True
  then have "response_packets pad (response data sw) = [pad64 pad (packet_header 0 @ response data sw)]"
    by (intro response_packets_1) auto
  then show thesis
    using True b
    by (intro that [of "pad64 pad (packet_header 0 @ response data sw)" "[]"])
      (auto simp: land_1 pad64_def simp del: land.simps)
next
  case False
  let ?st = "response data sw"
  let ?f = "packet_header 0 @ take 59 ?st" and ?g = "pad64 pad (packet_header 1 @ drop 59 ?st)"
  have ps: "response_packets pad ?st = [?f, ?g]"
    using False len by (intro response_packets_2) auto
  have l: "length ?f = 64" "length ?g = 64" using False len by (auto simp: min_def)
  have "take (length data + 4) (land 0 [?f, ?g] b) = take (length data + 4) (take 118 (land 0 [?f, ?g] b))"
    using len False by (simp add: min_def)
  also have "\<dots> = take (length data + 4)
      (take 59 ?st @ drop 59 ?st @ replicate (64 - (5 + (length data - 55))) pad)"
    unfolding land_2 [OF b l] using False by (simp add: pad64_def)
  also have "\<dots> = ?st" by (subst append_assoc [symmetric]) simp
  finally show thesis
    using ps False len by (intro that [of ?f "[?g]"]) (auto simp: pad64_def simp del: land.simps)
qed

lemma frame_exchange_ok:
  assumes env: "tb_laws (env_tb env)" and a: "apdu_wf a"
    and fr: "framer_at 0 (frame_reset fr)"
    and sent: "send_packets env (wire_packets 0 (message (apdu_bytes a))) (m_io fr) s =
      (Inr (), m_io fr, s1)"
    and sup: "supplies env (m_dev (m_io fr)) s1 (response_packets pad (response data sw))"
    and len: "length data \<le> 55 \<or> 61 \<le> length data \<and> length data \<le> 114"
  shows "\<exists>fr'. frame_exchange env a fr s =
      Some (Inr (data, sw), fr', after_reads env (m_dev (m_io fr)) s1
        (length (response_packets pad (response data sw))))
    \<and> framer_at 0 fr' \<and> m_io fr' = m_io fr"
proof -
  let ?b = "tb_new (env_tb env) 255"
  have tb: "tb_laws (env_tb env)" using env .
  have b: "length ?b = 255" by (rule tb_lawsD(1) [OF tb])
  from response_landed [OF b len, of pad sw] obtain f fs where
    ps: "response_packets pad (response data sw) = f # fs" and hd: "headed 0 (f # fs)"
    and n: "length fs < 4" "length data + 4 \<le> 64 * Suc (length fs)"
      "fs \<noteq> [] \<longrightarrow> 64 * length fs < length data + 4"
    and st: "take 2 (drop 5 f) = take 2 (response data sw)"
      "take (length data + 4) (land 0 (f # fs) ?b) = response data sw" .
  have f: "take 5 f = packet_header 0" using hd by simp
  have rl: "unat (resp_len f) = length data + 4"
    using resp_len_packet [OF _ f st(1)] len by auto
  have lens: "\<forall>g \<in> set (f # fs). length g = 64"
    using sup unfolding ps by (blast intro: supplies_length)
  have "length (land 0 (f # fs) ?b) = 255" using length_land [OF b lens, of 0] n(1) by simp
  then have cut: "cut_response (env_tb env) (resp_len f) (land 0 (f # fs) ?b) = Inr (data, sw)"
    using len rl st(2) by (intro cut_response_exact [OF tb]) auto
  show ?thesis
    using frame_exchange_reads [OF env a fr sent sup [unfolded ps] hd n(1)] n rl
    unfolding ps cut by (auto simp: framer_at_def)
qed

text \<open>The bytes the buffer holds when only the first 59 of the response arrived in it.\<close>

definition first_packet_only :: "u8 list \<Rightarrow> u8 list \<Rightarrow> u8 list" where
  "first_packet_only st b = take 59 st @ drop 59 b"

text \<open>The bytes when the third packet was put five places too far.\<close>

definition third_packet_late :: "u8 list \<Rightarrow> u8 list \<Rightarrow> u8 list" where
  "third_packet_late st b = take 118 st @ take 5 (drop 118 b) @ drop 118 st"

lemma supplies_prefix: "supplies env h s (fs @ gs) \<Longrightarrow> supplies env h s fs"
  by (induction env h s fs rule: supplies.induct) auto

lemma first_packet:
  assumes "59 < length st"
  obtains fs where "response_packets pad st = (packet_header 0 @ take 59 st) # fs"
    "fs \<noteq> []" "\<And>b. length b = 255 \<Longrightarrow> land 0 [packet_header 0 @ take 59 st] b = first_packet_only st b"
proof
  show "response_packets pad st = (packet_header 0 @ take 59 st) #
      map (pad64 pad) (wire_packets (0 + 1) (drop 59 st))"
    using assms unfolding response_packets_def
    by (subst wire_packets.simps) (auto simp: pad64_def min_def)
  show "map (pad64 pad) (wire_packets (0 + 1) (drop 59 st)) \<noteq> []"
    using assms by (subst wire_packets.simps) auto
  show "land 0 [packet_header 0 @ take 59 st] b = first_packet_only st b" if "length b = 255" for b
    using that assms by (simp add: first_packet_only_def overwrite_def min_def)
qed

text \<open>
  A response with 56 to 60 bytes of data needs two packets, but \<^verbatim>\<open>exchange\<close> reads only the
  first: it counts 64 bytes for a packet that carries 59.
\<close>

lemma frame_exchange_unread:
  assumes env: "tb_laws (env_tb env)" and a: "apdu_wf a"
    and fr: "framer_at 0 (frame_reset fr)"
    and sent: "send_packets env (wire_packets 0 (message (apdu_bytes a))) (m_io fr) s =
      (Inr (), m_io fr, s1)"
    and sup: "supplies env (m_dev (m_io fr)) s1 (response_packets pad (response data sw))"
    and len: "56 \<le> length data" "length data \<le> 60"
    and x: "x = first_packet_only (response data sw) (tb_new (env_tb env) 255)"
  shows "length (response_packets pad (response data sw)) = 2 \<and>
    (\<exists>fr'. frame_exchange env a fr s =
      Some (Inr (take (length data) (drop 2 x),
                 of_be16 (x ! (length data + 2)) (x ! (length data + 3))), fr',
            after_reads env (m_dev (m_io fr)) s1 1))"
proof -
  let ?st = "response data sw" and ?b = "tb_new (env_tb env) 255"
  let ?f = "packet_header 0 @ take 59 ?st"
  have tb: "tb_laws (env_tb env)" using env .
  have b: "length ?b = 255" by (rule tb_lawsD(1) [OF tb])
  have st: "59 < length ?st" "length ?st \<le> 118" using len by simp_all
  obtain fs where ps: "response_packets pad ?st = ?f # fs"
    and ld: "land 0 [?f] ?b = x"
    using first_packet [OF st(1)] b x by metis
  have sup1: "supplies env (m_dev (m_io fr)) s1 [?f]"
    using sup supplies_prefix [of env "m_dev (m_io fr)" s1 "[?f]" fs] unfolding ps by simp
  have hd: "headed 0 [?f]" by simp
  have rl: "unat (resp_len ?f) = length data + 4"
    using resp_len_packet(2) [of data ?f sw] len by simp
  have cut: "cut_response (env_tb env) (resp_len ?f) x =
      Inr (take (length data) (drop 2 x), of_be16 (x ! (length data + 2)) (x ! (length data + 3)))"
    using cut_response_buffer [OF tb, of x "length data + 4" "resp_len ?f"] rl len x b st
    by (simp add: first_packet_only_def numeral_3_eq_3)
  have "length (response_packets pad ?st) = 2" using response_packets_2 [OF st] by simp
  then show ?thesis
    using frame_exchange_reads [OF env a fr sent sup1 hd] rl len
    unfolding ld cut by auto
qed

text \<open>
  C1. When the device answers with a status word and at most 55, or 61 to 114, bytes of data,
  \<^verbatim>\<open>exchange\<close> returns exactly these, has read exactly the packets of the response and leaves
  the framer as it found it. With 56 to 60 bytes it reads one of the two packets, and what comes
  after the 59th byte of the response, the status word among it, is taken from the fresh buffer.
\<close>

theorem exchange_correct:
  assumes env: "tb_laws (env_tb env)" and a: "apdu_wf a"
    and fr: "framer_at 0 (frame_reset fr)"
    and sent: "send_packets env (wire_packets 0 (message (apdu_bytes a))) (m_io fr) s =
      (Inr (), m_io fr, s1)"
    and sup: "supplies env (m_dev (m_io fr)) s1 (response_packets pad (response data sw))"
    and len: "length data \<le> 114"
    and x: "x = first_packet_only (response data sw) (tb_new (env_tb env) 255)"
  shows "if length data \<le> 55 \<or> 61 \<le> length data
    then \<exists>fr'. frame_exchange env a fr s =
        Some (Inr (data, sw), fr', after_reads env (m_dev (m_io fr)) s1
          (length (response_packets pad (response data sw))))
      \<and> framer_at 0 fr' \<and> m_io fr' = m_io fr
    else length (response_packets pad (response data sw)) = 2 \<and>
      (\<exists>fr'. frame_exchange env a fr s =
        Some (Inr (take (length data) (drop 2 x),
                   of_be16 (x ! (length data + 2)) (x ! (length data + 3))), fr',
              after_reads env (m_dev (m_io fr)) s1 1))"
proof (cases "length data \<le> 55 \<or> 61 \<le> length data")
  case True
  then show ?thesis using frame_exchange_ok [OF env a fr sent sup] len by auto
next
  case False
  then show ?thesis using frame_exchange_unread [OF env a fr sent sup _ _ x] by auto
qed

section \<open>A scripted device\<close>

text \<open>
  A device for concrete runs: its state is the list of the packets it still has to deliver, it
  accepts every write. Together with the byte vector it instantiates the parameters.
\<close>

definition script_api :: "u8 list list hid_api" where
  "script_api = \<lparr>
     api_enumerate = (\<lambda>v p s. (Inr (if p = 0x1005
       then [calloc_dev_info\<lparr>di_vendor_id := 0x2c97, di_product_id := 0x1005\<rparr>] else []), s)),
     api_open = (\<lambda>v p sn s. (Inr (Some 0), s)),
     api_open_path = (\<lambda>p s. (Inr (Some 0), s)),
     api_set_nonblocking = (\<lambda>h b s. (Inr 0, s)),
     api_read = (\<lambda>h n s. case s of [] \<Rightarrow> (Inr (-1, []), []) | f # fs \<Rightarrow> (Inr (int (length f), f), fs)),
     api_write = (\<lambda>h d s. (Inr (int (length d)), s)),
     api_close = (\<lambda>h s. (Inr (), s)),
     api_error = (\<lambda>h s. Inr None),
     api_errno = (\<lambda>s. 0)\<rparr>"

definition script_env :: "u8 list list env" where
  "script_env = \<lparr>env_build = \<lparr>b_win32 = False, b_msc = False\<rparr>, env_tb = tb_vec,
     env_api = script_api, env_lib = \<lparr>narrow = (\<lambda>_. None), tl_strerror = (\<lambda>_. [])\<rparr>,
     env_sleep = (\<lambda>_ s. s)\<rparr>"

definition script_framer :: frame_io_apdu where
  "script_framer =
     (frame_io_apdu_new tb_vec (hidpp_device_ids 0x2c97 0x1005))
     \<lparr>m_io := (hidpp_device_ids 0x2c97 0x1005)\<lparr>m_dev := Some 0\<rparr>\<rparr>"

definition version_apdu :: APDU where
  "version_apdu = \<lparr>cla = 0xe0, ins = 1, p1 = 0, p2 = 0, payload_size = 0, payload = replicate 255 0\<rparr>"

lemma script_env_laws: "tb_laws (env_tb script_env)"
  by (simp add: script_env_def tb_vec_laws)

lemma version_apdu_wf: "apdu_wf version_apdu"
  by (simp add: apdu_wf_def version_apdu_def)

lemma script_framer_at: "framer_at 0 (frame_reset script_framer)"
  by (simp add: framer_at_def frame_reset_def script_framer_def frame_io_apdu_new_def
      hidpp_device_ids_def tb_vec_def)

lemma script_dev [simp]: "\<not> m_dev_lock (m_io script_framer)"
  by (simp add: script_framer_def hidpp_device_ids_def)

lemma script_sends: "\<not> m_dev_lock d \<Longrightarrow> send_packets script_env ps d s = (Inr (), d, s)"
proof (induction ps)
  case (Cons p ps)
  then show ?case
    by (simp add: script_env_def script_api_def hidpp_write_def hidpp_write_raw_def lock_guard_def)
qed simp

lemma script_env_facts:
  "next_report script_env h (f # fs) = (Inr (int (length f), f), fs)"
  "arrives script_env f (Inr (k, g)) \<longleftrightarrow> k = int (length g) \<and> g = f"
  "api_error (env_api script_env) h s = Inr None"
  by (auto simp: next_report_def arrives_def script_env_def script_api_def)

lemma script_supplies: "list_all (\<lambda>f. length f = 64) fs \<Longrightarrow> supplies script_env h (fs @ gs) fs"
  by (induction fs) (simp_all add: script_env_facts)

lemma script_after_reads: "after_reads script_env h (fs @ gs) (length fs) = gs"
  by (induction fs) (simp_all add: script_env_facts)

lemma response_packets_64: "list_all (\<lambda>f. length f = 64) (response_packets pad st)"
  using wire_packets_length by (auto simp: response_packets_def list_all_iff)

theorem frame_write_correct_witness:
  "frame_write script_env version_apdu script_framer [] =
    Some (case send_packets script_env (wire_packets 0 (message (apdu_bytes version_apdu)))
            (m_io script_framer) [] of
            (r, d, s') \<Rightarrow> (bind_res r (\<lambda>_. Inr (5 + payload_size version_apdu)), script_framer\<lparr>m_io := d\<rparr>, s'))"
  by (rule frame_write_correct [OF script_env_laws version_apdu_wf])

lemma script_supplies_all:
  "supplies script_env h (response_packets pad st) (response_packets pad st)"
  using script_supplies [OF response_packets_64, where gs = "[]"] by simp

lemma script_buffer: "tb_new (env_tb script_env) 255 = replicate 255 0"
  by (simp add: script_env_def tb_vec_def)

theorem exchange_correct_witness:
  "\<exists>fr'. frame_exchange script_env version_apdu script_framer
      (response_packets 0 (response [1, 0, 2] 0x9000)) =
    Some (Inr ([1, 0, 2], 0x9000), fr',
      after_reads script_env (m_dev (m_io script_framer)) (response_packets 0 (response [1, 0, 2] 0x9000))
        (length (response_packets 0 (response [1, 0, 2] 0x9000))))
    \<and> framer_at 0 fr' \<and> m_io fr' = m_io script_framer"
  using exchange_correct [OF script_env_laws version_apdu_wf script_framer_at
      script_sends [OF script_dev] script_supplies_all _ refl, where data = "[1, 0, 2]" and pad = "0" and sw = "0x9000"]
  by simp

text \<open>The scripted device that also keeps what it is given.\<close>

definition keeping_env :: "u8 list list env" where
  "keeping_env = script_env\<lparr>env_api := script_api\<lparr>api_write := (\<lambda>h d s. (Inr (int (length d)), s @ [d]))\<rparr>\<rparr>"

theorem frame_write_decodes_witness:
  "\<exists>s' rs. frame_write keeping_env version_apdu script_framer [] = Some (Inr 5, script_framer, s') \<and>
    s' = rs \<and> length rs = 1 \<and>
    Option.bind (receive_message rs) decode_apdu = Some (0xe0, 1, 0, 0, [])"
proof -
  have "keeps_reports keeping_env (m_dev (m_io script_framer)) (\<lambda>_. True) id"
    by (simp add: keeps_reports_def keeping_env_def)
  moreover have "tb_laws (env_tb keeping_env)" using script_env_laws by (simp add: keeping_env_def)
  moreover have "packet_of (env_build keeping_env) = (\<lambda>r. r)"
    by (simp add: fun_eq_iff packet_of_def keeping_env_def script_env_def)
  ultimately show ?thesis
    using frame_write_decodes [OF _ _ script_dev _ version_apdu_wf, of keeping_env "\<lambda>_. True" id "[]"]
    by (auto simp: version_apdu_def)
qed

section \<open>Responses that are not put together\<close>

text \<open>
  C29. When the report after the writes is not a full packet (a short one, or a failed read for
  which no error is recorded), \<^verbatim>\<open>read\<close> returns 0 and stores nothing, and \<^verbatim>\<open>exchange\<close> does not
  test for it: it takes the length of the response from the fresh buffer, 0 when that is
  filled with zeros, reads no further and cuts its result out of it, from offset 2 to 0. What
  comes out is what the container gives for that range with the status 0, or what it throws; in
  that case \<open>rn\<close> stays 5.
\<close>

theorem exchange_short_read:
  assumes env: "tb_laws (env_tb env)" and a: "apdu_wf a"
    and fr: "framer_at 0 (frame_reset fr)"
    and sent: "send_packets env (wire_packets 0 (message (apdu_bytes a))) (m_io fr) s =
      (Inr (), m_io fr, s1)"
    and short: "next_report env (m_dev (m_io fr)) s1 = (Inr (n, bs), s2)"
      "-1 \<le> n" "n < int (report_len env)" "length bs \<le> report_len env"
    and quiet: "api_error (env_api env) (m_dev (m_io fr)) s2 = Inr None"
    and fresh: "tb_new (env_tb env) 255 = replicate 255 0"
  shows "\<exists>fr'. frame_exchange env a fr s =
      Some (bind_res (tb_take_range (env_tb env) (replicate 255 0) 2 0) (\<lambda>resp. Inr (resp, 0)), fr', s2)
    \<and> rn fr' = (if isl (tb_take_range (env_tb env) (replicate 255 0) 2 0) then 5 else 0)"
proof -
  let ?fr = "frame_reset fr" and ?b = "replicate 255 0 :: u8 list"
  let ?m = "if b_msc (env_build env) then n - 1 else n"
  note tb = tb_lawsD [OF env]
  have wr: "frame_write env a ?fr s = Some (Inr (5 + payload_size a), ?fr, s1)"
    using frame_write_sends [OF env a, of ?fr s] sent by (simp add: frame_reset_def)
  have ne: "(of_int ?m :: u64) \<noteq> 64"
  proof (cases "0 \<le> ?m")
    case True
    then have "uint (of_int ?m :: u64) = ?m"
      using short(3) by (subst uint_word_of_int_eq) (auto simp: take_bit_int_eq_self report_len_def split: if_splits)
    then show ?thesis using short(3) by (auto simp: report_len_def split: if_splits)
  next
    case False
    then have "?m = -1 \<or> ?m = -2" using short(2) by (auto split: if_splits)
    then have "(of_int ?m :: u64) \<in> {-1, -2}" by fastforce
    moreover have "(64 :: u64) \<notin> {-1, -2}" by simp
    ultimately show ?thesis by metis
  qed
  obtain out where rd: "hidpp_read (env_build env) (env_tb env) (env_api env) (env_lib env)
      (m_buffer ?fr) 64 (m_io ?fr) s1 = (Inr (of_int ?m, out), m_io ?fr, s2)"
  proof -
    have unl: "\<not> m_dev_lock (m_io ?fr)" "length (m_buffer ?fr) = 64" "m_io ?fr = m_io fr"
      using fr by (simp_all add: framer_at_def frame_reset_def)
    show thesis
    proof (cases "b_msc (env_build env)")
      case True
      then show ?thesis
        using that unl short quiet
        by (auto simp: hidpp_read_def lock_guard_def next_report_def report_len_def tb)
    next
      case False
      then show ?thesis
        using that unl short quiet
        by (auto simp: hidpp_read_def lock_guard_def next_report_def report_len_def tb)
    qed
  qed
  have fread: "frame_read env ?b ?fr s1 = (Inr (0, ?b), ?fr\<lparr>m_buffer := out\<rparr>, s2)"
    using rd ne by (simp add: frame_read_def Let_def)
  have num: "tb_num16 (env_tb env) ?b 0 = Inr 0" by (simp add: tb of_be16_def)
  have rn0: "rn fr = 0" using fr by (simp add: framer_at_def frame_reset_def)
  have loop: "read_loop env 2 ?b f s2 = Some (Inr ?b, f, s2)" if "rn f = 5" for f
    using that by (subst read_loop.simps) (simp add: word_less_nat_alt)
  have cut: "cut_response (env_tb env) 2 ?b =
      bind_res (tb_take_range (env_tb env) ?b 2 0) (\<lambda>resp. Inr (resp, 0))"
    by (simp add: cut_response_def tb of_be16_def)
  show ?thesis
    using a wr fread num loop cut fresh rn0
    by (cases "tb_take_range (env_tb env) ?b 2 0")
      (simp_all add: frame_exchange_def Let_def apdu_wf_def frame_reset_def)
qed

theorem exchange_short_read_witness:
  "\<exists>fr'. frame_exchange script_env version_apdu script_framer [[1, 2, 3]] = Some (Inl Out_Of_Range, fr', [])
    \<and> rn fr' = 5"
proof -
  have "next_report script_env (m_dev (m_io script_framer)) [[1, 2, 3]] = (Inr (3, [1, 2, 3]), [])"
    by (simp add: script_env_facts)
  moreover have "tb_take_range (env_tb script_env) (replicate 255 0) 2 0 = Inl Out_Of_Range"
    by (simp add: script_env_def tb_vec_def)
  ultimately show ?thesis
    using exchange_short_read [OF script_env_laws version_apdu_wf script_framer_at script_sends [OF script_dev],
        of "[[1, 2, 3]]" 3 "[1, 2, 3]" "[]"] script_buffer
    by (simp add: script_env_facts) (simp add: report_len_def script_env_def)
qed

text \<open>
  A response with 125 to 173 bytes of data comes in three packets; the third one is written
  five bytes too far, since \<open>m_offset\<close> advances by 64 for every 59 bytes stored: five bytes of
  the returned data are not from the device, the rest is shifted, and the reported status is
  two bytes of the data.
\<close>

theorem exchange_three_packets:
  assumes env: "tb_laws (env_tb env)" and a: "apdu_wf a"
    and fr: "framer_at 0 (frame_reset fr)"
    and sent: "send_packets env (wire_packets 0 (message (apdu_bytes a))) (m_io fr) s =
      (Inr (), m_io fr, s1)"
    and sup: "supplies env (m_dev (m_io fr)) s1 (response_packets pad (response data sw))"
    and len: "125 \<le> length data" "length data \<le> 173"
  shows "\<exists>fr'. frame_exchange env a fr s =
      Some (Inr (take (length data) (drop 2 (third_packet_late (response data sw) (tb_new (env_tb env) 255))),
                 of_be16 (data ! (length data - 5)) (data ! (length data - 4))), fr',
            after_reads env (m_dev (m_io fr)) s1 3)"
proof -
  let ?st = "response data sw" and ?b = "tb_new (env_tb env) 255"
  let ?f = "packet_header 0 @ take 59 ?st" and ?g = "packet_header 1 @ take 59 (drop 59 ?st)"
    and ?h = "pad64 pad (packet_header 2 @ drop 118 ?st)"
  let ?x = "third_packet_late ?st ?b"
  have tb: "tb_laws (env_tb env)" using env .
  have b: "length ?b = 255" by (rule tb_lawsD(1) [OF tb])
  have ps: "response_packets pad ?st = [?f, ?g, ?h]" using len by (intro response_packets_3) auto
  have hd: "headed 0 [?f, ?g, ?h]" by (simp add: pad64_def)
  have rl: "unat (resp_len ?f) = length data + 4"
    using resp_len_packet(2) [of data ?f sw] len by simp
  define y where "y = land 0 [?f, ?g, ?h] ?b"
  have y: "length y = 255"
    unfolding y_def using b len by (intro length_land) auto
  have "take 118 ?st = take 59 ?st @ take 59 (drop 59 ?st)" using take_add [of 59 59 ?st] by simp
  then have xy: "take (length data + 9) y = ?x"
    using b len by (auto simp: y_def overwrite_def third_packet_late_def pad64_def min_def)
  have nth: "y ! (length data + 2) = data ! (length data - 5)"
    "y ! (length data + 3) = data ! (length data - 4)"
  proof -
    have "y ! i = ?st ! (i - 5)" if "123 \<le> i" "i < length data + 9" for i
    proof -
      have "y ! i = ?x ! i" using that(2) xy by (metis nth_take)
      moreover have "\<not> i - 118 < 5" "118 + (i - 118 - 5) = i - 5" using that(1) by auto
      ultimately show ?thesis using that b len by (simp add: third_packet_late_def nth_append)
    qed
    then show "y ! (length data + 2) = data ! (length data - 5)"
      "y ! (length data + 3) = data ! (length data - 4)"
      using len nth_response [of "length data - 3" data sw] nth_response [of "length data - 2" data sw]
      by simp_all
  qed
  have "take (length data) (drop 2 y) = take (length data) (drop 2 ?x)"
    unfolding xy [symmetric] by (simp add: drop_take)
  then have cut: "cut_response (env_tb env) (resp_len ?f) y =
      Inr (take (length data) (drop 2 ?x),
           of_be16 (data ! (length data - 5)) (data ! (length data - 4)))"
    using cut_response_buffer [OF tb y, of "length data + 4" "resp_len ?f"] rl len nth
    by (simp add: numeral_3_eq_3)
  show ?thesis
    using frame_exchange_reads [OF env a fr sent sup [unfolded ps] hd] rl len
    unfolding y_def [symmetric] cut by (auto simp: numeral_3_eq_3)
qed

section \<open>What a failed exchange leaves behind\<close>

lemma parse_bad_sequence:
  assumes "tb_laws tb" "length f = 64" "take 5 f = packet_header q" "q \<noteq> seq"
  shows "bind_res (parse_header tb f) (check_header seq) = Inl (Wrong_Seqno seq q)"
proof -
  have "bind_res (parse_header tb f) (check_header q) = Inr ()"
    using assms(1-3) by (rule parse_packet)
  then show ?thesis
    using assms(4) by (cases "parse_header tb f") (auto simp: check_header_def split: if_splits)
qed

text \<open>
  When the second packet of a response carries another sequence number than 1,
  \<^verbatim>\<open>exchange\<close> throws \<^verbatim>\<open>wrong_seqno_error\<close> with the expected and the given number, and leaves
  \<open>m_offset\<close> and \<open>rn\<close> as they are after one packet.
\<close>

theorem exchange_bad_sequence:
  assumes env: "tb_laws (env_tb env)" and a: "apdu_wf a"
    and fr: "framer_at 0 (frame_reset fr)"
    and sent: "send_packets env (wire_packets 0 (message (apdu_bytes a))) (m_io fr) s =
      (Inr (), m_io fr, s1)"
    and sup: "supplies env (m_dev (m_io fr)) s1 [f, g]"
    and hd: "take 5 f = packet_header 0" "take 5 g = packet_header q" "q \<noteq> 1"
    and more: "64 < unat (resp_len f)"
  shows "\<exists>fr'. frame_exchange env a fr s =
      Some (Inl (Wrong_Seqno 1 q), fr', after_reads env (m_dev (m_io fr)) s1 2) \<and>
      framer_at 1 fr' \<and> m_io fr' = m_io fr"
proof -
  let ?fr = "frame_reset fr" and ?b = "tb_new (env_tb env) 255"
  let ?b1 = "overwrite ?b 0 (drop 5 f)"
  let ?fr1 = "?fr\<lparr>m_buffer := f, m_seq := m_seq ?fr + 1, m_offset := m_offset ?fr + 64\<rparr>"
  let ?fr2 = "?fr1\<lparr>rn := rn ?fr + (59 + 5)\<rparr>"
  let ?s2 = "snd (next_report env (m_dev (m_io ?fr)) s1)"
  let ?s3 = "snd (next_report env (m_dev (m_io ?fr)) ?s2)"
  have tb: "tb_laws (env_tb env)" using env .
  have wr: "frame_write env a ?fr s = Some (Inr (5 + payload_size a), ?fr, s1)"
    using frame_write_sends [OF tb a, of ?fr s] sent by (simp add: frame_reset_def)
  have len: "length ?b = 255" "length f = 64" "length g = 64"
    using tb_lawsD(1) [OF tb] sup by auto
  have sup': "supplies env (m_dev (m_io ?fr)) s1 [f, g]" using sup by (simp add: frame_reset_def)
  have hd0: "headed 0 [f]" using hd(1) by simp
  have supf: "supplies env (m_dev (m_io ?fr)) s1 [f]"
    and supg: "supplies env (m_dev (m_io ?fr2)) ?s2 [g]" using sup' by auto
  have rd: "frame_read env ?b ?fr s1 = (Inr (59, ?b1), ?fr1, ?s2)" and fr2: "framer_at 1 ?fr2"
    using frame_read_at [OF env fr _ supf hd0 len(1)] by simp_all
  have num: "tb_num16 (env_tb env) ?b1 0 = Inr (of_be16 (f ! 5) (f ! 6))"
  proof -
    have "?b1 ! 0 = f ! 5" "?b1 ! 1 = f ! 6" using len by (simp_all add: nth_overwrite)
    then show ?thesis using len tb_lawsD(5) [OF tb, of 0 ?b1] by simp
  qed
  have unl: "\<not> m_dev_lock (m_io ?fr2)" "length (m_buffer ?fr2) = 64"
    using fr2 by (simp_all add: framer_at_def)
  have "frame_read env ?b1 ?fr2 ?s2 = (Inl (Wrong_Seqno 1 q), ?fr2\<lparr>m_buffer := g\<rparr>, ?s3)"
    using hidpp_read_supplied [OF env unl supg] fr2
      parse_bad_sequence [OF tb len(3) hd(2), of 1] hd(3)
    by (simp add: frame_read_def Let_def framer_at_def)
  moreover have "rn ?fr2 < ucast (resp_len f)"
    using more by (subst rn_bound [OF fr2]) auto
  ultimately have loop: "read_loop env (resp_len f) ?b1 ?fr2 ?s2 =
      Some (Inl (Wrong_Seqno 1 q), ?fr2\<lparr>m_buffer := g\<rparr>, ?s3)"
    by (subst read_loop.simps) simp
  have "frame_exchange env a fr s =
      Some (Inl (Wrong_Seqno 1 q), ?fr2\<lparr>m_buffer := g\<rparr>, ?s3)"
    using a wr rd num loop
    by (simp add: frame_exchange_def Let_def resp_len_def apdu_wf_def)
  moreover have "framer_at 1 (?fr2\<lparr>m_buffer := g\<rparr>)"
    using fr2 len by (simp add: framer_at_def)
  moreover have "?s3 = after_reads env (m_dev (m_io fr)) s1 2"
    by (simp add: frame_reset_def numeral_2_eq_2)
  moreover have "m_io (?fr2\<lparr>m_buffer := g\<rparr>) = m_io fr" by (simp add: frame_reset_def)
  ultimately show ?thesis by metis
qed

text \<open>
  From that state an exchange, though it resets the sequence number, stops after the first
  packet of a two-packet response.
\<close>

lemma frame_exchange_stale:
  assumes env: "tb_laws (env_tb env)" and a: "apdu_wf a"
    and fr: "framer_at 1 fr"
    and sent: "send_packets env (wire_packets 0 (message (apdu_bytes a))) (m_io fr) s =
      (Inr (), m_io fr, s1)"
    and sup: "supplies env (m_dev (m_io fr)) s1 (response_packets pad (response data sw))"
    and len: "56 \<le> length data" "length data \<le> 114"
    and x: "x = first_packet_only (response data sw) (tb_new (env_tb env) 255)"
  shows "\<exists>fr'. frame_exchange env a fr s =
      Some (Inr (take (length data) (drop 2 x),
                 of_be16 (x ! (length data + 2)) (x ! (length data + 3))), fr',
            after_reads env (m_dev (m_io fr)) s1 1)"
proof -
  let ?st = "response data sw" and ?b = "tb_new (env_tb env) 255"
  let ?f = "packet_header 0 @ take 59 ?st"
  let ?fr = "frame_reset fr"
  let ?fr1 = "?fr\<lparr>m_buffer := ?f, m_seq := m_seq ?fr + 1, m_offset := m_offset ?fr + 64\<rparr>"
  let ?fr2 = "?fr1\<lparr>rn := rn ?fr + (59 + 5)\<rparr>"
  let ?s2 = "snd (next_report env (m_dev (m_io ?fr)) s1)"
  have tb: "tb_laws (env_tb env)" using env .
  have b: "length ?b = 255" by (rule tb_lawsD(1) [OF tb])
  have st: "59 < length ?st" "length ?st \<le> 118" using len by simp_all
  obtain fs where ps: "response_packets pad ?st = ?f # fs" and ld: "land 0 [?f] ?b = x"
    using first_packet [OF st(1)] b x by metis
  have wr: "frame_write env a ?fr s = Some (Inr (5 + payload_size a), ?fr, s1)"
    using frame_write_sends [OF tb a, of ?fr s] sent by (simp add: frame_reset_def)
  have sup1: "supplies env (m_dev (m_io ?fr)) s1 [?f]"
    using sup supplies_prefix [of env "m_dev (m_io fr)" s1 "[?f]" fs] unfolding ps
    by (simp add: frame_reset_def)
  have "frame_read env ?b ?fr s1 = (Inr (59, overwrite ?b 0 (drop 5 ?f)), ?fr1, ?s2)"
    using fr b by (intro frame_read_packet [OF env _ _ sup1]) (auto simp: framer_at_def frame_reset_def)
  then have rd: "frame_read env ?b ?fr s1 = (Inr (59, x), ?fr1, ?s2)"
    unfolding ld [symmetric] by simp
  have rl: "unat (resp_len ?f) = length data + 4"
    using resp_len_packet(2) [of data ?f sw] len by simp
  have x255: "length x = 255" using x b st by (simp add: first_packet_only_def)
  have num: "tb_num16 (env_tb env) x 0 = Inr (of_be16 (?f ! 5) (?f ! 6))"
  proof -
    have "x ! 0 = ?f ! 5" "x ! 1 = ?f ! 6"
      using st b unfolding x first_packet_only_def by (simp_all add: nth_append)
    then show ?thesis using x255 tb_lawsD(5) [OF tb, of 0 x] by simp
  qed
  have "rn ?fr2 = of_nat 128" using fr by (simp add: framer_at_def frame_reset_def)
  then have "\<not> rn ?fr2 < ucast (resp_len ?f)"
    using rl len unat_u16_less [of "resp_len ?f"]
    by (simp add: word_less_nat_alt unsigned_ucast_eq take_bit_nat_eq_self)
  then have loop: "read_loop env (resp_len ?f) x ?fr2 ?s2 = Some (Inr x, ?fr2, ?s2)"
    by (subst read_loop.simps) simp
  have cut: "cut_response (env_tb env) (resp_len ?f) x =
      Inr (take (length data) (drop 2 x), of_be16 (x ! (length data + 2)) (x ! (length data + 3)))"
    using cut_response_buffer [OF tb x255, of "length data + 4" "resp_len ?f"] rl len
    by (simp add: numeral_3_eq_3)
  show ?thesis
    using a wr rd num loop cut
    by (simp add: frame_exchange_def Let_def resp_len_def [symmetric] apdu_wf_def)
      (simp add: frame_reset_def)
qed

lemma first_packet_zeros:
  assumes "57 \<le> length data" "length data \<le> 114"
    and "x = first_packet_only (response data sw) (replicate 255 0)"
  shows "take (length data) (drop 2 x) = take 57 data @ replicate (length data - 57) 0"
    "of_be16 (x ! (length data + 2)) (x ! (length data + 3)) = 0"
proof -
  have st: "take 59 (response data sw) = take 2 (response data sw) @ take 57 data"
    using assms(1) by (simp add: response_def message_def)
  have l: "length (take 2 (response data sw)) = 2" by simp
  have x: "x = take 2 (response data sw) @ take 57 data @ replicate 196 0"
    unfolding assms(3) first_packet_only_def st by simp
  show "take (length data) (drop 2 x) = take 57 data @ replicate (length data - 57) 0"
    unfolding x using assms(1,2) l by (simp add: min_def) linarith
  have "x ! (length data + 2) = 0" "x ! (length data + 3) = 0"
    unfolding x using assms(1,2) l by (simp_all add: nth_append)
  then show "of_be16 (x ! (length data + 2)) (x ! (length data + 3)) = 0" by (simp add: of_be16_def)
qed

text \<open>
  C30. Two exchanges in a row on one framer, the first of which fails at its second packet: it
  throws with \<open>m_offset\<close> and \<open>rn\<close> left at 64. The second one, answered with 57 to 114 bytes of
  data, whose two packets are both there, returns after the first of them: 57 bytes of the data,
  filled up with the zeros of the fresh buffer, and the status 0 instead of the device's.
\<close>

theorem exchange_after_failure:
  assumes env: "tb_laws (env_tb env)" and a: "apdu_wf a" "apdu_wf a'"
    and fr: "framer_at 0 (frame_reset fr)"
    and sent: "send_packets env (wire_packets 0 (message (apdu_bytes a))) (m_io fr) s =
      (Inr (), m_io fr, s1)"
    and fails: "supplies env (m_dev (m_io fr)) s1 [f, g]"
      "take 5 f = packet_header 0" "take 5 g = packet_header q" "q \<noteq> 1" "64 < unat (resp_len f)"
    and again: "send_packets env (wire_packets 0 (message (apdu_bytes a'))) (m_io fr)
        (after_reads env (m_dev (m_io fr)) s1 2) = (Inr (), m_io fr, s2)"
    and sup: "supplies env (m_dev (m_io fr)) s2 (response_packets pad (response data sw))"
    and len: "57 \<le> length data" "length data \<le> 114"
    and fresh: "tb_new (env_tb env) 255 = replicate 255 0"
    and sw: "sw \<noteq> 0"
  shows "\<exists>fr1 fr2 r.
    frame_exchange env a fr s =
      Some (Inl (Wrong_Seqno 1 q), fr1, after_reads env (m_dev (m_io fr)) s1 2) \<and>
    frame_exchange env a' fr1 (after_reads env (m_dev (m_io fr)) s1 2) =
      Some (Inr r, fr2, after_reads env (m_dev (m_io fr)) s2 1) \<and>
    length (response_packets pad (response data sw)) = 2 \<and>
    r = (take 57 data @ replicate (length data - 57) 0, 0) \<and> r \<noteq> (data, sw)"
proof -
  let ?x = "first_packet_only (response data sw) (tb_new (env_tb env) 255)"
  obtain fr1 where 1: "frame_exchange env a fr s =
      Some (Inl (Wrong_Seqno 1 q), fr1, after_reads env (m_dev (m_io fr)) s1 2)"
    "framer_at 1 fr1" "m_io fr1 = m_io fr"
    using exchange_bad_sequence [OF env a(1) fr sent fails] by blast
  have len56: "56 \<le> length data" using len(1) by simp
  have "length (response_packets pad (response data sw)) = 2"
    using response_packets_2 [of "response data sw" pad] len by simp
  then show ?thesis
    using frame_exchange_stale [OF env a(2) 1(2) _ _ len56 len(2) refl, of _ s2 pad sw] 1 again sup sw
      first_packet_zeros [OF len, of ?x sw] fresh
    by simp
qed

section \<open>Witnesses\<close>

theorem exchange_three_packets_witness:
  "\<exists>d fr' s'. frame_exchange script_env version_apdu script_framer
      (response_packets 0 (response (replicate 130 7) 0x9000)) = Some (Inr (d, 0x0707), fr', s')"
proof -
  have "of_be16 7 7 = (0x0707 :: u16)" by (simp add: of_be16_def)
  then show ?thesis
    using exchange_three_packets [OF script_env_laws version_apdu_wf script_framer_at
        script_sends [OF script_dev] script_supplies_all, where data = "replicate 130 7" and pad = "0" and sw = "0x9000"]
    by auto
qed

theorem exchange_bad_sequence_witness:
  "\<exists>fr' s'. frame_exchange script_env version_apdu script_framer
      [packet_header 0 @ take 59 (response (replicate 65 7) 0x9000),
       packet_header 5 @ replicate 59 0] = Some (Inl (Wrong_Seqno 1 5), fr', s') \<and> framer_at 1 fr'"
proof -
  let ?f = "packet_header 0 @ take 59 (response (replicate 65 7) 0x9000)"
  let ?g = "packet_header 5 @ replicate 59 0"
  have rl: "unat (resp_len ?f) = 69"
    using resp_len_packet(2) [of "replicate 65 7" ?f "0x9000"] by simp
  have sup: "supplies script_env (m_dev (m_io script_framer)) [?f, ?g] [?f, ?g]"
    using script_supplies [of "[?f, ?g]" "m_dev (m_io script_framer)" "[]"] by simp
  show ?thesis
    using exchange_bad_sequence [OF script_env_laws version_apdu_wf script_framer_at
        script_sends [OF script_dev] sup, where q = "5"] rl
    by auto
qed

theorem exchange_after_failure_witness:
  "\<exists>fr1 fr2 d. frame_exchange script_env version_apdu script_framer
      ([packet_header 0 @ take 59 (response (replicate 65 7) 0x9000), packet_header 5 @ replicate 59 0]
        @ response_packets 0 (response (replicate 65 7) 0x9000)) =
      Some (Inl (Wrong_Seqno 1 5), fr1, response_packets 0 (response (replicate 65 7) 0x9000)) \<and>
    frame_exchange script_env version_apdu fr1 (response_packets 0 (response (replicate 65 7) 0x9000)) =
      Some (Inr (replicate 57 7 @ replicate 8 0, 0), fr2, d)"
proof -
  let ?f = "packet_header 0 @ take 59 (response (replicate 65 7) 0x9000)"
  let ?g = "packet_header 5 @ replicate 59 0" and ?ps = "response_packets 0 (response (replicate 65 7) 0x9000)"
  have rl: "64 < unat (resp_len ?f)"
    using resp_len_packet(2) [of "replicate 65 7" ?f "0x9000"] by simp
  have sup: "supplies script_env (m_dev (m_io script_framer)) ([?f, ?g] @ ?ps) [?f, ?g]"
    by (rule script_supplies) simp
  have s2: "after_reads script_env (m_dev (m_io script_framer)) ([?f, ?g] @ ?ps) 2 = ?ps"
    using script_after_reads [of _ "[?f, ?g]" ?ps] by (simp add: numeral_2_eq_2)
  show ?thesis
    using exchange_after_failure [OF script_env_laws version_apdu_wf version_apdu_wf script_framer_at
        script_sends [OF script_dev] sup _ _ _ rl script_sends [OF script_dev],
        where q = "5" and pad = "0" and sw = "0x9000" and data = "replicate 65 7"]
      script_supplies_all script_buffer
    unfolding s2 by auto
qed

end
