(* ===== verification/Linux_Uevent.thy ===== *)
theory Linux_Uevent
  imports Prelude
begin

text \<open>
  The C string functions the linux backend reads numbers with, and its
  \<^verbatim>\<open>parse_uevent_info\<close> (\<^verbatim>\<open>src/src/hid/linux/hid.c\<close>, 210-259), which takes the ids, the name
  and the serial number of a device out of the text of its uevent file. A C string is a
  \<^typ>\<open>string\<close> without its terminator.
\<close>

section \<open>Numbers in base 16\<close>

definition is_space :: "char \<Rightarrow> bool" where
  "is_space c \<longleftrightarrow> c \<in> set [CHR 0x09, CHR 0x0A, CHR 0x0B, CHR 0x0C, CHR 0x0D, CHR 0x20]"

fun hex_val :: "char \<Rightarrow> nat option" where
  "hex_val c =
     (let n = of_char c :: nat in
      if 48 \<le> n \<and> n \<le> 57 then Some (n - 48)
      else if 65 \<le> n \<and> n \<le> 70 then Some (n - 55)
      else if 97 \<le> n \<and> n \<le> 102 then Some (n - 87)
      else None)"

declare hex_val.simps [simp del]

text \<open>The digits at the start of a string, and what follows them.\<close>

fun span_hex :: "string \<Rightarrow> nat list \<times> string" where
  "span_hex [] = ([], [])"
| "span_hex (c # cs) =
     (case hex_val c of
        None \<Rightarrow> ([], c # cs)
      | Some d \<Rightarrow> (case span_hex cs of (ds, rest) \<Rightarrow> (d # ds, rest)))"

definition num16 :: "nat list \<Rightarrow> nat" where
  "num16 ds = foldl (\<lambda>n d. n * 16 + d) 0 ds"

text \<open>
  White space, a sign, an optional \<^verbatim>\<open>0x\<close>, which alone stands for a zero, and the digits:
  what \<^verbatim>\<open>strtol\<close>, \<^verbatim>\<open>strtoul\<close> and the conversion \<^verbatim>\<open>%x\<close> accept.
\<close>

definition scan_hex :: "string \<Rightarrow> (bool \<times> nat list \<times> string)" where
  "scan_hex s =
     (let s1 = dropWhile is_space s;
          (neg, s2) =
            (case s1 of
               [] \<Rightarrow> (False, [])
             | c # cs \<Rightarrow> if c = CHR ''-'' then (True, cs) else if c = CHR ''+'' then (False, cs)
                         else (False, s1));
          s3 = (case s2 of
                  z # x # cs \<Rightarrow> if z = CHR ''0'' \<and> (x = CHR ''x'' \<or> x = CHR ''X'') then z # cs else s2
                | _ \<Rightarrow> s2);
          (ds, rest) = span_hex s3
      in (neg, ds, rest))"

text \<open>The value as a 64-bit \<^verbatim>\<open>unsigned long\<close> or \<^verbatim>\<open>long\<close>, saturating.\<close>

definition strtoul_value :: "bool \<Rightarrow> nat list \<Rightarrow> u64" where
  "strtoul_value neg ds =
     (if num16 ds \<ge> 2 ^ 64 then - 1 else if neg then - of_nat (num16 ds) else of_nat (num16 ds))"

definition strtol16 :: "string \<Rightarrow> int" where
  "strtol16 s =
     (case scan_hex s of (neg, ds, _) \<Rightarrow>
        if neg then max (- (2 ^ 63)) (- int (num16 ds)) else min (2 ^ 63 - 1) (int (num16 ds)))"

text \<open>
  \<^verbatim>\<open>sscanf(value, "%x:%hx:%hx", bus_type, vendor_id, product_id)\<close>: the number of
  conversions (0 also where C returns \<^verbatim>\<open>EOF\<close>) and the objects stored to. A conversion that
  is not reached leaves its object as it is.
\<close>

fun scan_colon :: "string \<Rightarrow> string option" where
  "scan_colon (c # cs) = (if c = CHR '':'' then Some cs else None)"
| "scan_colon [] = None"

definition sscanf_id ::
    "string \<Rightarrow> u32 option \<Rightarrow> u16 option \<Rightarrow> u16 option \<Rightarrow>
     nat \<times> u32 option \<times> u16 option \<times> u16 option" where
  "sscanf_id s bus vid pid =
     (case scan_hex s of (n1, d1, r1) \<Rightarrow>
      if d1 = [] then (0, bus, vid, pid) else
      let bus' = Some (ucast (strtoul_value n1 d1)) in
      case scan_colon r1 of
        None \<Rightarrow> (1, bus', vid, pid)
      | Some s2 \<Rightarrow>
          (case scan_hex s2 of (n2, d2, r2) \<Rightarrow>
           if d2 = [] then (1, bus', vid, pid) else
           let vid' = Some (ucast (strtoul_value n2 d2)) in
           case scan_colon r2 of
             None \<Rightarrow> (2, bus', vid', pid)
           | Some s3 \<Rightarrow>
               (case scan_hex s3 of (n3, d3, _) \<Rightarrow>
                if d3 = [] then (2, bus', vid', pid)
                else (3, bus', vid', Some (ucast (strtoul_value n3 d3))))))"

section \<open>parse_uevent_info\<close>

text \<open>One step of \<^verbatim>\<open>strtok_r(., "\\n", &saveptr)\<close>: the token and the text after it.\<close>

definition strtok_nl :: "string \<Rightarrow> (string \<times> string) option" where
  "strtok_nl s =
     (let t = dropWhile (\<lambda>c. c = CHR 0x0A) s in
      if t = [] then None
      else Some (takeWhile (\<lambda>c. c \<noteq> CHR 0x0A) t, drop 1 (dropWhile (\<lambda>c. c \<noteq> CHR 0x0A) t)))"

text \<open>\<^verbatim>\<open>strchr(line, '=')\<close> with the cut that follows: the key and the value.\<close>

definition split_eq :: "string \<Rightarrow> (string \<times> string) option" where
  "split_eq line =
     (if CHR ''='' \<in> set line
      then Some (takeWhile (\<lambda>c. c \<noteq> CHR ''='') line, drop 1 (dropWhile (\<lambda>c. c \<noteq> CHR ''='') line))
      else None)"

text \<open>
  The out-parameters and the three flags. \<open>None\<close> in an id is an object that was not stored
  to, \<open>None\<close> in a string the null pointer it was initialised with.
\<close>

record uevent_info =
  ue_bus_type :: "u32 option"
  ue_vendor_id :: "u16 option"
  ue_product_id :: "u16 option"
  ue_serial :: "string option"
  ue_name :: "string option"
  found_id :: bool
  found_serial :: bool
  found_name :: bool

definition uevent_init :: uevent_info where
  "uevent_init = \<lparr>ue_bus_type = None, ue_vendor_id = None, ue_product_id = None,
     ue_serial = None, ue_name = None, found_id = False, found_serial = False,
     found_name = False\<rparr>"

definition uevent_key :: "string \<Rightarrow> string \<Rightarrow> uevent_info \<Rightarrow> uevent_info" where
  "uevent_key key value u =
     (if key = ''HID_ID'' then
        (case sscanf_id value (ue_bus_type u) (ue_vendor_id u) (ue_product_id u) of (ret, b, v, p) \<Rightarrow>
           (let u' = u\<lparr>ue_bus_type := b, ue_vendor_id := v, ue_product_id := p\<rparr> in
            if ret = 3 then u'\<lparr>found_id := True\<rparr> else u'))
      else if key = ''HID_NAME'' then u\<lparr>ue_name := Some value, found_name := True\<rparr>
      else if key = ''HID_UNIQ'' then u\<lparr>ue_serial := Some value, found_serial := True\<rparr>
      else u)"

definition uevent_line :: "string \<Rightarrow> uevent_info \<Rightarrow> uevent_info" where
  "uevent_line line u =
     (case split_eq line of None \<Rightarrow> u | Some (key, value) \<Rightarrow> uevent_key key value u)"

lemma strtok_nl_shorter: "strtok_nl s = Some (line, rest) \<Longrightarrow> length rest < length s"
proof -
  assume a: "strtok_nl s = Some (line, rest)"
  let ?t = "dropWhile (\<lambda>c. c = CHR 0x0A) s"
  have t: "?t \<noteq> []" "rest = drop 1 (dropWhile (\<lambda>c. c \<noteq> CHR 0x0A) ?t)"
    using a by (auto simp: strtok_nl_def Let_def split: if_splits)
  then have "length rest < length ?t"
    using length_dropWhile_le [of "\<lambda>c. c \<noteq> CHR 0x0A" ?t] by (cases ?t) auto
  then show ?thesis using length_dropWhile_le [of "\<lambda>c. c = CHR 0x0A" s] by linarith
qed

function uevent_lines :: "string \<Rightarrow> uevent_info \<Rightarrow> uevent_info" where
  "uevent_lines s u =
     (case strtok_nl s of
        None \<Rightarrow> u
      | Some (line, rest) \<Rightarrow> uevent_lines rest (uevent_line line u))"
  by pat_completeness auto
termination
  by (relation "measure (length \<circ> fst)") (auto simp: strtok_nl_shorter)

declare uevent_lines.simps [simp del]

definition parse_uevent_info :: "string option \<Rightarrow> (bool \<times> uevent_info) res" where
  "parse_uevent_info uevent =
     (case uevent of
        None \<Rightarrow> Inl (UB Null_Pointer)
      | Some s \<Rightarrow>
          (let u = uevent_lines s uevent_init
           in Inr (found_id u \<and> found_name u \<and> found_serial u, u)))"

section \<open>The text the kernel writes\<close>

text \<open>
  The uevent file of a HID device, as the comment in the source quotes it
  (\<^verbatim>\<open>HID_ID=0003:000005AC:00008242\<close>): lines \<^verbatim>\<open>KEY=value\<close>, the ids in upper-case
  hexadecimal padded to 4, 8 and 8 digits.
\<close>

definition hex_char :: "nat \<Rightarrow> char" where
  "hex_char d = char_of (if d < 10 then 48 + d else 55 + d)"

fun hex_pad_digits :: "nat \<Rightarrow> nat \<Rightarrow> nat list" where
  "hex_pad_digits 0 n = []"
| "hex_pad_digits (Suc k) n = hex_pad_digits k (n div 16) @ [n mod 16]"

definition hex_pad :: "nat \<Rightarrow> nat \<Rightarrow> string" where
  "hex_pad k n = map hex_char (hex_pad_digits k n)"

definition hid_id_value :: "u16 \<Rightarrow> u32 \<Rightarrow> u32 \<Rightarrow> string" where
  "hid_id_value bus vid pid =
     hex_pad 4 (unat bus) @ '':'' @ hex_pad 8 (unat vid) @ '':'' @ hex_pad 8 (unat pid)"

definition uevent_text :: "(string \<times> string) list \<Rightarrow> string" where
  "uevent_text kvs = concat (map (\<lambda>(k, v). k @ ''='' @ v @ [CHR 0x0A]) kvs)"

definition uevent_wf :: "(string \<times> string) list \<Rightarrow> bool" where
  "uevent_wf kvs \<longleftrightarrow>
     (\<forall>(k, v) \<in> set kvs. CHR ''='' \<notin> set k \<and> CHR 0x0A \<notin> set k \<and> CHR 0x0A \<notin> set v)"

lemma hex_val_hex_char: "d < 16 \<Longrightarrow> hex_val (hex_char d) = Some d"
  by (auto simp: hex_val.simps hex_char_def Let_def of_char_of)

lemma hex_char_class:
  assumes "d < 16"
  shows "\<not> is_space (hex_char d)" "hex_char d \<noteq> CHR ''-''" "hex_char d \<noteq> CHR ''+''"
    "hex_char d \<noteq> CHR ''x''" "hex_char d \<noteq> CHR ''X''"
proof -
  have "d \<in> set [0..<16]" using assms by simp
  then have "d \<in> {0,1,2,3,4,5,6,7,8,9,10,11,12,13,14,15}" by (simp add: upt_rec numeral_eq_Suc)
  then show "\<not> is_space (hex_char d)" "hex_char d \<noteq> CHR ''-''" "hex_char d \<noteq> CHR ''+''"
    "hex_char d \<noteq> CHR ''x''" "hex_char d \<noteq> CHR ''X''"
    by (auto simp: hex_char_def is_space_def char_of_def)
qed

lemma span_hex_map:
  "\<forall>d \<in> set ds. d < 16 \<Longrightarrow> rest = [] \<or> hex_val (hd rest) = None \<Longrightarrow>
   span_hex (map hex_char ds @ rest) = (ds, rest)"
proof (induction ds)
  case Nil
  then show ?case by (cases rest) auto
qed (simp add: hex_val_hex_char)

lemma scan_hex_map:
  assumes "\<forall>d \<in> set ds. d < 16" "ds \<noteq> []" "rest = [] \<or> hd rest = CHR '':''"
  shows "scan_hex (map hex_char ds @ rest) = (False, ds, rest)"
proof -
  have c: "hex_val (CHR '':'') = None" by (simp add: hex_val.simps)
  then have sp: "span_hex (map hex_char ds @ rest) = (ds, rest)"
    using assms by (intro span_hex_map) auto
  obtain d ds' where ds: "ds = d # ds'" "d < 16" using assms by (cases ds) auto
  show ?thesis
  proof (cases ds')
    case Nil
    then show ?thesis
      using sp ds hex_char_class [OF ds(2)] assms(3)
      by (cases rest) (auto simp: scan_hex_def Let_def split: prod.splits)
  next
    case (Cons e es)
    then have "e < 16" using assms(1) ds by simp
    then show ?thesis
      using sp ds Cons hex_char_class [OF ds(2)] hex_char_class [of e]
      by (auto simp: scan_hex_def Let_def split: prod.splits)
  qed
qed

lemma hex_pad_digits_less: "\<forall>d \<in> set (hex_pad_digits k n). d < 16"
  by (induction k arbitrary: n) auto

lemma num16_snoc: "num16 (ds @ [d]) = num16 ds * 16 + d"
  by (simp add: num16_def)

lemma num16_hex_pad: "n < 16 ^ k \<Longrightarrow> num16 (hex_pad_digits k n) = n"
proof (induction k arbitrary: n)
  case (Suc k)
  then have "n div 16 < 16 ^ k" by (simp add: less_mult_imp_div_less)
  then show ?case using Suc by (simp add: num16_snoc)
qed (simp add: num16_def)

lemma scan_hex_pad:
  "0 < k \<Longrightarrow> rest = [] \<or> hd rest = CHR '':'' \<Longrightarrow>
   scan_hex (hex_pad k n @ rest) = (False, hex_pad_digits k n, rest)"
  unfolding hex_pad_def
  by (rule scan_hex_map) (auto simp: hex_pad_digits_less gr0_conv_Suc)

lemma hex_pad_digits_Nil [simp]: "hex_pad_digits k n = [] \<longleftrightarrow> k = 0"
  by (cases k) auto

lemma strtoul_hex_pad: "n < 16 ^ k \<Longrightarrow> k \<le> 15 \<Longrightarrow> strtoul_value False (hex_pad_digits k n) = of_nat n"
proof -
  assume a: "n < 16 ^ k" "k \<le> 15"
  have "(16 :: nat) ^ k \<le> 16 ^ 15" using a(2) by (intro power_increasing) auto
  then have "n < 2 ^ 64" using a(1) by simp
  then show ?thesis using num16_hex_pad [OF a(1)] by (simp add: strtoul_value_def)
qed

lemma sscanf_hid_id:
  "sscanf_id (hid_id_value bus vid pid) b v p =
     (3, Some (ucast bus), Some (ucast vid), Some (ucast pid))"
proof -
  have u: "unat bus < 16 ^ 4" "unat vid < 16 ^ 8" "unat pid < 16 ^ 8"
    using unat_u16_less [of bus] unat_u32_less [of vid] unat_u32_less [of pid] by simp_all
  have w: "(ucast (of_nat (unat bus) :: u64) :: u32) = ucast bus"
    "(ucast (of_nat (unat vid) :: u64) :: u16) = ucast vid"
    "(ucast (of_nat (unat pid) :: u64) :: u16) = ucast pid"
    by (rule bit_word_eqI; auto simp: bit_simps dest: bit_imp_le_length)+
  show ?thesis
    using scan_hex_pad [of 4 "'':'' @ hex_pad 8 (unat vid) @ '':'' @ hex_pad 8 (unat pid)" "unat bus"]
      scan_hex_pad [of 8 "'':'' @ hex_pad 8 (unat pid)" "unat vid"] scan_hex_pad [of 8 "[]" "unat pid"]
      strtoul_hex_pad [OF u(1)] strtoul_hex_pad [OF u(2)] strtoul_hex_pad [OF u(3)] w
    by (simp add: sscanf_id_def hid_id_value_def)
qed

lemma hid_id_value_no_nl: "CHR 0x0A \<notin> set (hid_id_value bus vid pid)"
proof -
  have "CHR 0x0A \<notin> set (hex_pad k n)" for k n
    using hex_pad_digits_less [of k n] hex_char_class(1) by (fastforce simp: hex_pad_def is_space_def)
  then show ?thesis by (simp add: hid_id_value_def)
qed

lemma strtok_nl_line:
  assumes "CHR 0x0A \<notin> set l" "l \<noteq> []"
  shows "strtok_nl (l @ CHR 0x0A # rest) = Some (l, rest)"
proof -
  obtain c cs where l: "l = c # cs" "c \<noteq> CHR 0x0A" using assms by (cases l) auto
  have "takeWhile (\<lambda>c. c \<noteq> CHR 0x0A) (l @ CHR 0x0A # rest) = l"
    "dropWhile (\<lambda>c. c \<noteq> CHR 0x0A) (l @ CHR 0x0A # rest) = CHR 0x0A # rest"
    using assms(1) by (subst takeWhile_append2 dropWhile_append2; auto)+
  then show ?thesis using l by (simp add: strtok_nl_def)
qed

lemma split_eq_line:
  assumes "CHR ''='' \<notin> set k"
  shows "split_eq (k @ CHR ''='' # v) = Some (k, v)"
proof -
  have "takeWhile (\<lambda>c. c \<noteq> CHR ''='') (k @ CHR ''='' # v) = k"
    "dropWhile (\<lambda>c. c \<noteq> CHR ''='') (k @ CHR ''='' # v) = CHR ''='' # v"
    using assms by (subst takeWhile_append2 dropWhile_append2; auto)+
  then show ?thesis by (simp add: split_eq_def)
qed

lemma uevent_lines_text:
  "uevent_wf kvs \<Longrightarrow> uevent_lines (uevent_text kvs) u = fold (\<lambda>(k, v). uevent_key k v) kvs u"
proof (induction kvs arbitrary: u)
  case Nil
  then show ?case by (simp add: uevent_text_def strtok_nl_def uevent_lines.simps [of "[]"])
next
  case (Cons kv kvs)
  obtain k v where kv: "kv = (k, v)" by (cases kv)
  have wf: "CHR ''='' \<notin> set k" "CHR 0x0A \<notin> set k" "CHR 0x0A \<notin> set v" "uevent_wf kvs"
    using Cons.prems kv by (auto simp: uevent_wf_def)
  have "uevent_text (kv # kvs) = (k @ CHR ''='' # v) @ CHR 0x0A # uevent_text kvs"
    by (simp add: uevent_text_def kv)
  then have "strtok_nl (uevent_text (kv # kvs)) = Some (k @ CHR ''='' # v, uevent_text kvs)"
    using wf by (simp only:) (rule strtok_nl_line, auto)
  then have "uevent_lines (uevent_text (kv # kvs)) u =
      uevent_lines (uevent_text kvs) (uevent_line (k @ CHR ''='' # v) u)"
    by (subst uevent_lines.simps) simp
  then show ?case
    using Cons.IH [OF wf(4)] split_eq_line [OF wf(1)] kv by (simp add: uevent_line_def)
qed

text \<open>What the lines leave of one field, when the keys are distinct.\<close>

lemma fold_map_of:
  assumes "\<And>k v u. f (step k v u) = (if k = K then g v (f u) else f u)" "distinct (map fst kvs)"
  shows "f (fold (\<lambda>(k, v). step k v) kvs u) =
    (case map_of kvs K of None \<Rightarrow> f u | Some v \<Rightarrow> g v (f u))"
  using assms(2)
proof (induction kvs arbitrary: u)
  case (Cons kv kvs)
  obtain k v where kv: "kv = (k, v)" by (cases kv)
  have "K = k \<Longrightarrow> map_of kvs K = None" using Cons.prems kv by (simp add: map_of_eq_None_iff)
  then show ?case using Cons kv assms(1) by (auto split: option.split)
qed simp

definition ue_ids :: "uevent_info \<Rightarrow> bool \<times> u32 option \<times> u16 option \<times> u16 option" where
  "ue_ids u = (found_id u, ue_bus_type u, ue_vendor_id u, ue_product_id u)"

definition scan_ids :: "string \<Rightarrow> bool \<times> u32 option \<times> u16 option \<times> u16 option \<Rightarrow>
    bool \<times> u32 option \<times> u16 option \<times> u16 option" where
  "scan_ids s x = (case x of (fd, b, v, p) \<Rightarrow>
     (case sscanf_id s b v p of (n, b', v', p') \<Rightarrow> (fd \<or> n = 3, b', v', p')))"

lemma uevent_key_fields:
  "(ue_name (uevent_key k v u), found_name (uevent_key k v u)) =
     (if k = ''HID_NAME'' then (Some v, True) else (ue_name u, found_name u))"
  "(ue_serial (uevent_key k v u), found_serial (uevent_key k v u)) =
     (if k = ''HID_UNIQ'' then (Some v, True) else (ue_serial u, found_serial u))"
  "ue_ids (uevent_key k v u) = (if k = ''HID_ID'' then scan_ids v (ue_ids u) else ue_ids u)"
  by (auto simp: uevent_key_def ue_ids_def scan_ids_def Let_def split: prod.split)

lemma fold_uevent:
  assumes "distinct (map fst kvs)"
  shows "(ue_name (fold (\<lambda>(k, v). uevent_key k v) kvs u),
      found_name (fold (\<lambda>(k, v). uevent_key k v) kvs u)) =
    (case map_of kvs ''HID_NAME'' of None \<Rightarrow> (ue_name u, found_name u) | Some v \<Rightarrow> (Some v, True))"
    and "(ue_serial (fold (\<lambda>(k, v). uevent_key k v) kvs u),
      found_serial (fold (\<lambda>(k, v). uevent_key k v) kvs u)) =
    (case map_of kvs ''HID_UNIQ'' of None \<Rightarrow> (ue_serial u, found_serial u) | Some v \<Rightarrow> (Some v, True))"
    and "ue_ids (fold (\<lambda>(k, v). uevent_key k v) kvs u) =
    (case map_of kvs ''HID_ID'' of None \<Rightarrow> ue_ids u | Some v \<Rightarrow> scan_ids v (ue_ids u))"
  using fold_map_of [where f = "\<lambda>u. (ue_name u, found_name u)" and g = "\<lambda>v _. (Some v, True)",
      OF uevent_key_fields(1) assms]
    fold_map_of [where f = "\<lambda>u. (ue_serial u, found_serial u)" and g = "\<lambda>v _. (Some v, True)",
      OF uevent_key_fields(2) assms]
    fold_map_of [where f = ue_ids and g = scan_ids, OF uevent_key_fields(3) assms]
  by blast+

lemma uevent_init_fields [simp]:
  "ue_name uevent_init = None" "ue_serial uevent_init = None" "\<not> found_name uevent_init"
  "\<not> found_serial uevent_init" "ue_ids uevent_init = (False, None, None, None)"
  by (auto simp: uevent_init_def ue_ids_def)

section \<open>Invariants of the scan\<close>

lemma uevent_lines_inv:
  assumes "\<And>k v u. I u \<Longrightarrow> I (uevent_key k v u)"
  shows "I u \<Longrightarrow> I (uevent_lines s u)"
proof (induction s u rule: uevent_lines.induct)
  case (1 s u)
  show ?case
  proof (cases "strtok_nl s")
    case None
    then show ?thesis using 1(2) by (subst uevent_lines.simps) simp
  next
    case (Some lr)
    obtain l r where lr: "lr = (l, r)" by (cases lr)
    have "I (uevent_line l u)"
      using 1(2) assms by (auto simp: uevent_line_def split: option.splits)
    then show ?thesis using 1(1) [OF Some lr [symmetric]] Some lr by (subst uevent_lines.simps) simp
  qed
qed

text \<open>When the function reports success, every out-parameter was stored to.\<close>

definition uevent_stored :: "uevent_info \<Rightarrow> bool" where
  "uevent_stored u \<longleftrightarrow>
     (found_id u \<longrightarrow> ue_bus_type u \<noteq> None \<and> ue_vendor_id u \<noteq> None \<and> ue_product_id u \<noteq> None) \<and>
     (found_serial u \<longrightarrow> ue_serial u \<noteq> None) \<and> (found_name u \<longrightarrow> ue_name u \<noteq> None)"

lemma sscanf_id_stored:
  assumes "sscanf_id s b v p = (n, b', v', p')"
  shows "n = 3 \<Longrightarrow> b' \<noteq> None \<and> v' \<noteq> None \<and> p' \<noteq> None"
    "b \<noteq> None \<Longrightarrow> b' \<noteq> None" "v \<noteq> None \<Longrightarrow> v' \<noteq> None" "p \<noteq> None \<Longrightarrow> p' \<noteq> None"
  using assms by (auto simp: sscanf_id_def Let_def split: prod.splits if_splits option.splits)

lemma uevent_key_stored: "uevent_stored u \<Longrightarrow> uevent_stored (uevent_key k v u)"
proof (cases "k = ''HID_ID''")
  case True
  obtain n b w p where s: "sscanf_id v (ue_bus_type u) (ue_vendor_id u) (ue_product_id u) = (n, b, w, p)"
    by (cases "sscanf_id v (ue_bus_type u) (ue_vendor_id u) (ue_product_id u)")
  assume "uevent_stored u"
  then show ?thesis
    using True s sscanf_id_stored [OF s] by (auto simp: uevent_stored_def uevent_key_def Let_def)
qed (auto simp: uevent_stored_def uevent_key_def)

lemma parse_uevent_stored:
  assumes "parse_uevent_info txt = Inr (True, u)"
  shows "ue_bus_type u \<noteq> None" "ue_vendor_id u \<noteq> None" "ue_product_id u \<noteq> None"
    "ue_serial u \<noteq> None" "ue_name u \<noteq> None"
proof -
  have "uevent_stored uevent_init" by (simp add: uevent_stored_def uevent_init_def)
  then have "uevent_stored (uevent_lines s uevent_init)" for s
    by (rule uevent_lines_inv [rotated]) (rule uevent_key_stored)
  then show "ue_bus_type u \<noteq> None" "ue_vendor_id u \<noteq> None" "ue_product_id u \<noteq> None"
    "ue_serial u \<noteq> None" "ue_name u \<noteq> None"
    using assms by (auto simp: parse_uevent_info_def Let_def uevent_stored_def split: option.splits)
qed

lemma parse_uevent_ids:
  assumes "uevent_wf kvs" "distinct (map fst kvs)"
    and "map_of kvs ''HID_ID'' = None \<or> map_of kvs ''HID_ID'' = Some (hid_id_value bus vid pid)"
  shows "\<exists>u ok. parse_uevent_info (Some (uevent_text kvs)) = Inr (ok, u) \<and>
    (ok \<longleftrightarrow> {''HID_ID'', ''HID_NAME'', ''HID_UNIQ''} \<subseteq> dom (map_of kvs)) \<and>
    ue_name u = map_of kvs ''HID_NAME'' \<and> ue_serial u = map_of kvs ''HID_UNIQ'' \<and>
    (ok \<longrightarrow> ue_bus_type u = Some (ucast bus) \<and> ue_vendor_id u = Some (ucast vid) \<and>
       ue_product_id u = Some (ucast pid))"
proof -
  let ?u = "uevent_lines (uevent_text kvs) uevent_init"
  have n: "(ue_name ?u, found_name ?u) = (map_of kvs ''HID_NAME'', map_of kvs ''HID_NAME'' \<noteq> None)"
    using fold_uevent(1) [OF assms(2), where u = uevent_init]
    unfolding uevent_lines_text [OF assms(1)] by (simp split: option.splits)
  have s: "(ue_serial ?u, found_serial ?u) = (map_of kvs ''HID_UNIQ'', map_of kvs ''HID_UNIQ'' \<noteq> None)"
    using fold_uevent(2) [OF assms(2), where u = uevent_init]
    unfolding uevent_lines_text [OF assms(1)] by (simp split: option.splits)
  have i: "ue_ids ?u = (if map_of kvs ''HID_ID'' = None then (False, None, None, None)
      else (True, Some (ucast bus), Some (ucast vid), Some (ucast pid)))"
    using fold_uevent(3) [OF assms(2), where u = uevent_init] assms(3)
    unfolding uevent_lines_text [OF assms(1)]
    by (auto simp: scan_ids_def sscanf_hid_id)
  show ?thesis
    using n s i unfolding parse_uevent_info_def dom_def
    by (intro exI [of _ ?u] exI [of _ "found_id ?u \<and> found_name ?u \<and> found_serial ?u"])
      (auto simp: ue_ids_def split: if_splits)
qed

section \<open>Property\<close>

text \<open>
  C18. \<^verbatim>\<open>parse_uevent_info\<close> inverts the kernel's uevent text. For any list of lines with
  distinct keys, in any order and with any other lines between them, the bus, the low 16 bits
  of the vendor and product id, the name and the serial number that come out are the ones
  written, and the function reports success; if the id, the name or the serial number line is
  missing, it reports failure.
\<close>

theorem parse_uevent_roundtrip:
  assumes "uevent_wf kvs" "distinct (map fst kvs)"
    and "map_of kvs ''HID_ID'' = None \<or> map_of kvs ''HID_ID'' = Some (hid_id_value bus vid pid)"
  shows "\<exists>u ok. parse_uevent_info (Some (uevent_text kvs)) = Inr (ok, u) \<and>
    (ok \<longleftrightarrow> {''HID_ID'', ''HID_NAME'', ''HID_UNIQ''} \<subseteq> dom (map_of kvs)) \<and>
    ue_name u = map_of kvs ''HID_NAME'' \<and> ue_serial u = map_of kvs ''HID_UNIQ'' \<and>
    (ok \<longrightarrow> ue_bus_type u = Some (ucast bus) \<and> ue_vendor_id u = Some (ucast vid) \<and>
       ue_product_id u = Some (ucast pid))"
  by (rule parse_uevent_ids [OF assms])

theorem parse_uevent_roundtrip_witness:
  "\<exists>u. parse_uevent_info (Some (uevent_text
      [(''HID_ID'', hid_id_value 3 0x2c97 0x0001), (''HID_NAME'', ''Nano S''), (''HID_UNIQ'', ''0001'')]))
    = Inr (True, u) \<and> ue_vendor_id u = Some 0x2c97 \<and> ue_name u = Some ''Nano S''"
proof -
  let ?kvs = "[(''HID_ID'', hid_id_value 3 0x2c97 0x0001), (''HID_NAME'', ''Nano S''), (''HID_UNIQ'', ''0001'')]"
  have wf: "uevent_wf ?kvs" by (simp add: uevent_wf_def hid_id_value_no_nl)
  have d: "distinct (map fst ?kvs)" by simp
  have m: "map_of ?kvs ''HID_ID'' = Some (hid_id_value 3 0x2c97 0x0001)"
    "map_of ?kvs ''HID_NAME'' = Some ''Nano S''" "map_of ?kvs ''HID_UNIQ'' = Some ''0001''"
    by simp_all
  then have sub: "{''HID_ID'', ''HID_NAME'', ''HID_UNIQ''} \<subseteq> dom (map_of ?kvs)" by blast
  obtain u ok where u: "parse_uevent_info (Some (uevent_text ?kvs)) = Inr (ok, u)" "ok"
    "ue_name u = map_of ?kvs ''HID_NAME''" "ue_vendor_id u = Some (ucast (0x2c97 :: u32))"
    using parse_uevent_roundtrip [OF wf d disjI2 [OF m(1)]] sub by blast
  have "ucast (0x2c97 :: u32) = (0x2c97 :: u16)" by simp
  then show ?thesis using u m(2) by (intro exI [of _ u]) (simp only: simp_thms)
qed

end
