(* ===== verification/Linux_Hid.thy ===== *)
theory Linux_Hid
  imports Hidapi Report_Descriptor Linux_Uevent
begin

text \<open>
  The linux backend (\<^verbatim>\<open>src/src/hid/linux/hid.c\<close>): the device objects, the thread's global
  error message, and every operation of the interface. The kernel, libudev and the locale
  are the record \<open>linux_os\<close> over a world \<open>'w\<close>: what a system call does to the world and
  returns. A read that gives bytes gives them through \<^verbatim>\<open>take\<close>: the kernel stores no more
  than it was asked for. \<^verbatim>\<open>calloc\<close> and \<^verbatim>\<open>strdup\<close> succeed. The last section shows that the
  backend keeps the contract \<open>hid_backend\<close>.
\<close>

section \<open>The system\<close>

text \<open>
  \<open>None\<close> as the result of a call is -1 (reads, writes, ioctls). A udev device is a pointer;
  the queries on it answer from the world and leave it as it is.
\<close>

record 'w linux_os =
  os_open :: "string option \<Rightarrow> 'w \<Rightarrow> int \<times> 'w"
  os_close :: "int \<Rightarrow> 'w \<Rightarrow> int \<times> 'w"
  os_read :: "int \<Rightarrow> nat \<Rightarrow> 'w \<Rightarrow> u8 list option \<times> 'w"
  os_write :: "int \<Rightarrow> u8 list \<Rightarrow> 'w \<Rightarrow> nat option \<times> 'w"
  os_poll :: "int \<Rightarrow> int \<Rightarrow> 'w \<Rightarrow> (int \<times> u16) \<times> 'w"
  os_grdescsize :: "int \<Rightarrow> 'w \<Rightarrow> u32 option \<times> 'w"
  os_grdesc :: "int \<Rightarrow> u32 \<Rightarrow> 'w \<Rightarrow> u8 list option \<times> 'w"
  os_sfeature :: "int \<Rightarrow> u8 list \<Rightarrow> 'w \<Rightarrow> int \<times> 'w"
  os_gfeature :: "int \<Rightarrow> u8 list \<Rightarrow> 'w \<Rightarrow> (int \<times> u8 list) \<times> 'w"
  os_fstat :: "int \<Rightarrow> 'w \<Rightarrow> nat option"
  os_errno :: "'w \<Rightarrow> int"
  os_strerror :: "int \<Rightarrow> string"
  os_mbstowcs :: "'w \<Rightarrow> string \<Rightarrow> wstr option"
  os_locale_set :: "'w \<Rightarrow> bool"
  os_setlocale :: "'w \<Rightarrow> 'w"
  udev_new_ok :: "'w \<Rightarrow> bool"
  udev_scan :: "'w \<Rightarrow> string list"
  udev_from_syspath :: "'w \<Rightarrow> string \<Rightarrow> ptr"
  udev_from_devnum :: "'w \<Rightarrow> nat \<Rightarrow> ptr"
  udev_devnode :: "'w \<Rightarrow> ptr \<Rightarrow> string option"
  udev_parent :: "'w \<Rightarrow> ptr \<Rightarrow> string \<Rightarrow> string option \<Rightarrow> ptr"
  udev_sysattr :: "'w \<Rightarrow> ptr \<Rightarrow> string \<Rightarrow> string option"

section \<open>State\<close>

text \<open>\<^verbatim>\<open>struct hid_device_\<close>.\<close>

record lx_device =
  device_handle :: int
  blocking :: bool
  numbered :: bool
  last_error_str :: "wstr option"

text \<open>
  A handle is an index of \<open>lx_heap\<close>; a freed device is \<open>None\<close>, and its index is not used
  again, so that a use after the close shows.
\<close>

record 'w linux_state =
  lx_world :: 'w
  lx_heap :: "lx_device option list"
  last_global_error_str :: "wstr option"

definition new_hid_device :: lx_device where
  "new_hid_device =
     \<lparr>device_handle = - 1, blocking = True, numbered = False, last_error_str = None\<rparr>"

text \<open>\<^verbatim>\<open>dev->...\<close> for a handle.\<close>

definition lx_deref :: "ptr \<Rightarrow> 'w linux_state \<Rightarrow> (nat \<times> lx_device) res" where
  "lx_deref p s =
     (case p of
        None \<Rightarrow> Inl (UB Null_Pointer)
      | Some h \<Rightarrow>
          if h < length (lx_heap s)
          then (case lx_heap s ! h of None \<Rightarrow> Inl (UB Use_After_Free) | Some d \<Rightarrow> Inr (h, d))
          else Inl (UB Use_After_Free))"

definition lx_put :: "nat \<Rightarrow> lx_device option \<Rightarrow> 'w linux_state \<Rightarrow> 'w linux_state" where
  "lx_put h d s = s\<lparr>lx_heap := (lx_heap s)[h := d]\<rparr>"

section \<open>Messages\<close>

definition utf8_to_wchar_t :: "'w linux_os \<Rightarrow> 'w \<Rightarrow> string option \<Rightarrow> wstr option" where
  "utf8_to_wchar_t os w utf8 =
     (case utf8 of
        None \<Rightarrow> None
      | Some s \<Rightarrow> Some (case os_mbstowcs os w s of None \<Rightarrow> [] | Some ws \<Rightarrow> ws))"

definition register_global_error ::
    "'w linux_os \<Rightarrow> string option \<Rightarrow> 'w linux_state \<Rightarrow> 'w linux_state" where
  "register_global_error os msg s =
     s\<lparr>last_global_error_str := utf8_to_wchar_t os (lx_world s) msg\<rparr>"

definition register_device_error ::
    "'w linux_os \<Rightarrow> 'w \<Rightarrow> string option \<Rightarrow> lx_device \<Rightarrow> lx_device" where
  "register_device_error os w msg dev = dev\<lparr>last_error_str := utf8_to_wchar_t os w msg\<rparr>"

text \<open>The formats in use are a prefix followed by \<^verbatim>\<open>%s\<close>; the message buffer has 100 bytes.\<close>

definition register_device_error_format ::
    "'w linux_os \<Rightarrow> 'w \<Rightarrow> string \<Rightarrow> string \<Rightarrow> lx_device \<Rightarrow> lx_device" where
  "register_device_error_format os w prefix arg dev =
     register_device_error os w (Some (take 99 (prefix @ arg))) dev"

definition errno_msg :: "'w linux_os \<Rightarrow> 'w \<Rightarrow> string" where
  "errno_msg os w = os_strerror os (os_errno os w)"

definition copy_udev_string :: "'w linux_os \<Rightarrow> 'w \<Rightarrow> ptr \<Rightarrow> string \<Rightarrow> wstr option" where
  "copy_udev_string os w dev udev_name = utf8_to_wchar_t os w (udev_sysattr os w dev udev_name)"

definition hid_init :: "'w linux_os \<Rightarrow> 'w linux_state \<Rightarrow> 'w linux_state" where
  "hid_init os s =
     (if os_locale_set os (lx_world s) then s
      else s\<lparr>lx_world := os_setlocale os (lx_world s)\<rparr>)"

definition hid_exit :: "'w linux_os \<Rightarrow> 'w linux_state \<Rightarrow> 'w linux_state" where
  "hid_exit os s = register_global_error os None s"

section \<open>Enumeration\<close>

definition BUS_USB :: u32 where "BUS_USB = 3"
definition BUS_BLUETOOTH :: u32 where "BUS_BLUETOOTH = 5"

text \<open>
  The fields the bus decides. \<open>None\<close>: a USB device without its parent node, which is taken
  off the list again.
\<close>

definition lx_bus_fields ::
    "'w linux_os \<Rightarrow> 'w \<Rightarrow> ptr \<Rightarrow> u32 \<Rightarrow> string option \<Rightarrow> dev_info \<Rightarrow> dev_info option" where
  "lx_bus_fields os w raw_dev bus_type product_name d =
     (if bus_type = BUS_USB then
        (case udev_parent os w raw_dev ''usb'' (Some ''usb_device'') of
           None \<Rightarrow> None
         | usb_dev \<Rightarrow>
             (let d = d\<lparr>di_manufacturer_string := copy_udev_string os w usb_dev ''manufacturer'',
                        di_product_string := copy_udev_string os w usb_dev ''product'',
                        di_release_number :=
                          (case udev_sysattr os w usb_dev ''bcdDevice'' of
                             None \<Rightarrow> 0 | Some str \<Rightarrow> word_of_int (strtol16 str))\<rparr>
              in case udev_parent os w raw_dev ''usb'' (Some ''usb_interface'') of
                   None \<Rightarrow> Some d
                 | intf_dev \<Rightarrow>
                     Some (d\<lparr>di_interface_number :=
                       (case udev_sysattr os w intf_dev ''bInterfaceNumber'' of
                          None \<Rightarrow> - 1
                        | Some str \<Rightarrow> sint (word_of_int (strtol16 str) :: u32))\<rparr>)))
      else if bus_type = BUS_BLUETOOTH then
        Some (d\<lparr>di_manufacturer_string := Some [],
                di_product_string := utf8_to_wchar_t os w product_name\<rparr>)
      else Some d)"

text \<open>One round of the loop over the hidraw nodes: the record it adds, if it adds one.\<close>

definition lx_enum_entry ::
    "'w linux_os \<Rightarrow> 'w \<Rightarrow> u16 \<Rightarrow> u16 \<Rightarrow> string \<Rightarrow> dev_info option res" where
  "lx_enum_entry os w vendor_id product_id sysfs_path =
     (let raw_dev = udev_from_syspath os w sysfs_path;
          dev_path = udev_devnode os w raw_dev
      in case udev_parent os w raw_dev ''hid'' None of
           None \<Rightarrow> Inr None
         | hid_dev \<Rightarrow>
             bind_res (parse_uevent_info (udev_sysattr os w hid_dev ''uevent'')) (\<lambda>(result, u).
               if \<not> result then Inr None
               else case (ue_bus_type u, ue_vendor_id u, ue_product_id u) of
                 (Some bus_type, Some dev_vid, Some dev_pid) \<Rightarrow>
                   if bus_type \<noteq> BUS_USB \<and> bus_type \<noteq> BUS_BLUETOOTH then Inr None
                   else if id_matches vendor_id product_id dev_vid dev_pid then
                     Inr (lx_bus_fields os w raw_dev bus_type (ue_name u)
                       (calloc_dev_info\<lparr>di_path := dev_path, di_vendor_id := dev_vid,
                          di_product_id := dev_pid,
                          di_serial_number := utf8_to_wchar_t os w (ue_serial u),
                          di_release_number := 0, di_interface_number := - 1\<rparr>))
                   else Inr None
               | _ \<Rightarrow> Inl (UB Uninitialised)))"

fun lx_enum_loop ::
    "'w linux_os \<Rightarrow> 'w \<Rightarrow> u16 \<Rightarrow> u16 \<Rightarrow> string list \<Rightarrow> dev_info list \<Rightarrow> dev_info list res" where
  "lx_enum_loop os w vendor_id product_id [] root = Inr root"
| "lx_enum_loop os w vendor_id product_id (p # ps) root =
     bind_res (lx_enum_entry os w vendor_id product_id p) (\<lambda>r.
       lx_enum_loop os w vendor_id product_id ps
         (case r of None \<Rightarrow> root | Some d \<Rightarrow> root @ [d]))"

definition lx_enumerate ::
    "'w linux_os \<Rightarrow> u16 \<Rightarrow> u16 \<Rightarrow> 'w linux_state \<Rightarrow> dev_info list res \<times> 'w linux_state" where
  "lx_enumerate os vendor_id product_id s =
     (let s = hid_init os s in
      if \<not> udev_new_ok os (lx_world s)
      then (Inr [], register_global_error os (Some ''Couldn't create udev context'') s)
      else (lx_enum_loop os (lx_world s) vendor_id product_id (udev_scan os (lx_world s)) [], s))"

section \<open>Opening and closing\<close>

text \<open>
  The two ioctls after a successful \<^verbatim>\<open>open\<close>. The descriptor buffer has
  \<^verbatim>\<open>HID_MAX_DESCRIPTOR_SIZE\<close> = 4096 bytes.
\<close>

definition lx_numbered :: "u8 list \<Rightarrow> u32 \<Rightarrow> bool res" where
  "lx_numbered rd sz =
     (case uses_numbered_reports rd sz of None \<Rightarrow> Inl (UB Out_Of_Bounds) | Some r \<Rightarrow> r)"

definition lx_read_descriptor ::
    "'w linux_os \<Rightarrow> 'w \<Rightarrow> lx_device \<Rightarrow> lx_device res \<times> 'w" where
  "lx_read_descriptor os w dev =
     (let (rsz, w) = os_grdescsize os (device_handle dev) w;
          (desc_size, dev) =
            (case rsz of
               None \<Rightarrow> (0, register_device_error_format os w ''ioctl (GRDESCSIZE): '' (errno_msg os w) dev)
             | Some n \<Rightarrow> (n, dev));
          (rd, w) = os_grdesc os (device_handle dev) desc_size w
      in (case rd of
            None \<Rightarrow> Inr (register_device_error_format os w ''ioctl (GRDESC): '' (errno_msg os w) dev)
          | Some bs \<Rightarrow>
              bind_res (c_memcpy (replicate 4096 0) 0 bs) (\<lambda>rpt_desc_value.
              bind_res (lx_numbered rpt_desc_value desc_size) (\<lambda>n. Inr (dev\<lparr>numbered := n\<rparr>))), w))"

definition lx_open_path ::
    "'w linux_os \<Rightarrow> string option \<Rightarrow> 'w linux_state \<Rightarrow> ptr res \<times> 'w linux_state" where
  "lx_open_path os path s =
     (let s = register_global_error os None s;
          s = hid_init os s;
          (fd, w) = os_open os path (lx_world s);
          s = s\<lparr>lx_world := w\<rparr>;
          dev = new_hid_device\<lparr>device_handle := fd\<rparr>
      in if fd > 0 then
           (case lx_read_descriptor os w (register_device_error os w None dev) of
              (Inl e, w) \<Rightarrow> (Inl e, s\<lparr>lx_world := w\<rparr>)
            | (Inr dev, w) \<Rightarrow>
                (Inr (Some (length (lx_heap s))),
                 s\<lparr>lx_world := w, lx_heap := lx_heap s @ [Some dev]\<rparr>))
         else (Inr None, register_global_error os (Some (errno_msg os w)) s))"

definition lx_open ::
    "'w linux_os \<Rightarrow> u16 \<Rightarrow> u16 \<Rightarrow> wstr option \<Rightarrow> 'w linux_state \<Rightarrow> ptr res \<times> 'w linux_state" where
  "lx_open os vendor_id product_id serial_number s =
     (let s = register_global_error os None s in
      case lx_enumerate os vendor_id product_id s of
        (Inl e, s) \<Rightarrow> (Inl e, s)
      | (Inr devs, s) \<Rightarrow>
          (case lx_find_path vendor_id product_id serial_number devs of
             Inl e \<Rightarrow> (Inl e, s)
           | Inr (Some path_to_open) \<Rightarrow> lx_open_path os (Some path_to_open) s
           | Inr None \<Rightarrow> (Inr None, register_global_error os (Some ''No such device'') s)))"

definition lx_close :: "'w linux_os \<Rightarrow> ptr \<Rightarrow> 'w linux_state \<Rightarrow> unit res \<times> 'w linux_state" where
  "lx_close os dev s =
     (if dev = None then (Inr (), s)
      else case lx_deref dev s of
        Inl e \<Rightarrow> (Inl e, s)
      | Inr (h, d) \<Rightarrow>
          (let (ret, w) = os_close os (device_handle d) (lx_world s);
               s = s\<lparr>lx_world := w\<rparr>;
               s = register_global_error os (if ret = - 1 then Some (errno_msg os w) else None) s
           in (Inr (), lx_put h None s)))"

section \<open>Reports\<close>

definition lx_write ::
    "'w linux_os \<Rightarrow> ptr \<Rightarrow> u8 list \<Rightarrow> 'w linux_state \<Rightarrow> int res \<times> 'w linux_state" where
  "lx_write os dev data s =
     (case lx_deref dev s of
        Inl e \<Rightarrow> (Inl e, s)
      | Inr (h, d) \<Rightarrow>
          (let (r, w) = os_write os (device_handle d) data (lx_world s);
               bytes_written = (case r of None \<Rightarrow> - 1 | Some n \<Rightarrow> int n);
               d = register_device_error os w
                     (if bytes_written = - 1 then Some (errno_msg os w) else None) d
           in (Inr bytes_written, lx_put h (Some d) (s\<lparr>lx_world := w\<rparr>))))"

definition POLLERR :: u16 where "POLLERR = 0x008"
definition POLLHUP :: u16 where "POLLHUP = 0x010"
definition POLLNVAL :: u16 where "POLLNVAL = 0x020"
definition EAGAIN :: int where "EAGAIN = 11"
definition EINPROGRESS :: int where "EINPROGRESS = 115"

text \<open>The read that ends \<^verbatim>\<open>hid_read_timeout\<close>.\<close>

definition lx_read_now ::
    "'w linux_os \<Rightarrow> nat \<Rightarrow> lx_device \<Rightarrow> nat \<Rightarrow> 'w linux_state \<Rightarrow>
     (int \<times> u8 list) res \<times> 'w linux_state" where
  "lx_read_now os h d n s =
     (let (r, w) = os_read os (device_handle d) n (lx_world s);
          s = s\<lparr>lx_world := w\<rparr>
      in case r of
           Some bs \<Rightarrow> (Inr (int (length (take n bs)), take n bs), lx_put h (Some d) s)
         | None \<Rightarrow>
             if os_errno os w = EAGAIN \<or> os_errno os w = EINPROGRESS
             then (Inr (0, []), lx_put h (Some d) s)
             else (Inr (- 1, []),
                   lx_put h (Some (register_device_error os w (Some (errno_msg os w)) d)) s))"

definition lx_read_timeout ::
    "'w linux_os \<Rightarrow> ptr \<Rightarrow> nat \<Rightarrow> int \<Rightarrow> 'w linux_state \<Rightarrow>
     (int \<times> u8 list) res \<times> 'w linux_state" where
  "lx_read_timeout os dev n milliseconds s =
     (case lx_deref dev s of
        Inl e \<Rightarrow> (Inl e, s)
      | Inr (h, d) \<Rightarrow>
          (let d = register_device_error os (lx_world s) None d in
           if milliseconds \<ge> 0 then
             (let ((ret, revents), w) = os_poll os (device_handle d) milliseconds (lx_world s);
                  s = s\<lparr>lx_world := w\<rparr>
              in if ret = 0 then (Inr (ret, []), lx_put h (Some d) s)
                 else if ret = - 1 then
                   (Inr (ret, []),
                    lx_put h (Some (register_device_error os w (Some (errno_msg os w)) d)) s)
                 else if revents AND (POLLERR OR POLLHUP OR POLLNVAL) \<noteq> 0 then
                   (Inr (- 1, []), lx_put h (Some d) s)
                 else lx_read_now os h d n s)
           else lx_read_now os h d n s))"

definition lx_read ::
    "'w linux_os \<Rightarrow> ptr \<Rightarrow> nat \<Rightarrow> 'w linux_state \<Rightarrow> (int \<times> u8 list) res \<times> 'w linux_state" where
  "lx_read os dev n s =
     (case lx_deref dev s of
        Inl e \<Rightarrow> (Inl e, s)
      | Inr (h, d) \<Rightarrow> lx_read_timeout os dev n (if blocking d then - 1 else 0) s)"

definition lx_set_nonblocking ::
    "ptr \<Rightarrow> int \<Rightarrow> 'w linux_state \<Rightarrow> int res \<times> 'w linux_state" where
  "lx_set_nonblocking dev nonblock s =
     (case lx_deref dev s of
        Inl e \<Rightarrow> (Inl e, s)
      | Inr (h, d) \<Rightarrow> (Inr 0, lx_put h (Some (d\<lparr>blocking := (nonblock = 0)\<rparr>)) s))"

definition lx_send_feature_report ::
    "'w linux_os \<Rightarrow> ptr \<Rightarrow> u8 list \<Rightarrow> 'w linux_state \<Rightarrow> int res \<times> 'w linux_state" where
  "lx_send_feature_report os dev data s =
     (case lx_deref dev s of
        Inl e \<Rightarrow> (Inl e, s)
      | Inr (h, d) \<Rightarrow>
          (let (res, w) = os_sfeature os (device_handle d) data (lx_world s);
               d = (if res < 0
                    then register_device_error_format os w ''ioctl (SFEATURE): '' (errno_msg os w) d
                    else d)
           in (Inr res, lx_put h (Some d) (s\<lparr>lx_world := w\<rparr>))))"

text \<open>The bytes of the result are the caller's buffer after the call.\<close>

definition lx_get_feature_report ::
    "'w linux_os \<Rightarrow> ptr \<Rightarrow> u8 list \<Rightarrow> 'w linux_state \<Rightarrow>
     (int \<times> u8 list) res \<times> 'w linux_state" where
  "lx_get_feature_report os dev data s =
     (case lx_deref dev s of
        Inl e \<Rightarrow> (Inl e, s)
      | Inr (h, d) \<Rightarrow>
          (let ((res, data'), w) = os_gfeature os (device_handle d) data (lx_world s);
               d = (if res < 0
                    then register_device_error_format os w ''ioctl (GFEATURE): '' (errno_msg os w) d
                    else d)
           in (Inr (res, overwrite data 0 (take (length data) data')),
               lx_put h (Some d) (s\<lparr>lx_world := w\<rparr>))))"

definition lx_get_input_report :: "ptr \<Rightarrow> int res" where
  "lx_get_input_report dev = Inr (- 1)"

definition lx_error :: "ptr \<Rightarrow> 'w linux_state \<Rightarrow> wstr option res" where
  "lx_error dev s =
     (if dev \<noteq> None then bind_res (lx_deref dev s) (\<lambda>(_, d). Inr (last_error_str d))
      else Inr (last_global_error_str s))"

section \<open>Strings\<close>

datatype device_string_id =
    DEVICE_STRING_MANUFACTURER | DEVICE_STRING_PRODUCT | DEVICE_STRING_SERIAL | DEVICE_STRING_COUNT

fun device_string_name :: "device_string_id \<Rightarrow> string option" where
  "device_string_name DEVICE_STRING_MANUFACTURER = Some ''manufacturer''"
| "device_string_name DEVICE_STRING_PRODUCT = Some ''product''"
| "device_string_name DEVICE_STRING_SERIAL = Some ''serial''"
| "device_string_name DEVICE_STRING_COUNT = None"

text \<open>
  \<^verbatim>\<open>retm = mbstowcs(string, src, maxlen); ret = (retm == (size_t) -1) ? -1 : 0\<close> and the
  characters stored, the terminator among them where it fits. What a failed conversion stored
  before it met the invalid byte is not modelled.
\<close>

definition lx_convert ::
    "'w linux_os \<Rightarrow> 'w \<Rightarrow> nat \<Rightarrow> string option \<Rightarrow> (int \<times> u32 list) res" where
  "lx_convert os w maxlen src =
     (case src of
        None \<Rightarrow> Inl (UB Null_Pointer)
      | Some s \<Rightarrow>
          (case os_mbstowcs os w s of
             None \<Rightarrow> Inr (- 1, [])
           | Some ws \<Rightarrow> Inr (0, take maxlen (ws @ [0]))))"

text \<open>
  The body once the udev object of the device node is there. \<open>ret\<close> is the value the variable
  has at the label \<^verbatim>\<open>end\<close>.
\<close>

definition lx_device_string_of ::
    "'w linux_os \<Rightarrow> 'w \<Rightarrow> nat \<Rightarrow> device_string_id \<Rightarrow> nat \<Rightarrow> (int \<times> u32 list) res" where
  "lx_device_string_of os w rdev key maxlen =
     (case udev_from_devnum os w rdev of
        None \<Rightarrow> Inr (0, [])
      | udev_dev \<Rightarrow>
          (case udev_parent os w udev_dev ''hid'' None of
             None \<Rightarrow> Inr (0, [])
           | hid_dev \<Rightarrow>
               bind_res (parse_uevent_info (udev_sysattr os w hid_dev ''uevent'')) (\<lambda>(ok, u).
                 case ue_bus_type u of
                   None \<Rightarrow> Inl (UB Uninitialised)
                 | Some bus_type \<Rightarrow>
                     if bus_type = BUS_BLUETOOTH then
                       (case key of
                          DEVICE_STRING_MANUFACTURER \<Rightarrow> Inr (0, replicate maxlen 0)
                        | DEVICE_STRING_PRODUCT \<Rightarrow> lx_convert os w maxlen (ue_name u)
                        | DEVICE_STRING_SERIAL \<Rightarrow> lx_convert os w maxlen (ue_serial u)
                        | DEVICE_STRING_COUNT \<Rightarrow> Inr (- 1, []))
                     else
                       (case udev_parent os w udev_dev ''usb'' (Some ''usb_device'') of
                          None \<Rightarrow> Inr (of_bool ok, [])
                        | parent \<Rightarrow>
                            (case device_string_name key of
                               None \<Rightarrow> Inr (- 1, [])
                             | Some key_str \<Rightarrow>
                                 (case udev_sysattr os w parent key_str of
                                    None \<Rightarrow> Inr (of_bool ok, [])
                                  | str \<Rightarrow> lx_convert os w maxlen str))))))"

definition lx_get_device_string ::
    "'w linux_os \<Rightarrow> ptr \<Rightarrow> device_string_id \<Rightarrow> nat \<Rightarrow> 'w linux_state \<Rightarrow>
     (int \<times> u32 list) res \<times> 'w linux_state" where
  "lx_get_device_string os dev key maxlen s =
     (if \<not> udev_new_ok os (lx_world s)
      then (Inr (- 1, []), register_global_error os (Some ''Couldn't create udev context'') s)
      else case lx_deref dev s of
        Inl e \<Rightarrow> (Inl e, s)
      | Inr (h, d) \<Rightarrow>
          (case os_fstat os (device_handle d) (lx_world s) of
             None \<Rightarrow> (Inr (- 1, []), s)
           | Some rdev \<Rightarrow> (lx_device_string_of os (lx_world s) rdev key maxlen, s)))"

definition lx_get_manufacturer_string ::
    "'w linux_os \<Rightarrow> ptr \<Rightarrow> nat \<Rightarrow> 'w linux_state \<Rightarrow> (int \<times> u32 list) res \<times> 'w linux_state" where
  "lx_get_manufacturer_string os dev = lx_get_device_string os dev DEVICE_STRING_MANUFACTURER"

definition lx_get_product_string ::
    "'w linux_os \<Rightarrow> ptr \<Rightarrow> nat \<Rightarrow> 'w linux_state \<Rightarrow> (int \<times> u32 list) res \<times> 'w linux_state" where
  "lx_get_product_string os dev = lx_get_device_string os dev DEVICE_STRING_PRODUCT"

definition lx_get_serial_number_string ::
    "'w linux_os \<Rightarrow> ptr \<Rightarrow> nat \<Rightarrow> 'w linux_state \<Rightarrow> (int \<times> u32 list) res \<times> 'w linux_state" where
  "lx_get_serial_number_string os dev = lx_get_device_string os dev DEVICE_STRING_SERIAL"

definition lx_get_indexed_string :: "ptr \<Rightarrow> int res" where
  "lx_get_indexed_string dev = Inr (- 1)"

section \<open>The backend keeps the contract\<close>

definition linux_api :: "'w linux_os \<Rightarrow> 'w linux_state hid_api" where
  "linux_api os =
     \<lparr>api_enumerate = lx_enumerate os, api_open = lx_open os, api_open_path = lx_open_path os,
      api_set_nonblocking = lx_set_nonblocking, api_read = lx_read os, api_write = lx_write os,
      api_close = lx_close os, api_error = lx_error, api_errno = (\<lambda>s. os_errno os (lx_world s))\<rparr>"

definition lx_alive :: "'w linux_state \<Rightarrow> nat \<Rightarrow> bool" where
  "lx_alive s h \<longleftrightarrow> h < length (lx_heap s) \<and> lx_heap s ! h \<noteq> None"

named_theorems lx_simps \<open>what the operations do to the heap of devices\<close>

lemma lx_deref_alive: "lx_alive s h \<Longrightarrow> \<exists>d. lx_heap s ! h = Some d \<and> lx_deref (Some h) s = Inr (h, d)"
  by (auto simp: lx_alive_def lx_deref_def)

lemma lx_deref_Inr: "lx_deref p s = Inr (h, d) \<longleftrightarrow>
    p = Some h \<and> h < length (lx_heap s) \<and> lx_heap s ! h = Some d"
  by (auto simp: lx_deref_def split: option.splits)

lemma lx_alive_length: "lx_alive s h \<Longrightarrow> h < length (lx_heap s)"
  by (simp add: lx_alive_def)

lemma lx_alive_put_Some [lx_simps]:
  "lx_alive s h \<Longrightarrow> lx_alive (lx_put h (Some d) s) = lx_alive s"
  by (rule ext) (auto simp: lx_alive_def lx_put_def nth_list_update)

lemma lx_alive_put_None [lx_simps]:
  "h < length (lx_heap s) \<Longrightarrow> lx_alive (lx_put h None s) = (lx_alive s)(h := False)"
  by (rule ext) (auto simp: lx_alive_def lx_put_def nth_list_update)

lemma lx_alive_world [lx_simps]:
  "lx_alive (s\<lparr>lx_world := w\<rparr>) = lx_alive s"
  by (rule ext) (simp add: lx_alive_def)

lemma lx_alive_global_error [lx_simps]:
  "lx_alive (register_global_error os m s) = lx_alive s" "lx_alive (hid_init os s) = lx_alive s"
  "lx_heap (register_global_error os m s) = lx_heap s" "lx_heap (hid_init os s) = lx_heap s"
  by (auto simp: lx_alive_def register_global_error_def hid_init_def fun_eq_iff)

lemma lx_alive_snoc [lx_simps]:
  "lx_heap s = lx_heap s0 \<Longrightarrow> lx_alive (s\<lparr>lx_world := w, lx_heap := lx_heap s0 @ [Some d]\<rparr>) =
     (lx_alive s0)(length (lx_heap s0) := True)"
  by (rule ext) (auto simp: lx_alive_def nth_append)

lemma lx_alive_fresh: "\<not> lx_alive s (length (lx_heap s))"
  by (simp add: lx_alive_def)

lemma lx_open_path_effect:
  assumes "lx_open_path os path s = (r, s')"
  shows "(\<exists>h. r = Inr (Some h) \<and> h = length (lx_heap s) \<and> lx_alive s' = (lx_alive s)(h := True)) \<or>
    (\<forall>h. r \<noteq> Inr (Some h)) \<and> lx_alive s' = lx_alive s"
  using assms
  by (auto simp: lx_open_path_def Let_def lx_simps split: prod.splits sum.splits if_splits)

lemma lx_enumerate_alive: "lx_enumerate os v p s = (r, s') \<Longrightarrow> lx_alive s' = lx_alive s \<and> lx_heap s' = lx_heap s"
  by (auto simp: lx_enumerate_def Let_def lx_simps split: if_splits)

lemma lx_open_effect:
  assumes "lx_open os v p sn s = (r, s')"
  shows "(\<exists>h. r = Inr (Some h) \<and> \<not> lx_alive s h \<and> lx_alive s' = (lx_alive s)(h := True)) \<or>
    (\<forall>h. r \<noteq> Inr (Some h)) \<and> lx_alive s' = lx_alive s"
proof -
  let ?s0 = "register_global_error os None s"
  obtain devs s1 where e: "lx_enumerate os v p ?s0 = (devs, s1)" by fastforce
  have a1: "lx_alive s1 = lx_alive s" "lx_heap s1 = lx_heap s"
    using lx_enumerate_alive [OF e] by (simp_all add: lx_simps)
  show ?thesis
    using assms lx_open_path_effect [of os _ s1 r s'] e a1 lx_alive_fresh [of s]
    by (auto simp: lx_open_def Let_def lx_simps split: sum.splits option.splits)
qed

lemma lx_read_alive:
  assumes "lx_alive s h" "lx_read os (Some h) n s = (rr, s')"
  shows "(\<exists>k bs. rr = Inr (k, bs) \<and> (k = - 1 \<and> bs = [] \<or> k = int (length bs)) \<and> length bs \<le> n)
    \<and> lx_alive s' = lx_alive s"
proof -
  obtain d where d: "lx_deref (Some h) s = Inr (h, d)" using lx_deref_alive [OF assms(1)] by blast
  have now: "(\<exists>k bs. fst (lx_read_now os h d' n s1) = Inr (k, bs) \<and>
      (k = - 1 \<and> bs = [] \<or> k = int (length bs)) \<and> length bs \<le> n)
      \<and> lx_alive (snd (lx_read_now os h d' n s1)) = lx_alive s1" if "lx_alive s1 h" for d' s1
    using that by (auto simp: lx_read_now_def Let_def lx_simps split: prod.split option.split)
  show ?thesis
    using assms d now [of s] now [of "s\<lparr>lx_world := w\<rparr>" for w]
    by (auto simp: lx_read_def lx_read_timeout_def Let_def lx_simps split: prod.splits if_splits)
      (metis fst_conv snd_conv)+
qed

interpretation lx: returning_backend "linux_api os" lx_alive for os :: "'w linux_os"
proof
  fix v p and s s' :: "'w linux_state" and rl
  assume "api_enumerate (linux_api os) v p s = (rl, s')"
  then show "lx_alive s' = lx_alive s"
    using lx_enumerate_alive [of os v p s] by (auto simp: linux_api_def)
next
  fix v p sn and s s' :: "'w linux_state" and h
  assume "api_open (linux_api os) v p sn s = (Inr (Some h), s')"
  then show "lx_alive s' h \<and> \<not> lx_alive s h"
    using lx_open_effect [of os v p sn s] by (auto simp: linux_api_def)
next
  fix path and s s' :: "'w linux_state" and h
  assume "api_open_path (linux_api os) path s = (Inr (Some h), s')"
  then show "lx_alive s' h \<and> \<not> lx_alive s h"
    using lx_open_path_effect [of os path s] lx_alive_fresh [of s] by (auto simp: linux_api_def)
next
  fix v p sn and s s' :: "'w linux_state" and r k
  assume "api_open (linux_api os) v p sn s = (r, s')" "lx_alive s k"
  then show "lx_alive s' k"
    using lx_open_effect [of os v p sn s] by (auto simp: linux_api_def)
next
  fix path and s s' :: "'w linux_state" and r k
  assume "api_open_path (linux_api os) path s = (r, s')" "lx_alive s k"
  then show "lx_alive s' k"
    using lx_open_path_effect [of os path s] by (auto simp: linux_api_def)
next
  fix s s' :: "'w linux_state" and h b ri
  assume "lx_alive s h" "api_set_nonblocking (linux_api os) (Some h) b s = (ri, s')"
  then show "ri = Inr 0 \<and> lx_alive s' = lx_alive s"
    using lx_deref_alive [of s h] by (auto simp: linux_api_def lx_set_nonblocking_def lx_simps)
next
  fix s s' :: "'w linux_state" and h n rr
  assume "lx_alive s h" "api_read (linux_api os) (Some h) n s = (rr, s')"
  then show "(rr = Inl Deadlock \<or>
        (\<exists>k bs. rr = Inr (k, bs) \<and> (k = - 1 \<and> bs = [] \<or> k = int (length bs)) \<and> length bs \<le> n))
       \<and> lx_alive s' = lx_alive s" "rr \<noteq> Inl Deadlock"
    using lx_read_alive [of s h os n rr s'] by (auto simp: linux_api_def)
next
  fix s s' :: "'w linux_state" and h data ri
  assume "lx_alive s h" "data \<noteq> []" "api_write (linux_api os) (Some h) data s = (ri, s')"
  then show "(\<exists>k. ri = Inr k \<and> - 1 \<le> k) \<and> lx_alive s' = lx_alive s"
    using lx_deref_alive [of s h]
    by (auto simp: linux_api_def lx_write_def Let_def lx_simps split: prod.splits option.splits)
next
  fix s s' :: "'w linux_state" and h ru
  assume "lx_alive s h" "api_close (linux_api os) (Some h) s = (ru, s')"
  then show "if ru = Inr () then lx_alive s' = (lx_alive s)(h := False) else \<exists>e. ru = Inl e \<and> \<not> cpp_exception e"
    using lx_deref_alive [of s h]
    by (auto simp: linux_api_def lx_close_def Let_def lx_simps lx_alive_length split: prod.splits)
next
  fix s :: "'w linux_state" and h
  assume "lx_alive s h"
  then show "\<exists>e. api_error (linux_api os) (Some h) s = Inr e"
    using lx_deref_alive [of s h] by (auto simp: linux_api_def lx_error_def)
qed

interpretation lxc: closing_backend "linux_api os" lx_alive "\<lambda>_ _. True" for os :: "'w linux_os"
proof
  fix s :: "'w linux_state" and h
  assume "lx_alive s h"
  then show "\<exists>s'. api_close (linux_api os) (Some h) s = (Inr (), s')"
    using lx_deref_alive [of s h] by (auto simp: linux_api_def lx_close_def Let_def split: prod.split)
qed

end
