(* ===== verification/Linux_Correct.thy ===== *)
theory Linux_Correct
  imports Linux_Hid
begin

text \<open>
  What the linux backend guarantees, and where it does not do what \<^verbatim>\<open>hidapi.h\<close> says: the
  search and the opening of a device, the detection of numbered reports, the non-blocking
  read, and the string functions.
\<close>

section \<open>Enumeration\<close>

lemma lx_bus_fields_keeps:
  "lx_bus_fields os w raw b nm d0 = Some d \<Longrightarrow> di_serial_number d = di_serial_number d0 \<and>
     di_vendor_id d = di_vendor_id d0 \<and> di_product_id d = di_product_id d0"
  by (auto simp: lx_bus_fields_def Let_def split: if_splits option.splits)

definition record_ok :: "u16 \<Rightarrow> u16 \<Rightarrow> dev_info \<Rightarrow> bool" where
  "record_ok vid pid d \<longleftrightarrow>
     di_serial_number d \<noteq> None \<and> id_matches vid pid (di_vendor_id d) (di_product_id d)"

lemma lx_enum_entry_record:
  assumes "lx_enum_entry os w vid pid p = Inr (Some d)"
  shows "record_ok vid pid d"
  using assms
  by (auto simp: lx_enum_entry_def Let_def bind_res_eq_Inr utf8_to_wchar_t_def record_ok_def
      split: option.splits if_splits dest!: lx_bus_fields_keeps dest: parse_uevent_stored(4))

lemma lx_enum_entry_safe:
  assumes "\<And>d. udev_parent os w d ''hid'' None \<noteq> None \<Longrightarrow>
    udev_sysattr os w (udev_parent os w d ''hid'' None) ''uevent'' \<noteq> None"
  shows "\<exists>r. lx_enum_entry os w vid pid p = Inr r"
proof (cases "udev_parent os w (udev_from_syspath os w p) ''hid'' None")
  case None
  then show ?thesis by (simp add: lx_enum_entry_def Let_def)
next
  case (Some hd)
  obtain t where t: "udev_sysattr os w (Some hd) ''uevent'' = Some t"
    using assms [of "udev_from_syspath os w p"] Some by auto
  obtain ok u where p: "parse_uevent_info (Some t) = Inr (ok, u)"
    by (auto simp: parse_uevent_info_def Let_def)
  show ?thesis
  proof (cases ok)
    case True
    then obtain b v i where "ue_bus_type u = Some b" "ue_vendor_id u = Some v" "ue_product_id u = Some i"
      using parse_uevent_stored [of "Some t" u] p by auto
    then show ?thesis using Some t p True by (simp add: lx_enum_entry_def Let_def)
  next
    case False
    then show ?thesis using Some t p by (simp add: lx_enum_entry_def Let_def)
  qed
qed

lemma lx_enum_loop_records:
  assumes "lx_enum_loop os w vid pid ps root = Inr ds" "list_all (record_ok vid pid) root"
  shows "list_all (record_ok vid pid) ds"
  using assms
proof (induction ps arbitrary: root)
  case (Cons p ps)
  obtain r where r: "lx_enum_entry os w vid pid p = Inr r"
    "lx_enum_loop os w vid pid ps (case r of None \<Rightarrow> root | Some d \<Rightarrow> root @ [d]) = Inr ds"
    using Cons.prems(1) by (auto simp: bind_res_eq_Inr)
  show ?case
  proof (cases r)
    case None
    then show ?thesis using Cons.IH Cons.prems(2) r(2) by simp
  next
    case (Some d)
    then show ?thesis
      using Cons.IH [of "root @ [d]"] Cons.prems(2) r lx_enum_entry_record [of os w vid pid p d] by simp
  qed
qed simp

lemma lx_enumerate_records:
  assumes "lx_enumerate os vid pid s = (Inr ds, s')" "d \<in> set ds"
  shows "di_serial_number d \<noteq> None" "id_matches vid pid (di_vendor_id d) (di_product_id d)"
  using assms lx_enum_loop_records [of os _ vid pid _ "[]" ds]
  by (auto simp: lx_enumerate_def Let_def record_ok_def list_all_iff split: if_splits)

section \<open>A machine with two devices\<close>

text \<open>
  A concrete system for the examples: two hidraw nodes, a Ledger on USB with ids 2c97:0001
  and a keyboard on Bluetooth. The world is the descriptor \<^verbatim>\<open>open\<close> gives next and the
  log of descriptors closed.
\<close>

definition demo_uevent :: "nat \<Rightarrow> (string \<times> string) list" where
  "demo_uevent n =
     (if n = 3 then [(''HID_ID'', hid_id_value 3 0x2c97 1), (''HID_NAME'', ''Nano''), (''HID_UNIQ'', ''7'')]
      else [(''HID_NAME'', ''K''), (''HID_UNIQ'', ''8'')])"

text \<open>A packet of the Ledger: 20 bytes of data and the status 0x9000.\<close>

definition demo_answer :: "u8 list" where
  "demo_answer = [1, 1, 5, 0, 0, 0, 22] @ replicate 20 7 @ [0x90, 0] @ replicate 35 0"

definition demo_os :: "(int \<times> int list) linux_os" where
  "demo_os =
     \<lparr>os_open = (\<lambda>p w. (fst w, w)),
      os_close = (\<lambda>fd w. (0, (fst w, snd w @ [fd]))),
      os_read = (\<lambda>fd n w. (Some (if n = 64 then demo_answer else [1, 2, 3]), w)),
      os_write = (\<lambda>fd bs w. (Some (length bs), w)),
      os_poll = (\<lambda>fd ms w. ((1, 1), w)),
      os_grdescsize = (\<lambda>fd w. (Some 4, w)),
      os_grdesc = (\<lambda>fd n w. (Some [0x05, 0x85, 0x85, 0x01], w)),
      os_sfeature = (\<lambda>fd bs w. (int (length bs), w)),
      os_gfeature = (\<lambda>fd bs w. ((int (length bs), bs), w)),
      os_fstat = (\<lambda>fd w. Some 3),
      os_errno = (\<lambda>w. 0), os_strerror = (\<lambda>e. ''Success''),
      os_mbstowcs = (\<lambda>w s. Some (map (\<lambda>c. of_nat (of_char c)) s)),
      os_locale_set = (\<lambda>w. True), os_setlocale = (\<lambda>w. w),
      udev_new_ok = (\<lambda>w. True), udev_scan = (\<lambda>w. [''b'', ''a'']),
      udev_from_syspath = (\<lambda>w p. Some (if p = ''a'' then 3 else 2)),
      udev_from_devnum = (\<lambda>w n. Some n),
      udev_devnode = (\<lambda>w d. Some ''hidraw0''),
      udev_parent = (\<lambda>w d sub ty. if ty = Some ''usb_interface'' then None else d),
      udev_sysattr = (\<lambda>w d k. if k = ''uevent'' then Some (uevent_text (demo_uevent (the d))) else None)\<rparr>"

definition demo_state :: "int \<Rightarrow> (int \<times> int list) linux_state" where
  "demo_state fd = \<lparr>lx_world = (fd, []), lx_heap = [], last_global_error_str = None\<rparr>"

lemma demo_uevent_wf: "uevent_wf (demo_uevent n)"
  by (simp add: demo_uevent_def uevent_wf_def hid_id_value_no_nl)

lemma demo_uevent_keyboard: "parse_uevent_info (Some (uevent_text (demo_uevent 2))) =
   Inr (False, \<lparr>ue_bus_type = None, ue_vendor_id = None, ue_product_id = None, ue_serial = Some ''8'',
     ue_name = Some ''K'', found_id = False, found_serial = True, found_name = True\<rparr>)"
  unfolding parse_uevent_info_def option.case uevent_lines_text [OF demo_uevent_wf] Let_def
  by (simp add: demo_uevent_def uevent_key_def uevent_init_def)

lemma demo_uevent_nano: "parse_uevent_info (Some (uevent_text (demo_uevent 3))) =
   Inr (True, \<lparr>ue_bus_type = Some 3, ue_vendor_id = Some 0x2c97, ue_product_id = Some 1,
     ue_serial = Some ''7'', ue_name = Some ''Nano'', found_id = True, found_serial = True,
     found_name = True\<rparr>)"
  unfolding parse_uevent_info_def option.case uevent_lines_text [OF demo_uevent_wf] Let_def
  by (simp add: demo_uevent_def uevent_key_def uevent_init_def sscanf_hid_id)

definition demo_nano :: dev_info where
  "demo_nano = \<lparr>di_path = Some ''hidraw0'', di_vendor_id = 0x2c97, di_product_id = 1,
     di_serial_number = Some [55], di_release_number = 0, di_manufacturer_string = None,
     di_product_string = None, di_usage_page = 0, di_usage = 0, di_interface_number = - 1\<rparr>"

lemma demo_enumerate:
  "lx_enumerate demo_os vid pid s = (Inr (if id_matches vid pid 0x2c97 1 then [demo_nano] else []), s)"
  by (simp add: lx_enumerate_def hid_init_def demo_os_def lx_enum_entry_def Let_def
      demo_uevent_keyboard demo_uevent_nano BUS_USB_def BUS_BLUETOOTH_def demo_nano_def
      lx_bus_fields_def calloc_dev_info_def copy_udev_string_def utf8_to_wchar_t_def)

lemma demo_numbered:
  "uses_numbered_reports (overwrite (replicate 4096 0) 0 [0x05, 0x85, 0x85, 0x01]) 4 = Some (Inr True)"
  using unr_loop_spec [of 4 "overwrite (replicate 4096 0) 0 [0x05, 0x85, 0x85, 0x01]" 0]
  by (simp add: uses_numbered_reports_def overwrite_0 item_keys.simps item_skip_def short_data_len_def)

definition demo_device :: lx_device where
  "demo_device = \<lparr>device_handle = 3, blocking = True, numbered = True, last_error_str = None\<rparr>"

lemma demo_open_path:
  "lx_world s = (3, cl) \<Longrightarrow> lx_open_path demo_os p s =
     (Inr (Some (length (lx_heap s))),
      s\<lparr>lx_heap := lx_heap s @ [Some demo_device], last_global_error_str := None\<rparr>)"
  using demo_numbered
  by (cases s) (simp add: lx_open_path_def demo_os_def hid_init_def register_global_error_def
      utf8_to_wchar_t_def lx_read_descriptor_def new_hid_device_def register_device_error_def
      c_memcpy_def lx_numbered_def demo_device_def)

lemma demo_open_ids:
  "lx_world s = (3, cl) \<Longrightarrow> lx_open demo_os 0x2c97 1 None s =
     (Inr (Some (length (lx_heap s))),
      s\<lparr>lx_heap := lx_heap s @ [Some demo_device], last_global_error_str := None\<rparr>)"
  by (simp add: lx_open_def demo_enumerate id_matches_def demo_nano_def demo_open_path
      register_global_error_def utf8_to_wchar_t_def)

section \<open>What the enumeration lists\<close>

text \<open>
  A hidraw node described by what the kernel says of it: the bus and the ids, the name, the
  serial number, and the lines of its uevent text, which may hold other keys as well.
\<close>

record lx_node =
  nd_bus :: u16
  nd_vid :: u32
  nd_pid :: u32
  nd_name :: string
  nd_serial :: string
  nd_lines :: "(string \<times> string) list"

definition lx_describes :: "'w linux_os \<Rightarrow> 'w \<Rightarrow> string \<Rightarrow> lx_node \<Rightarrow> bool" where
  "lx_describes os w p nd \<longleftrightarrow>
     (\<exists>hd. udev_parent os w (udev_from_syspath os w p) ''hid'' None = Some hd \<and>
        udev_sysattr os w (Some hd) ''uevent'' = Some (uevent_text (nd_lines nd))) \<and>
     uevent_wf (nd_lines nd) \<and> distinct (map fst (nd_lines nd)) \<and>
     map_of (nd_lines nd) ''HID_ID'' = Some (hid_id_value (nd_bus nd) (nd_vid nd) (nd_pid nd)) \<and>
     map_of (nd_lines nd) ''HID_NAME'' = Some (nd_name nd) \<and>
     map_of (nd_lines nd) ''HID_UNIQ'' = Some (nd_serial nd)"

definition lx_usb_parent :: "'w linux_os \<Rightarrow> 'w \<Rightarrow> string \<Rightarrow> ptr" where
  "lx_usb_parent os w p = udev_parent os w (udev_from_syspath os w p) ''usb'' (Some ''usb_device'')"

definition lx_lists :: "'w linux_os \<Rightarrow> 'w \<Rightarrow> u16 \<Rightarrow> u16 \<Rightarrow> string \<Rightarrow> lx_node \<Rightarrow> bool" where
  "lx_lists os w vid pid p nd \<longleftrightarrow>
     (nd_bus nd = 3 \<and> lx_usb_parent os w p \<noteq> None \<or> nd_bus nd = 5) \<and>
     id_matches vid pid (ucast (nd_vid nd)) (ucast (nd_pid nd))"

text \<open>A hexadecimal attribute, as the last argument of \<open>number\<close> when it is missing.\<close>

definition lx_number :: "'w linux_os \<Rightarrow> 'w \<Rightarrow> ptr \<Rightarrow> string \<Rightarrow> int \<Rightarrow> int" where
  "lx_number os w dev attr dflt =
     (case udev_sysattr os w dev attr of None \<Rightarrow> dflt | Some str \<Rightarrow> strtol16 str)"

definition lx_listed :: "'w linux_os \<Rightarrow> 'w \<Rightarrow> string \<Rightarrow> lx_node \<Rightarrow> dev_info" where
  "lx_listed os w p nd =
     (let raw = udev_from_syspath os w p;
          usb = lx_usb_parent os w p;
          intf = udev_parent os w raw ''usb'' (Some ''usb_interface'');
          text = utf8_to_wchar_t os w;
          is_usb = (nd_bus nd = 3)
      in \<lparr>di_path = udev_devnode os w raw,
          di_vendor_id = ucast (nd_vid nd), di_product_id = ucast (nd_pid nd),
          di_serial_number = text (Some (nd_serial nd)),
          di_release_number = (if is_usb then word_of_int (lx_number os w usb ''bcdDevice'' 0) else 0),
          di_manufacturer_string =
            (if is_usb then text (udev_sysattr os w usb ''manufacturer'') else Some []),
          di_product_string =
            text (if is_usb then udev_sysattr os w usb ''product'' else Some (nd_name nd)),
          di_usage_page = 0, di_usage = 0,
          di_interface_number =
            (if is_usb \<and> intf \<noteq> None
             then sint (word_of_int (lx_number os w intf ''bInterfaceNumber'' (- 1)) :: u32) else - 1)\<rparr>)"

lemma parse_uevent_described:
  assumes "lx_describes os w p nd"
  shows "\<exists>hd u. udev_parent os w (udev_from_syspath os w p) ''hid'' None = Some hd \<and>
    parse_uevent_info (udev_sysattr os w (Some hd) ''uevent'') = Inr (True, u) \<and>
    ue_name u = Some (nd_name nd) \<and> ue_serial u = Some (nd_serial nd) \<and>
    ue_bus_type u = Some (ucast (nd_bus nd)) \<and> ue_vendor_id u = Some (ucast (nd_vid nd)) \<and>
    ue_product_id u = Some (ucast (nd_pid nd))"
proof -
  have dom: "{''HID_ID'', ''HID_NAME'', ''HID_UNIQ''} \<subseteq> dom (map_of (nd_lines nd))"
    using assms by (auto simp: lx_describes_def)
  show ?thesis
    using assms parse_uevent_ids [of "nd_lines nd" "nd_bus nd" "nd_vid nd" "nd_pid nd"] dom
    by (fastforce simp: lx_describes_def)
qed

lemma bus_number [simp]:
  "(ucast (b :: u16) :: u32) = 3 \<longleftrightarrow> b = 3" "(ucast (b :: u16) :: u32) = 5 \<longleftrightarrow> b = 5"
  by (transfer; simp)+

lemma lx_enum_entry_described:
  assumes "lx_describes os w p nd"
  shows "lx_enum_entry os w vid pid p =
    Inr (if lx_lists os w vid pid p nd then Some (lx_listed os w p nd) else None)"
proof -
  obtain hd u where u: "udev_parent os w (udev_from_syspath os w p) ''hid'' None = Some hd"
    "parse_uevent_info (udev_sysattr os w (Some hd) ''uevent'') = Inr (True, u)"
    "ue_name u = Some (nd_name nd)" "ue_serial u = Some (nd_serial nd)"
    "ue_bus_type u = Some (ucast (nd_bus nd))" "ue_vendor_id u = Some (ucast (nd_vid nd))"
    "ue_product_id u = Some (ucast (nd_pid nd))"
    using parse_uevent_described [OF assms] by blast
  consider "nd_bus nd = 3" | "nd_bus nd = 5" | "nd_bus nd \<noteq> 3" "nd_bus nd \<noteq> 5" by blast
  then show ?thesis
  proof cases
    case 1
    then show ?thesis
      using u by (auto simp: lx_enum_entry_def Let_def lx_lists_def lx_listed_def lx_bus_fields_def
          lx_usb_parent_def lx_number_def BUS_USB_def BUS_BLUETOOTH_def copy_udev_string_def
          calloc_dev_info_def split: option.split)
  qed (use u in \<open>auto simp: lx_enum_entry_def Let_def lx_lists_def lx_listed_def lx_bus_fields_def
          BUS_USB_def BUS_BLUETOOTH_def calloc_dev_info_def utf8_to_wchar_t_def\<close>)
qed

lemma lx_enum_loop_described:
  assumes "\<forall>p \<in> set ps. lx_describes os w p (nd p)"
  shows "lx_enum_loop os w vid pid ps root =
    Inr (root @ map (\<lambda>p. lx_listed os w p (nd p)) (filter (\<lambda>p. lx_lists os w vid pid p (nd p)) ps))"
  using assms
proof (induction ps arbitrary: root)
  case (Cons p ps)
  then show ?case using lx_enum_entry_described [of os w p "nd p" vid pid] by simp
qed simp

section \<open>Properties\<close>

text \<open>
  C19. \<^verbatim>\<open>hid_enumerate\<close> lists, in the order of the scan, exactly the hidraw nodes whose bus
  is USB (with a USB parent node) or Bluetooth and whose ids pass the filter, each with the
  device node, the low 16 bits of its ids, its serial number, and the strings, the release and
  the interface number that its bus decides.
\<close>

theorem lx_enumerate_complete:
  assumes "w = lx_world (hid_init os s)" "udev_new_ok os w"
    and "\<forall>p \<in> set (udev_scan os w). lx_describes os w p (nd p)"
  shows "lx_enumerate os vid pid s =
    (Inr (map (\<lambda>p. lx_listed os w p (nd p))
           (filter (\<lambda>p. lx_lists os w vid pid p (nd p)) (udev_scan os w))), hid_init os s)"
  using assms lx_enum_loop_described [OF assms(3), of vid pid "[]"]
  by (simp add: lx_enumerate_def Let_def)

theorem lx_enumerate_complete_witness:
  "lx_enumerate (demo_os\<lparr>udev_scan := \<lambda>w. [''a'']\<rparr>) 0x2c97 0 (demo_state 3) =
     (Inr [demo_nano], demo_state 3)"
proof -
  define nd where "nd = \<lparr>nd_bus = 3, nd_vid = 0x2c97, nd_pid = 1, nd_name = ''Nano'', nd_serial = ''7'',
    nd_lines = demo_uevent 3\<rparr>"
  let ?os = "demo_os\<lparr>udev_scan := \<lambda>w. [''a'']\<rparr>"
  have d: "lx_describes ?os (3, []) ''a'' nd"
    using demo_uevent_wf [of 3] by (simp add: nd_def lx_describes_def demo_os_def demo_uevent_def)
  have l: "lx_lists ?os (3, []) 0x2c97 0 ''a'' nd" "lx_listed ?os (3, []) ''a'' nd = demo_nano"
    by (simp_all add: nd_def lx_lists_def lx_listed_def demo_os_def demo_nano_def id_matches_def
        lx_usb_parent_def lx_number_def utf8_to_wchar_t_def)
  show ?thesis
    using lx_enumerate_complete [of "(3, [])" ?os "demo_state 3" "\<lambda>_. nd" "0x2c97" 0] d l
    by (simp add: hid_init_def demo_os_def demo_state_def)
qed

text \<open>
  \<^verbatim>\<open>hid_enumerate\<close> has no undefined behaviour when every HID node has its uevent
  attribute: in particular the bus and the ids, locals without an initial value, are read only
  after \<^verbatim>\<open>parse_uevent_info\<close> stored to them. Each record it returns passed the filter on the
  ids and carries a serial number, and the devices already open stay as they are.
\<close>

theorem lx_enumerate_correct:
  assumes "\<And>w d. udev_parent os w d ''hid'' None \<noteq> None \<Longrightarrow>
    udev_sysattr os w (udev_parent os w d ''hid'' None) ''uevent'' \<noteq> None"
  shows "\<exists>ds s'. lx_enumerate os vid pid s = (Inr ds, s') \<and> lx_heap s' = lx_heap s \<and>
    (\<forall>d \<in> set ds. di_serial_number d \<noteq> None \<and>
       id_matches vid pid (di_vendor_id d) (di_product_id d))"
proof -
  have loop: "\<exists>ds. lx_enum_loop os w vid pid ps root = Inr ds" for w ps root
  proof (induction ps arbitrary: root)
    case (Cons p ps)
    obtain r where "lx_enum_entry os w vid pid p = Inr r"
      using lx_enum_entry_safe [OF assms] by blast
    then show ?case using Cons.IH by simp
  qed simp
  obtain ds s' where e: "lx_enumerate os vid pid s = (Inr ds, s')"
    using loop by (fastforce simp: lx_enumerate_def Let_def)
  then show ?thesis
    using lx_enumerate_alive [OF e] lx_enumerate_records [OF e] by blast
qed

theorem lx_enumerate_correct_witness:
  "\<exists>ds s'. lx_enumerate demo_os 0x2c97 0 (demo_state 3) = (Inr ds, s') \<and> lx_heap s' = [] \<and>
    (\<forall>d \<in> set ds. di_serial_number d \<noteq> None \<and>
       id_matches 0x2c97 0 (di_vendor_id d) (di_product_id d))"
  using lx_enumerate_correct [of demo_os "0x2c97" 0 "demo_state 3"]
  by (simp add: demo_os_def demo_state_def)

text \<open>
  C22. \<^verbatim>\<open>hid_open\<close> opens the first enumerated device with the ids and the serial number asked
  for, through its path, and reports \<^verbatim>\<open>No such device\<close> if there is none or it has no device
  node. Its comparison of serial numbers does not check \<^verbatim>\<open>cur_dev->serial_number\<close> for null
  and need not: every record \<^verbatim>\<open>hid_enumerate\<close> makes carries one, so the search itself has no
  undefined behaviour.
\<close>

theorem lx_open_first_match:
  assumes "lx_enumerate os vid pid (register_global_error os None s) = (Inr ds, s1)"
  shows "lx_open os vid pid serial s =
    (case List.find (wanted vid pid serial) ds of
       Some d \<Rightarrow>
         (case di_path d of
            Some p \<Rightarrow> lx_open_path os (Some p) s1
          | None \<Rightarrow> (Inr None, register_global_error os (Some ''No such device'') s1))
     | None \<Rightarrow> (Inr None, register_global_error os (Some ''No such device'') s1))"
proof -
  have "\<forall>d \<in> set ds. di_serial_number d \<noteq> None" using lx_enumerate_records [OF assms] by blast
  then show ?thesis
    using assms lx_search.find_path_first [of serial ds vid pid]
    by (auto simp: lx_open_def split: option.splits)
qed

theorem lx_open_first_match_witness:
  "fst (lx_open demo_os 0x2c97 1 (Some [55]) (demo_state 3)) = Inr (Some 0)"
  using lx_open_first_match [of demo_os "0x2c97" 1 "demo_state 3", OF demo_enumerate, of "Some [55]"]
  by (simp add: wanted_def demo_nano_def id_matches_def demo_state_def register_global_error_def
      demo_open_path)

text \<open>
  \<^verbatim>\<open>hid_open_path\<close> on a node that opens with a descriptor above 0 and delivers a report
  descriptor of the announced size allocates one new handle, in blocking mode and without an
  error message, and records in it whether the report descriptor has a Report ID item.
\<close>

theorem lx_open_path_numbered:
  assumes "os_open os path (lx_world (hid_init os (register_global_error os None s))) = (fd, w1)"
    and "0 < fd" and "os_grdescsize os fd w1 = (Some n, w2)"
    and "os_grdesc os fd n w2 = (Some bs, w3)"
    and "unat n = length bs" and "length bs \<le> 4096"
  shows "\<exists>s'. lx_open_path os path s = (Inr (Some (length (lx_heap s))), s') \<and>
    lx_heap s' = lx_heap s @ [Some \<lparr>device_handle = fd, blocking = True,
      numbered = (0x85 \<in> set (item_keys bs)), last_error_str = None\<rparr>] \<and>
    lx_world s' = w3 \<and> last_global_error_str s' = None"
proof -
  let ?rd = "overwrite (replicate 4096 0) 0 bs"
  have rd: "take (length bs) ?rd = bs" "length ?rd = 4096"
    using assms(6) by (simp_all add: overwrite_0)
  have "uses_numbered_reports ?rd n = Some (Inr (0x85 \<in> set (item_keys bs)))"
    using unr_loop_spec [of "unat n" ?rd 0] assms(5,6) rd
    by (simp add: uses_numbered_reports_def)
  then show ?thesis
    using assms
    by (simp add: lx_open_path_def lx_read_descriptor_def c_memcpy_def lx_numbered_def Let_def
        register_device_error_def new_hid_device_def utf8_to_wchar_t_def lx_simps)
      (simp add: register_global_error_def hid_init_def utf8_to_wchar_t_def)
qed

theorem lx_open_path_numbered_witness:
  "\<exists>s'. lx_open_path demo_os (Some ''hidraw0'') (demo_state 3) = (Inr (Some 0), s') \<and>
    lx_heap s' = [Some \<lparr>device_handle = 3, blocking = True,
      numbered = (0x85 \<in> set (item_keys [0x05, 0x85, 0x85, 0x01])), last_error_str = None\<rparr>]"
  using lx_open_path_numbered [of demo_os "Some ''hidraw0''" "demo_state 3" 3 "(3, [])" 4 "(3, [])"
      "[0x05, 0x85, 0x85, 0x01]" "(3, [])"]
  by (simp add: demo_os_def demo_state_def hid_init_def register_global_error_def) blast

text \<open>
  \<^verbatim>\<open>hid_open_path\<close> tests the descriptor with \<^verbatim>\<open>> 0\<close>, so descriptor 0, a valid result of
  \<^verbatim>\<open>open\<close>, is reported as a failure, with the text of a stale \<^verbatim>\<open>errno\<close>, and is never closed:
  the device stays open behind the caller's back.
\<close>

theorem lx_open_path_fd_zero:
  assumes "os_open os path (lx_world (hid_init os (register_global_error os None s))) = (0, w1)"
  shows "\<exists>s'. lx_open_path os path s = (Inr None, s') \<and> lx_heap s' = lx_heap s \<and>
    lx_world s' = w1 \<and>
    last_global_error_str s' = utf8_to_wchar_t os w1 (Some (os_strerror os (os_errno os w1)))"
  using assms
  by (simp add: lx_open_path_def Let_def lx_simps errno_msg_def)
    (simp add: register_global_error_def hid_init_def)

theorem lx_open_path_fd_zero_witness:
  "\<exists>s'. lx_open_path demo_os (Some ''hidraw0'') (demo_state 0) = (Inr None, s') \<and>
    lx_heap s' = [] \<and> lx_world s' = (0, [])"
  using lx_open_path_fd_zero [of demo_os "Some ''hidraw0''" "demo_state 0" "(0, [])"]
  by (fastforce simp: demo_os_def demo_state_def hid_init_def register_global_error_def)

lemma lx_read_nonblocking_facts:
  assumes "lx_alive s h" and "nonblock \<noteq> 0"
    and "lx_set_nonblocking (Some h) nonblock s = (ok, s1)"
    and "lx_deref (Some h) s = Inr (h, d)"
    and "os_poll os (device_handle d) 0 (lx_world s) = ((ret, revents), w1)"
  shows "ok = Inr 0"
    "fst (lx_read os (Some h) n s1) =
      (if ret = 0 then Inr (0, [])
       else if ret = - 1 \<or> revents AND 0x38 \<noteq> 0 then Inr (- 1, [])
       else case os_read os (device_handle d) n w1 of
         (Some bs, _) \<Rightarrow> Inr (int (length (take n bs)), take n bs)
       | (None, w2) \<Rightarrow> Inr (if os_errno os w2 \<in> {11, 115} then 0 else - 1, []))"
proof -
  let ?d = "d\<lparr>blocking := False\<rparr>"
  have h: "h < length (lx_heap s)" using assms(1) by (rule lx_alive_length)
  have s1: "ok = Inr 0" "s1 = lx_put h (Some ?d) s"
    using assms(2,3,4) by (simp_all add: lx_set_nonblocking_def)
  then show "ok = Inr 0" by simp
  have "lx_deref (Some h) s1 = Inr (h, ?d)" "lx_world s1 = lx_world s"
    using h s1 by (simp_all add: lx_deref_def lx_put_def)
  moreover have "(POLLERR OR POLLHUP OR POLLNVAL) = 0x38"
    by (simp add: POLLERR_def POLLHUP_def POLLNVAL_def)
  ultimately show "fst (lx_read os (Some h) n s1) =
      (if ret = 0 then Inr (0, [])
       else if ret = - 1 \<or> revents AND 0x38 \<noteq> 0 then Inr (- 1, [])
       else case os_read os (device_handle d) n w1 of
         (Some bs, _) \<Rightarrow> Inr (int (length (take n bs)), take n bs)
       | (None, w2) \<Rightarrow> Inr (if os_errno os w2 \<in> {11, 115} then 0 else - 1, []))"
    using assms(5)
    by (simp add: lx_read_def lx_read_timeout_def lx_read_now_def register_device_error_def Let_def
        EAGAIN_def EINPROGRESS_def split: prod.split option.split)
qed

text \<open>
  A handle in non-blocking mode never enters a \<^verbatim>\<open>read\<close> that could block: every read first
  polls with a timeout of 0, returns 0 if nothing is there, and -1 if the poll fails or
  reports a disconnection; only then it reads, gives the bytes of the report, at most as many
  as asked for, and maps \<^verbatim>\<open>EAGAIN\<close> and \<^verbatim>\<open>EINPROGRESS\<close> to 0 and any other error to -1.
\<close>

theorem lx_read_nonblocking:
  assumes "lx_alive s h" and "nonblock \<noteq> 0"
    and "lx_set_nonblocking (Some h) nonblock s = (ok, s1)"
    and "lx_deref (Some h) s = Inr (h, d)"
    and "os_poll os (device_handle d) 0 (lx_world s) = ((ret, revents), w1)"
  shows "ok = Inr 0 \<and> fst (lx_read os (Some h) n s1) =
      (if ret = 0 then Inr (0, [])
       else if ret = - 1 \<or> revents AND 0x38 \<noteq> 0 then Inr (- 1, [])
       else case os_read os (device_handle d) n w1 of
         (Some bs, _) \<Rightarrow> Inr (int (length (take n bs)), take n bs)
       | (None, w2) \<Rightarrow> Inr (if os_errno os w2 \<in> {11, 115} then 0 else - 1, []))"
  using lx_read_nonblocking_facts [OF assms] by simp

text \<open>A state with one open handle, for the examples.\<close>

definition demo_open :: "(int \<times> int list) linux_state" where
  "demo_open = (demo_state 3)\<lparr>lx_heap := [Some (new_hid_device\<lparr>device_handle := 3\<rparr>)]\<rparr>"

theorem lx_read_nonblocking_witness:
  "fst (lx_read demo_os (Some 0) 2 (snd (lx_set_nonblocking (Some 0) 1 demo_open))) =
     Inr (2, [1, 2])"
  using lx_read_nonblocking [of demo_open 0 1 "fst (lx_set_nonblocking (Some 0) 1 demo_open)"
      "snd (lx_set_nonblocking (Some 0) 1 demo_open)" "new_hid_device\<lparr>device_handle := 3\<rparr>"
      demo_os 1 1 "(3, [])" 2]
  by (simp add: demo_open_def demo_state_def demo_os_def lx_alive_def lx_deref_def)

text \<open>
  \<^verbatim>\<open>hidapi.h\<close> promises 0 on success and -1 on error of the string functions. For a USB
  device whose parent node lacks the attribute, \<^verbatim>\<open>get_device_string\<close> returns the result of
  \<^verbatim>\<open>parse_uevent_info\<close>, 1, and stores nothing: a caller that tests for -1 takes an
  uninitialised buffer for the string.
\<close>

theorem lx_string_missing_attribute:
  assumes "lx_alive s h" "lx_deref (Some h) s = Inr (h, d)" "udev_new_ok os (lx_world s)"
    and "os_fstat os (device_handle d) (lx_world s) = Some rdev"
    and "udev_from_devnum os (lx_world s) rdev = Some udev_dev"
    and "udev_parent os (lx_world s) (Some udev_dev) ''hid'' None = Some hid_dev"
    and "parse_uevent_info (udev_sysattr os (lx_world s) (Some hid_dev) ''uevent'') = Inr (True, u)"
    and "ue_bus_type u = Some BUS_USB"
    and "udev_parent os (lx_world s) (Some udev_dev) ''usb'' (Some ''usb_device'') = Some usb_dev"
    and "udev_sysattr os (lx_world s) (Some usb_dev) ''product'' = None"
  shows "lx_get_product_string os (Some h) maxlen s = (Inr (1, []), s)"
  using assms(2-)
  by (simp add: lx_get_product_string_def lx_get_device_string_def lx_device_string_of_def
      BUS_USB_def BUS_BLUETOOTH_def)

theorem lx_string_missing_attribute_witness:
  "lx_get_product_string demo_os (Some 0) 64 demo_open = (Inr (1, []), demo_open)"
  using lx_string_missing_attribute [of demo_open 0 "new_hid_device\<lparr>device_handle := 3\<rparr>" demo_os
      3 3 3 _ 3 64] demo_uevent_nano
  by (simp add: demo_open_def demo_state_def demo_os_def lx_alive_def lx_deref_def BUS_USB_def)

end
