(* ===== verification/Handles.thy ===== *)
theory Handles
  imports Prelude
begin

text \<open>
  Device handles: a \<^verbatim>\<open>hid_device *\<close> is an index into the list of the devices allocated so
  far; a freed device is \<open>None\<close> there and its index is not used again, so that a use after the
  close shows. The backends keep such a list in their state.
\<close>

definition live :: "'d option list \<Rightarrow> nat \<Rightarrow> bool" where
  "live hs h \<longleftrightarrow> h < length hs \<and> hs ! h \<noteq> None"

definition handle_at :: "'d option list \<Rightarrow> ptr \<Rightarrow> (nat \<times> 'd) res" where
  "handle_at hs p =
     (case p of
        None \<Rightarrow> Inl (UB Null_Pointer)
      | Some h \<Rightarrow>
          if h < length hs
          then (case hs ! h of None \<Rightarrow> Inl (UB Use_After_Free) | Some d \<Rightarrow> Inr (h, d))
          else Inl (UB Use_After_Free))"

named_theorems handle_simps \<open>what the updates of a list of devices do to its live handles\<close>

lemma live_Some [handle_simps]: "live hs h \<Longrightarrow> live (hs[h := Some d]) = live hs"
  by (rule ext) (auto simp: live_def nth_list_update)

lemma live_None [handle_simps]: "h < length hs \<Longrightarrow> live (hs[h := None]) = (live hs)(h := False)"
  by (rule ext) (auto simp: live_def nth_list_update)

lemma live_snoc [handle_simps]: "live (hs @ [Some d]) = (live hs)(length hs := True)"
  by (rule ext) (auto simp: live_def nth_append)

lemma live_fresh [simp]: "\<not> live hs (length hs)"
  by (simp add: live_def)

lemma live_length: "live hs h \<Longrightarrow> h < length hs"
  by (simp add: live_def)

lemma live_handle_at: "live hs h \<Longrightarrow> \<exists>d. hs ! h = Some d \<and> handle_at hs (Some h) = Inr (h, d)"
  by (auto simp: live_def handle_at_def)

lemma handle_at_Inr:
  "handle_at hs p = Inr (h, d) \<longleftrightarrow> p = Some h \<and> h < length hs \<and> hs ! h = Some d"
  by (auto simp: handle_at_def split: option.splits)

end
