(* ===== verification/Windows_Hid.thy ===== *)
theory Windows_Hid
  imports Hidapi Handles Linux_Uevent Toolbox
begin

text \<open>
  The windows backend (\<^verbatim>\<open>src/src/hid/windows/hid.c\<close>), built without the DDK: library state,
  enumeration, opening, overlapped reads and writes, feature and input reports, strings, the
  error text. The Windows calls are the record \<open>win_os\<close> over a world \<open>'w\<close>; \<open>None\<close> as a handle
  is \<^verbatim>\<open>INVALID_HANDLE_VALUE\<close>, \<open>None\<close> as another result a failure. Allocation and
  \<^verbatim>\<open>FormatMessageW\<close> succeed; the counts of bytes are below \<open>2 ^ 31\<close>, so their conversion to
  \<^verbatim>\<open>int\<close> is exact.
\<close>

section \<open>Windows\<close>

text \<open>\<^verbatim>\<open>HIDD_ATTRIBUTES\<close> and \<^verbatim>\<open>HIDP_CAPS\<close>: the fields that are read.\<close>

record wn_attributes =
  wa_vendor_id :: u16
  wa_product_id :: u16
  wa_version :: u16

record wn_caps =
  caps_usage :: u16
  caps_usage_page :: u16
  caps_input_length :: u16
  caps_output_length :: u16

datatype wn_ioctl = IOCTL_HID_GET_FEATURE | IOCTL_HID_GET_INPUT_REPORT

text \<open>
  \<open>wo_interfaces\<close> gives, per device interface, its path (\<open>None\<close>: the detail call fails);
  \<open>wo_devinfos\<close> the device classes, \<open>None\<close> where the registry call fails, and whether a driver
  is bound. \<open>wo_read_result\<close> and \<open>wo_ioctl_result\<close> are \<^verbatim>\<open>GetOverlappedResult\<close> with the bytes the
  request stored; the count of the latter is not the number of these bytes.
\<close>

record 'w win_os =
  wo_load_library :: "'w \<Rightarrow> bool \<times> 'w"
  wo_proc :: "'w \<Rightarrow> string \<Rightarrow> bool"
  wo_free_library :: "'w \<Rightarrow> 'w"
  wo_interfaces :: "'w \<Rightarrow> string option list"
  wo_devinfos :: "'w \<Rightarrow> (string option \<times> bool) list"
  wo_create_file :: "string option \<Rightarrow> bool \<Rightarrow> 'w \<Rightarrow> ptr \<times> 'w"
  wo_close_handle :: "nat \<Rightarrow> 'w \<Rightarrow> 'w"
  wo_create_event :: "'w \<Rightarrow> nat \<times> 'w"
  wo_last_error :: "'w \<Rightarrow> u32"
  wo_message :: "u32 \<Rightarrow> wstr"
  wo_errno :: "'w \<Rightarrow> int"
  wo_attributes :: "'w \<Rightarrow> nat \<Rightarrow> wn_attributes option"
  wo_preparsed :: "'w \<Rightarrow> nat \<Rightarrow> bool"
  wo_caps :: "'w \<Rightarrow> nat \<Rightarrow> wn_caps option"
  wo_serial :: "'w \<Rightarrow> nat \<Rightarrow> nat \<Rightarrow> wstr option"
  wo_manufacturer :: "'w \<Rightarrow> nat \<Rightarrow> nat \<Rightarrow> wstr option"
  wo_product :: "'w \<Rightarrow> nat \<Rightarrow> nat \<Rightarrow> wstr option"
  wo_indexed :: "'w \<Rightarrow> nat \<Rightarrow> int \<Rightarrow> nat \<Rightarrow> wstr option"
  wo_set_buffers :: "nat \<Rightarrow> nat \<Rightarrow> 'w \<Rightarrow> bool \<times> 'w"
  wo_write_file :: "nat \<Rightarrow> u8 list \<Rightarrow> 'w \<Rightarrow> bool \<times> 'w"
  wo_write_result :: "nat \<Rightarrow> 'w \<Rightarrow> nat option \<times> 'w"
  wo_read_file :: "nat \<Rightarrow> nat \<Rightarrow> nat \<Rightarrow> 'w \<Rightarrow> bool \<times> 'w"
  wo_wait :: "nat \<Rightarrow> int \<Rightarrow> 'w \<Rightarrow> bool \<times> 'w"
  wo_read_result :: "nat \<Rightarrow> nat \<Rightarrow> 'w \<Rightarrow> u8 list option \<times> 'w"
  wo_cancel :: "nat \<Rightarrow> 'w \<Rightarrow> 'w"
  wo_set_feature :: "nat \<Rightarrow> u8 list \<Rightarrow> 'w \<Rightarrow> bool \<times> 'w"
  wo_ioctl :: "nat \<Rightarrow> wn_ioctl \<Rightarrow> u8 list \<Rightarrow> 'w \<Rightarrow> bool \<times> 'w"
  wo_ioctl_result :: "nat \<Rightarrow> 'w \<Rightarrow> (nat \<times> u8 list) option \<times> 'w"

definition ERROR_IO_PENDING :: u32 where "ERROR_IO_PENDING = 997"

section \<open>State\<close>

text \<open>
  \<^verbatim>\<open>struct hid_device_\<close>; \<open>wn_event\<close> is \<^verbatim>\<open>ol.hEvent\<close>, the rest of \<^verbatim>\<open>ol\<close> belongs to Windows, and
  \<^verbatim>\<open>last_error_num\<close> is never used.
\<close>

record wn_device =
  wn_handle :: ptr
  wn_blocking :: bool
  output_report_length :: u16
  input_report_length :: nat
  wn_error_str :: "wstr option"
  read_pending :: bool
  read_buf :: "u8 list"
  wn_event :: nat

record 'w win_state =
  wn_world :: 'w
  lib_handle :: bool
  wn_initialized :: bool
  wn_heap :: "wn_device option list"

definition wn_new_hid_device :: "nat \<Rightarrow> wn_device" where
  "wn_new_hid_device event = \<lparr>wn_handle = None, wn_blocking = True, output_report_length = 0,
     input_report_length = 0, wn_error_str = None, read_pending = False, read_buf = [],
     wn_event = event\<rparr>"

definition wn_deref :: "ptr \<Rightarrow> 'w win_state \<Rightarrow> (nat \<times> wn_device) res" where
  "wn_deref p s = handle_at (wn_heap s) p"

definition wn_put :: "nat \<Rightarrow> wn_device option \<Rightarrow> 'w win_state \<Rightarrow> 'w win_state" where
  "wn_put h d s = s\<lparr>wn_heap := (wn_heap s)[h := d]\<rparr>"

text \<open>The handle of a device that is open; an invalid handle is passed to Windows as 0.\<close>

definition hdl :: "wn_device \<Rightarrow> nat" where
  "hdl d = (case wn_handle d of None \<Rightarrow> 0 | Some k \<Rightarrow> k)"

definition wn_free_hid_device :: "'w win_os \<Rightarrow> wn_device \<Rightarrow> 'w \<Rightarrow> 'w" where
  "wn_free_hid_device os d w = wo_close_handle os (hdl d) (wo_close_handle os (wn_event d) w)"

text \<open>\<^verbatim>\<open>register_error\<close>: the system's message up to the carriage return.\<close>

definition register_error :: "'w win_os \<Rightarrow> 'w \<Rightarrow> wn_device \<Rightarrow> wn_device" where
  "register_error os w d =
     d\<lparr>wn_error_str := Some (takeWhile (\<lambda>c. c \<noteq> 0x0D) (wo_message os (wo_last_error os w)))\<rparr>"

section \<open>Library state\<close>

definition wn_procs :: "string list" where
  "wn_procs = [''HidD_GetAttributes'', ''HidD_GetSerialNumberString'', ''HidD_GetManufacturerString'',
     ''HidD_GetProductString'', ''HidD_SetFeature'', ''HidD_GetFeature'', ''HidD_GetInputReport'',
     ''HidD_GetIndexedString'', ''HidD_GetPreparsedData'', ''HidD_FreePreparsedData'', ''HidP_GetCaps'',
     ''HidD_SetNumInputBuffers'']"

definition lookup_functions :: "'w win_os \<Rightarrow> 'w win_state \<Rightarrow> int \<times> 'w win_state" where
  "lookup_functions os s =
     (let (ok, w) = wo_load_library os (wn_world s);
          s = s\<lparr>wn_world := w, lib_handle := ok\<rparr>
      in if lib_handle s then (if list_all (wo_proc os w) wn_procs then (0, s) else (- 1, s))
         else (- 1, s))"

definition wn_hid_exit :: "'w win_os \<Rightarrow> 'w win_state \<Rightarrow> int \<times> 'w win_state" where
  "wn_hid_exit os s =
     (let s = (if lib_handle s then s\<lparr>wn_world := wo_free_library os (wn_world s)\<rparr> else s)
      in (0, s\<lparr>lib_handle := False, wn_initialized := False\<rparr>))"

definition wn_hid_init :: "'w win_os \<Rightarrow> 'w win_state \<Rightarrow> int \<times> 'w win_state" where
  "wn_hid_init os s =
     (if wn_initialized s then (0, s)
      else
        (let (r, s) = lookup_functions os s in
         if r < 0 then (- 1, snd (wn_hid_exit os s)) else (0, s\<lparr>wn_initialized := True\<rparr>)))"

definition open_device :: "'w win_os \<Rightarrow> string option \<Rightarrow> bool \<Rightarrow> 'w \<Rightarrow> ptr \<times> 'w" where
  "open_device os path open_rw = wo_create_file os path open_rw"

section \<open>Enumeration\<close>

text \<open>
  The search for a bound driver: from the first device of the set, whichever interface is
  being looked at; it gives up at the end or at a failing registry call.
\<close>

fun wn_driver_bound :: "(string option \<times> bool) list \<Rightarrow> bool" where
  "wn_driver_bound [] = False"
| "wn_driver_bound ((driver_name, bound) # rest) =
     (case driver_name of
        None \<Rightarrow> False
      | Some name \<Rightarrow>
          if name = ''HIDClass'' \<or> name = ''Mouse'' \<or> name = ''Keyboard''
          then (if bound then True else wn_driver_bound rest)
          else wn_driver_bound rest)"

text \<open>\<^verbatim>\<open>strstr(path, "&mi_")\<close>, and what follows it.\<close>

fun after_mi :: "string \<Rightarrow> string option" where
  "after_mi [] = None"
| "after_mi (c # cs) =
     (if take 4 (c # cs) = ''&mi_'' then Some (drop 4 (c # cs)) else after_mi cs)"

text \<open>\<^verbatim>\<open>strtol(hex_str, &endptr, 16)\<close> with a 32-bit \<^verbatim>\<open>long\<close>; -1 when nothing is converted.\<close>

definition wn_interface_number :: "string \<Rightarrow> int" where
  "wn_interface_number path =
     (case after_mi path of
        None \<Rightarrow> - 1
      | Some hex_str \<Rightarrow>
          (case scan_hex hex_str of (neg, ds, _) \<Rightarrow>
             if ds = [] then - 1
             else if neg then max (- (2 ^ 31)) (- int (num16 ds)) else min (2 ^ 31 - 1) (int (num16 ds))))"

text \<open>A string read into the buffer of 512 wide characters.\<close>

definition wn_dup :: "wstr option \<Rightarrow> wstr option" where
  "wn_dup r = map_option (\<lambda>s. takeWhile (\<lambda>c. c \<noteq> 0) (take 511 s)) r"

definition wn_record :: "'w win_os \<Rightarrow> 'w \<Rightarrow> nat \<Rightarrow> string \<Rightarrow> wn_attributes \<Rightarrow> dev_info" where
  "wn_record os w write_handle path attrib =
     (let caps = (if wo_preparsed os w write_handle then wo_caps os w write_handle else None) in
      calloc_dev_info\<lparr>
        di_usage_page := (case caps of None \<Rightarrow> 0 | Some c \<Rightarrow> caps_usage_page c),
        di_usage := (case caps of None \<Rightarrow> 0 | Some c \<Rightarrow> caps_usage c),
        di_path := Some path,
        di_serial_number := wn_dup (wo_serial os w write_handle 1024),
        di_manufacturer_string := wn_dup (wo_manufacturer os w write_handle 1024),
        di_product_string := wn_dup (wo_product os w write_handle 1024),
        di_vendor_id := wa_vendor_id attrib, di_product_id := wa_product_id attrib,
        di_release_number := wa_version attrib,
        di_interface_number := wn_interface_number path\<rparr>)"

text \<open>One device interface: the record it adds, and the world after its handle is closed.\<close>

definition wn_enum_entry ::
    "'w win_os \<Rightarrow> u16 \<Rightarrow> u16 \<Rightarrow> string option \<Rightarrow> 'w \<Rightarrow> dev_info option res \<times> 'w" where
  "wn_enum_entry os vendor_id product_id detail w =
     (case detail of
        None \<Rightarrow> (Inr None, w)
      | Some path \<Rightarrow>
          if \<not> wn_driver_bound (wo_devinfos os w) then (Inr None, w)
          else case open_device os (Some path) False w of
            (None, w) \<Rightarrow> (Inr None, wo_close_handle os 0 w)
          | (Some write_handle, w) \<Rightarrow>
              (case wo_attributes os w write_handle of
                 None \<Rightarrow> (Inl (UB Uninitialised), w)
               | Some attrib \<Rightarrow>
                   (Inr (if id_matches vendor_id product_id (wa_vendor_id attrib) (wa_product_id attrib)
                         then Some (wn_record os w write_handle path attrib) else None),
                    wo_close_handle os write_handle w)))"

fun wn_enum_loop ::
    "'w win_os \<Rightarrow> u16 \<Rightarrow> u16 \<Rightarrow> string option list \<Rightarrow> dev_info list \<Rightarrow> 'w \<Rightarrow> dev_info list res \<times> 'w" where
  "wn_enum_loop os vendor_id product_id [] root w = (Inr root, w)"
| "wn_enum_loop os vendor_id product_id (d # ds) root w =
     (case wn_enum_entry os vendor_id product_id d w of
        (Inl e, w) \<Rightarrow> (Inl e, w)
      | (Inr r, w) \<Rightarrow>
          wn_enum_loop os vendor_id product_id ds (case r of None \<Rightarrow> root | Some x \<Rightarrow> root @ [x]) w)"

definition wn_enumerate ::
    "'w win_os \<Rightarrow> u16 \<Rightarrow> u16 \<Rightarrow> 'w win_state \<Rightarrow> dev_info list res \<times> 'w win_state" where
  "wn_enumerate os vendor_id product_id s =
     (let (r, s) = wn_hid_init os s in
      if r < 0 then (Inr [], s)
      else case wn_enum_loop os vendor_id product_id (wo_interfaces os (wn_world s)) [] (wn_world s) of
             (res, w) \<Rightarrow> (res, s\<lparr>wn_world := w\<rparr>))"

section \<open>Opening and closing\<close>

text \<open>The failure exits: the error is registered in a device that is then freed.\<close>

definition wn_fail :: "'w win_os \<Rightarrow> wn_device \<Rightarrow> 'w \<Rightarrow> 'w win_state \<Rightarrow> ptr res \<times> 'w win_state" where
  "wn_fail os dev w s =
     (Inr None, s\<lparr>wn_world := wn_free_hid_device os (register_error os w dev) w\<rparr>)"

definition wn_open_path ::
    "'w win_os \<Rightarrow> string option \<Rightarrow> 'w win_state \<Rightarrow> ptr res \<times> 'w win_state" where
  "wn_open_path os path s =
     (let (r, s) = wn_hid_init os s in
      if r < 0 then (Inr None, s)
      else
        (let (event, w) = wo_create_event os (wn_world s);
             dev = wn_new_hid_device event;
             (handle, w) = open_device os path True w;
             (handle, w) = (if handle = None then open_device os path False w else (handle, w));
             dev = dev\<lparr>wn_handle := handle\<rparr>
         in case handle of
              None \<Rightarrow> wn_fail os dev w s
            | Some k \<Rightarrow>
                (let (ok, w) = wo_set_buffers os k 64 w in
                 if \<not> ok then wn_fail os dev w s
                 else if \<not> wo_preparsed os w k then wn_fail os dev w s
                 else case wo_caps os w k of
                   None \<Rightarrow> wn_fail os dev w s
                 | Some caps \<Rightarrow>
                     (let n = unat (caps_input_length caps);
                          dev = dev\<lparr>output_report_length := caps_output_length caps,
                                    input_report_length := n, read_buf := replicate n 0\<rparr>
                      in (Inr (Some (length (wn_heap s))),
                          s\<lparr>wn_world := w, wn_heap := wn_heap s @ [Some dev]\<rparr>)))))"

definition wn_open ::
    "'w win_os \<Rightarrow> u16 \<Rightarrow> u16 \<Rightarrow> wstr option \<Rightarrow> 'w win_state \<Rightarrow> ptr res \<times> 'w win_state" where
  "wn_open os vendor_id product_id serial_number s =
     (case wn_enumerate os vendor_id product_id s of
        (Inl e, s) \<Rightarrow> (Inl e, s)
      | (Inr devs, s) \<Rightarrow>
          (case wn_find_path vendor_id product_id serial_number devs of
             Inl e \<Rightarrow> (Inl e, s)
           | Inr (Some path_to_open) \<Rightarrow> wn_open_path os (Some path_to_open) s
           | Inr None \<Rightarrow> (Inr None, s)))"

definition wn_close :: "'w win_os \<Rightarrow> ptr \<Rightarrow> 'w win_state \<Rightarrow> unit res \<times> 'w win_state" where
  "wn_close os dev s =
     (if dev = None then (Inr (), s)
      else case wn_deref dev s of
        Inl e \<Rightarrow> (Inl e, s)
      | Inr (h, d) \<Rightarrow>
          (Inr (), wn_put h None
             (s\<lparr>wn_world := wn_free_hid_device os d (wo_cancel os (hdl d) (wn_world s))\<rparr>)))"

section \<open>Reports\<close>

text \<open>The bytes handed to \<^verbatim>\<open>WriteFile\<close>: padded with zeros to the length of an output report.\<close>

definition wn_write_buffer :: "wn_device \<Rightarrow> u8 list \<Rightarrow> u8 list" where
  "wn_write_buffer d data =
     (if length data \<ge> unat (output_report_length d) then data
      else data @ replicate (unat (output_report_length d) - length data) 0)"

definition wn_write :: "'w win_os \<Rightarrow> ptr \<Rightarrow> u8 list \<Rightarrow> 'w win_state \<Rightarrow> int res \<times> 'w win_state" where
  "wn_write os dev data s =
     (case wn_deref dev s of
        Inl e \<Rightarrow> (Inl e, s)
      | Inr (h, d) \<Rightarrow>
          (let (res, w) = wo_write_file os (hdl d) (wn_write_buffer d data) (wn_world s) in
           if \<not> res \<and> wo_last_error os w \<noteq> ERROR_IO_PENDING then
             (Inr (- 1), wn_put h (Some (register_error os w d)) (s\<lparr>wn_world := w\<rparr>))
           else case wo_write_result os (hdl d) w of
             (None, w) \<Rightarrow> (Inr (- 1), wn_put h (Some (register_error os w d)) (s\<lparr>wn_world := w\<rparr>))
           | (Some bytes_written, w) \<Rightarrow> (Inr (int bytes_written), s\<lparr>wn_world := w\<rparr>)))"

text \<open>
  The start of an overlapped read, unless one is pending. The flag of the result says whether
  the read goes on; \<^verbatim>\<open>CancelIo\<close> runs before the error is registered.
\<close>

definition wn_start_read :: "'w win_os \<Rightarrow> wn_device \<Rightarrow> 'w \<Rightarrow> bool \<times> wn_device \<times> 'w" where
  "wn_start_read os d w =
     (if read_pending d then (True, d, w)
      else
        (let d = d\<lparr>read_pending := True, read_buf := replicate (input_report_length d) 0\<rparr>;
             (res, w) = wo_read_file os (hdl d) (wn_event d) (input_report_length d) w
         in if \<not> res \<and> wo_last_error os w \<noteq> ERROR_IO_PENDING
            then (False, d\<lparr>read_pending := False\<rparr>, wo_cancel os (hdl d) w)
            else (True, d, w)))"

text \<open>The end of a read: \<^verbatim>\<open>GetOverlappedResult\<close>, and the bytes for the caller.\<close>

definition wn_finish_read ::
    "'w win_os \<Rightarrow> nat \<Rightarrow> wn_device \<Rightarrow> 'w \<Rightarrow> (int \<times> u8 list) \<times> wn_device \<times> 'w" where
  "wn_finish_read os n d w =
     (let (res, w) = wo_read_result os (hdl d) (wn_event d) w;
          d = d\<lparr>read_pending := False\<rparr>
      in case res of
           None \<Rightarrow> ((- 1, []), register_error os w d, w)
         | Some bs \<Rightarrow>
             (let bs = take (input_report_length d) bs;
                  copy_len = (if n > length bs then length bs else n)
              in ((int copy_len, take copy_len bs),
                  d\<lparr>read_buf := replicate (input_report_length d) 0\<rparr>, w)))"

definition wn_read_timeout ::
    "'w win_os \<Rightarrow> ptr \<Rightarrow> nat \<Rightarrow> int \<Rightarrow> 'w win_state \<Rightarrow> (int \<times> u8 list) res \<times> 'w win_state" where
  "wn_read_timeout os dev n milliseconds s =
     (case wn_deref dev s of
        Inl e \<Rightarrow> (Inl e, s)
      | Inr (h, d) \<Rightarrow>
          (let (started, d, w) = wn_start_read os d (wn_world s) in
           if \<not> started then
             (Inr (- 1, []), wn_put h (Some (register_error os w d)) (s\<lparr>wn_world := w\<rparr>))
           else
             (let (ready, w) = (if milliseconds \<ge> 0 then wo_wait os (wn_event d) milliseconds w
                                else (True, w))
              in if \<not> ready then (Inr (0, []), wn_put h (Some d) (s\<lparr>wn_world := w\<rparr>))
                 else (let (r, d, w) = wn_finish_read os n d w in
                       (Inr r, wn_put h (Some d) (s\<lparr>wn_world := w\<rparr>))))))"

text \<open>\<^verbatim>\<open>INFINITE\<close>, whatever \<^verbatim>\<open>hid_set_nonblocking\<close> stored.\<close>

definition wn_read ::
    "'w win_os \<Rightarrow> ptr \<Rightarrow> nat \<Rightarrow> 'w win_state \<Rightarrow> (int \<times> u8 list) res \<times> 'w win_state" where
  "wn_read os dev n s = wn_read_timeout os dev n (- 1) s"

definition wn_set_nonblocking :: "ptr \<Rightarrow> int \<Rightarrow> 'w win_state \<Rightarrow> int res \<times> 'w win_state" where
  "wn_set_nonblocking dev nonblock s =
     (case wn_deref dev s of
        Inl e \<Rightarrow> (Inl e, s)
      | Inr (h, d) \<Rightarrow> (Inr 0, wn_put h (Some (d\<lparr>wn_blocking := (nonblock = 0)\<rparr>)) s))"

definition wn_send_feature_report ::
    "'w win_os \<Rightarrow> ptr \<Rightarrow> u8 list \<Rightarrow> 'w win_state \<Rightarrow> int res \<times> 'w win_state" where
  "wn_send_feature_report os dev data s =
     (case wn_deref dev s of
        Inl e \<Rightarrow> (Inl e, s)
      | Inr (h, d) \<Rightarrow>
          (let (res, w) = wo_set_feature os (hdl d) data (wn_world s);
               s = s\<lparr>wn_world := w\<rparr>
           in if \<not> res then (Inr (- 1), wn_put h (Some (register_error os w d)) s)
              else (Inr (int (length data)), s)))"

text \<open>
  The two device controls, which differ in their code only: the count of Windows, which leaves
  out the byte of the report id, plus one, and the buffer with the bytes Windows stored.
\<close>

definition wn_device_control ::
    "'w win_os \<Rightarrow> wn_ioctl \<Rightarrow> ptr \<Rightarrow> u8 list \<Rightarrow> 'w win_state \<Rightarrow> (int \<times> u8 list) res \<times> 'w win_state" where
  "wn_device_control os code dev data s =
     (case wn_deref dev s of
        Inl e \<Rightarrow> (Inl e, s)
      | Inr (h, d) \<Rightarrow>
          (let (res, w) = wo_ioctl os (hdl d) code data (wn_world s) in
           if \<not> res \<and> wo_last_error os w \<noteq> ERROR_IO_PENDING then
             (Inr (- 1, data), wn_put h (Some (register_error os w d)) (s\<lparr>wn_world := w\<rparr>))
           else case wo_ioctl_result os (hdl d) w of
             (None, w) \<Rightarrow>
               (Inr (- 1, data), wn_put h (Some (register_error os w d)) (s\<lparr>wn_world := w\<rparr>))
           | (Some (bytes_returned, bs), w) \<Rightarrow>
               (bind_res (c_memcpy data 0 bs) (\<lambda>data. Inr (int bytes_returned + 1, data)),
                s\<lparr>wn_world := w\<rparr>)))"

definition wn_get_feature_report where
  "wn_get_feature_report os dev data s = wn_device_control os IOCTL_HID_GET_FEATURE dev data s"

definition wn_get_input_report where
  "wn_get_input_report os dev data s = wn_device_control os IOCTL_HID_GET_INPUT_REPORT dev data s"

section \<open>Strings and errors\<close>

text \<open>
  A string call with the size in bytes of a buffer of \<open>maxlen\<close> two-byte characters, at most
  \<^verbatim>\<open>MAX_STRING_WCHARS\<close>: the result and the characters stored.
\<close>

definition wn_string ::
    "'w win_os \<Rightarrow> (nat \<Rightarrow> nat \<Rightarrow> wstr option) \<Rightarrow> ptr \<Rightarrow> nat \<Rightarrow> 'w win_state \<Rightarrow>
     (int \<times> wstr) res \<times> 'w win_state" where
  "wn_string os call dev maxlen s =
     (case wn_deref dev s of
        Inl e \<Rightarrow> (Inl e, s)
      | Inr (h, d) \<Rightarrow>
          (case call (hdl d) (2 * min maxlen 0xFFF) of
             None \<Rightarrow> (Inr (- 1, []), wn_put h (Some (register_error os (wn_world s) d)) s)
           | Some str \<Rightarrow> (Inr (0, str), s)))"

definition wn_get_manufacturer_string where
  "wn_get_manufacturer_string os dev maxlen s = wn_string os (wo_manufacturer os (wn_world s)) dev maxlen s"

definition wn_get_product_string where
  "wn_get_product_string os dev maxlen s = wn_string os (wo_product os (wn_world s)) dev maxlen s"

definition wn_get_serial_number_string where
  "wn_get_serial_number_string os dev maxlen s = wn_string os (wo_serial os (wn_world s)) dev maxlen s"

definition wn_get_indexed_string where
  "wn_get_indexed_string os dev string_index maxlen s =
     wn_string os (\<lambda>k n. wo_indexed os (wn_world s) k string_index n) dev maxlen s"

definition wn_error :: "ptr \<Rightarrow> 'w win_state \<Rightarrow> wstr option res" where
  "wn_error dev s =
     (if dev \<noteq> None then bind_res (wn_deref dev s) (\<lambda>(_, d). Inr (wn_error_str d))
      else Inr (Some (map (\<lambda>c. of_nat (of_char c))
        ''hid_error for global errors is not implemented yet'')))"

definition windows_api :: "'w win_os \<Rightarrow> 'w win_state hid_api" where
  "windows_api os =
     \<lparr>api_enumerate = wn_enumerate os, api_open = wn_open os, api_open_path = wn_open_path os,
      api_set_nonblocking = wn_set_nonblocking, api_read = wn_read os, api_write = wn_write os,
      api_close = wn_close os, api_error = wn_error, api_errno = (\<lambda>s. wo_errno os (wn_world s))\<rparr>"

definition wn_alive :: "'w win_state \<Rightarrow> nat \<Rightarrow> bool" where
  "wn_alive s = live (wn_heap s)"

section \<open>dumpHex\<close>

text \<open>
  No call of this function is left in the file, they are all commented out.
  \<^verbatim>\<open>sprintf(buf + lastPos, "%02x ", data[i])\<close> stores three characters and a null; the buffer has
  255 characters, \<open>None\<close> where nothing was written yet.
\<close>

fun dump_loop :: "char option list \<Rightarrow> nat \<Rightarrow> u8 list \<Rightarrow> (char option list \<times> nat) res" where
  "dump_loop buf lastPos [] = Inr (buf, lastPos)"
| "dump_loop buf lastPos (b # bs) =
     bind_res (c_memcpy buf lastPos (map Some (hex_byte b @ [CHR '' '', CHR 0x00]))) (\<lambda>buf.
       dump_loop buf (lastPos + 3) bs)"

text \<open>The C string at the start of a buffer.\<close>

fun c_string :: "char option list \<Rightarrow> string res" where
  "c_string [] = Inl (UB Out_Of_Bounds)"
| "c_string (None # s) = Inl (UB Uninitialised)"
| "c_string (Some c # s) =
     (if c = CHR 0x00 then Inr [] else bind_res (c_string s) (\<lambda>cs. Inr (c # cs)))"

definition dumpHex :: "u8 list \<Rightarrow> string res" where
  "dumpHex data =
     bind_res (c_memcpy (replicate 255 None) 0 [Some (CHR ''['')]) (\<lambda>buf.
     bind_res (dump_loop buf 1 data) (\<lambda>(buf, lastPos).
     bind_res (c_memcpy buf lastPos [Some (CHR '']'')]) (\<lambda>buf.
     bind_res (c_memcpy buf (lastPos + 1) [Some (CHR 0x00)]) (\<lambda>buf. c_string buf))))"

end
