(* ===== verification/Windows_Correct.thy ===== *)
theory Windows_Correct
  imports Windows_Hid
begin

text \<open>
  The windows backend keeps the contract of hidapi; then what is special to it: the padding of
  output reports, the reads left pending, and the error text that is never cleared.
\<close>

section \<open>The backend keeps the contract\<close>

lemma wn_alive_simps [handle_simps]:
  "wn_alive (s\<lparr>wn_world := w\<rparr>) = wn_alive s"
  "wn_alive s h \<Longrightarrow> wn_alive (wn_put h (Some d) s) = wn_alive s"
  "h < length (wn_heap s) \<Longrightarrow> wn_alive (wn_put h None s) = (wn_alive s)(h := False)"
  by (simp_all add: wn_alive_def wn_put_def handle_simps)

lemma wn_deref_alive: "wn_alive s h \<Longrightarrow> \<exists>d. wn_heap s ! h = Some d \<and> wn_deref (Some h) s = Inr (h, d)"
  by (simp add: wn_alive_def wn_deref_def live_handle_at)

lemma wn_hid_init_heap [handle_simps]:
  "wn_heap (snd (wn_hid_init os s)) = wn_heap s"
  by (simp add: wn_hid_init_def wn_hid_exit_def lookup_functions_def Let_def split: prod.split)

lemma wn_enumerate_heap: "wn_enumerate os v p s = (r, s') \<Longrightarrow> wn_heap s' = wn_heap s"
  using wn_hid_init_heap [of os s]
  by (auto simp: wn_enumerate_def Let_def split: prod.splits if_splits)

lemma wn_open_path_effect:
  assumes "wn_open_path os path s = (r, s')"
  shows "(\<exists>d. r = Inr (Some (length (wn_heap s))) \<and> wn_heap s' = wn_heap s @ [Some d]) \<or>
    r = Inr None \<and> wn_heap s' = wn_heap s"
  using assms wn_hid_init_heap [of os s]
  by (auto simp: wn_open_path_def wn_fail_def Let_def split: prod.splits if_splits option.splits)

lemma wn_open_effect:
  assumes "wn_open os v p sn s = (r, s')"
  shows "(\<exists>d. r = Inr (Some (length (wn_heap s))) \<and> wn_heap s' = wn_heap s @ [Some d]) \<or>
    (\<forall>h. r \<noteq> Inr (Some h)) \<and> wn_heap s' = wn_heap s"
proof -
  obtain devs s1 where e: "wn_enumerate os v p s = (devs, s1)" by fastforce
  show ?thesis
    using assms wn_open_path_effect [of os _ s1 r s'] e wn_enumerate_heap [OF e]
    by (fastforce simp: wn_open_def split: sum.splits option.splits)
qed

lemma wn_read_effect:
  assumes "wn_alive s h" "wn_read_timeout os (Some h) n ms s = (rr, s')"
  shows "(\<exists>k bs. rr = Inr (k, bs) \<and> (k = - 1 \<and> bs = [] \<or> k = int (length bs)) \<and> length bs \<le> n)
    \<and> wn_alive s' = wn_alive s"
proof -
  obtain d where d: "wn_deref (Some h) s = Inr (h, d)" using wn_deref_alive [OF assms(1)] by blast
  have f: "\<exists>k bs d' w'. wn_finish_read os n d1 w = ((k, bs), d', w') \<and>
      (k = - 1 \<and> bs = [] \<or> k = int (length bs)) \<and> length bs \<le> n" for d1 w
    by (simp add: wn_finish_read_def Let_def split: prod.split option.split)
  obtain ok d1 w1 where st: "wn_start_read os d (wn_world s) = (ok, d1, w1)" by (metis prod_cases3)
  show ?thesis
  proof (cases ok)
    case False
    then show ?thesis using assms d st by (auto simp: wn_read_timeout_def handle_simps)
  next
    case True
    obtain ready w2 where w: "(if ms \<ge> 0 then wo_wait os (wn_event d1) ms w1 else (True, w1)) = (ready, w2)"
      by fastforce
    obtain k bs d' w' where fr: "wn_finish_read os n d1 w2 = ((k, bs), d', w')"
      "k = - 1 \<and> bs = [] \<or> k = int (length bs)" "length bs \<le> n" using f by blast
    then show ?thesis using True assms d st w
      by (auto simp: wn_read_timeout_def Let_def handle_simps split: if_splits)
  qed
qed

interpretation wn: returning_backend "windows_api os" wn_alive for os :: "'w win_os"
proof
  fix v p and s s' :: "'w win_state" and rl
  assume "api_enumerate (windows_api os) v p s = (rl, s')"
  then show "wn_alive s' = wn_alive s"
    using wn_enumerate_heap [of os v p s] by (auto simp: windows_api_def wn_alive_def)
next
  fix v p sn and s s' :: "'w win_state" and h
  assume "api_open (windows_api os) v p sn s = (Inr (Some h), s')"
  then show "wn_alive s' h \<and> \<not> wn_alive s h"
    using wn_open_effect [of os v p sn s] by (auto simp: windows_api_def wn_alive_def handle_simps)
next
  fix path and s s' :: "'w win_state" and h
  assume "api_open_path (windows_api os) path s = (Inr (Some h), s')"
  then show "wn_alive s' h \<and> \<not> wn_alive s h"
    using wn_open_path_effect [of os path s] by (auto simp: windows_api_def wn_alive_def handle_simps)
next
  fix v p sn and s s' :: "'w win_state" and r k
  assume "api_open (windows_api os) v p sn s = (r, s')" "wn_alive s k"
  then show "wn_alive s' k"
    using wn_open_effect [of os v p sn s] by (auto simp: windows_api_def wn_alive_def handle_simps)
next
  fix path and s s' :: "'w win_state" and r k
  assume "api_open_path (windows_api os) path s = (r, s')" "wn_alive s k"
  then show "wn_alive s' k"
    using wn_open_path_effect [of os path s] by (auto simp: windows_api_def wn_alive_def handle_simps)
next
  fix s s' :: "'w win_state" and h b ri
  assume "wn_alive s h" "api_set_nonblocking (windows_api os) (Some h) b s = (ri, s')"
  then show "ri = Inr 0 \<and> wn_alive s' = wn_alive s"
    using wn_deref_alive [of s h] by (auto simp: windows_api_def wn_set_nonblocking_def handle_simps)
next
  fix s s' :: "'w win_state" and h n rr
  assume "wn_alive s h" "api_read (windows_api os) (Some h) n s = (rr, s')"
  then show "(rr = Inl Deadlock \<or>
        (\<exists>k bs. rr = Inr (k, bs) \<and> (k = - 1 \<and> bs = [] \<or> k = int (length bs)) \<and> length bs \<le> n))
       \<and> wn_alive s' = wn_alive s" "rr \<noteq> Inl Deadlock"
    using wn_read_effect [of s h os n "- 1" rr s'] by (auto simp: windows_api_def wn_read_def)
next
  fix s s' :: "'w win_state" and h data ri
  assume "wn_alive s h" "data \<noteq> []" "api_write (windows_api os) (Some h) data s = (ri, s')"
  then show "(\<exists>k. ri = Inr k \<and> - 1 \<le> k) \<and> wn_alive s' = wn_alive s"
    using wn_deref_alive [of s h]
    by (auto simp: windows_api_def wn_write_def Let_def handle_simps split: prod.splits option.splits if_splits)
next
  fix s s' :: "'w win_state" and h ru
  assume "wn_alive s h" "api_close (windows_api os) (Some h) s = (ru, s')"
  then show "if ru = Inr () then wn_alive s' = (wn_alive s)(h := False) else \<exists>e. ru = Inl e \<and> \<not> cpp_exception e"
    using wn_deref_alive [of s h] live_length [of "wn_heap s" h]
    by (auto simp: windows_api_def wn_close_def handle_simps) (simp_all add: wn_alive_def wn_put_def handle_simps)
next
  fix s :: "'w win_state" and h
  assume "wn_alive s h"
  then show "\<exists>e. api_error (windows_api os) (Some h) s = Inr e"
    using wn_deref_alive [of s h] by (auto simp: windows_api_def wn_error_def)
qed

interpretation wnc: closing_backend "windows_api os" wn_alive "\<lambda>_ _. True" for os :: "'w win_os"
proof
  fix s :: "'w win_state" and h
  assume "wn_alive s h"
  then show "\<exists>s'. api_close (windows_api os) (Some h) s = (Inr (), s')"
    using wn_deref_alive [of s h] by (auto simp: windows_api_def wn_close_def)
qed

section \<open>The hexadecimal dump\<close>

lemma dump_loop_spec:
  assumes "length pre + length post = 255"
  shows "if bs = [] \<or> length pre + 3 * length bs + 1 \<le> 255
    then \<exists>post'. dump_loop (pre @ post) (length pre) bs =
      Inr (pre @ map Some (concat (map (\<lambda>b. hex_byte b @ '' '') bs)) @ post', length pre + 3 * length bs) \<and>
      length pre + 3 * length bs + length post' = 255
    else dump_loop (pre @ post) (length pre) bs = Inl (UB Out_Of_Bounds)"
  using assms
proof (induction bs arbitrary: pre post)
  case (Cons b bs)
  show ?case
  proof (cases "length pre + 4 \<le> 255")
    case True
    let ?w = "map Some (hex_byte b @ '' '')"
    let ?pre = "pre @ ?w" and ?post = "Some (CHR 0x00) # drop 4 post"
    have l: "length ?w = 3" "length ?pre = length pre + 3" by (simp_all add: hex_byte_def)
    have "c_memcpy (pre @ post) (length pre) (map Some (hex_byte b @ [CHR '' '', CHR 0x00])) =
        Inr (?pre @ ?post)"
      using True Cons.prems by (simp add: c_memcpy_def overwrite_def hex_byte_def)
    then have e: "dump_loop (pre @ post) (length pre) (b # bs) = dump_loop (?pre @ ?post) (length ?pre) bs"
      using l by (simp add: numeral_3_eq_3)
    have "length ?pre + length ?post = 255" using True Cons.prems l by simp
    from Cons.IH [OF this] show ?thesis
    proof (cases "bs = [] \<or> length ?pre + 3 * length bs + 1 \<le> 255")
      case ok: True
      then have "length pre + 3 * length (b # bs) + 1 \<le> 255" using l True by auto
      moreover obtain post' where
        "dump_loop (?pre @ ?post) (length ?pre) bs = Inr (?pre @ map Some (concat (map (\<lambda>b. hex_byte b @ '' '') bs)) @ post',
           length ?pre + 3 * length bs)" "length ?pre + 3 * length bs + length post' = 255"
        using Cons.IH [OF \<open>length ?pre + length ?post = 255\<close>] ok by auto
      ultimately show ?thesis using e l by (intro if_P [THEN iffD2]) auto
    next
      case False
      then have "\<not> length pre + 3 * length (b # bs) + 1 \<le> 255" using l by simp
      then show ?thesis using Cons.IH [OF \<open>length ?pre + length ?post = 255\<close>] False e by simp
    qed
  next
    case False
    then show ?thesis by (simp add: c_memcpy_def hex_byte_def Cons.prems)
  qed
qed simp

lemma c_string_map: "CHR 0x00 \<notin> set s \<Longrightarrow> c_string (map Some s @ Some (CHR 0x00) # r) = Inr s"
  by (induction s) auto

lemma hex_byte_no_null: "CHR 0x00 \<notin> set (hex_byte b)"
proof -
  have "unat b div 16 < 16" using unat_u8_less [of b] by (simp add: less_mult_imp_div_less)
  moreover have "unat b mod 16 < 16" by simp
  moreover have "''0123456789abcdef'' ! k \<noteq> CHR 0x00" if "k < 16" for k
  proof -
    have "''0123456789abcdef'' ! k \<in> set ''0123456789abcdef''" using that by (intro nth_mem) simp
    moreover have "CHR 0x00 \<notin> set ''0123456789abcdef''" by simp
    ultimately show ?thesis by metis
  qed
  ultimately have "''0123456789abcdef'' ! (unat b div 16) \<noteq> CHR 0x00"
    "''0123456789abcdef'' ! (unat b mod 16) \<noteq> CHR 0x00" by blast+
  then show ?thesis unfolding hex_byte_def by (metis empty_iff insert_iff list.set)
qed

section \<open>Pending reads\<close>

lemma wn_start_pending: "read_pending d \<Longrightarrow> wn_start_read os d w = (True, d, w)"
  by (simp add: wn_start_read_def)

section \<open>The error text stays\<close>

text \<open>No operation on a device clears \<^verbatim>\<open>last_error_str\<close>.\<close>

definition has_error :: "'w win_state \<Rightarrow> nat \<Rightarrow> bool" where
  "has_error s h \<longleftrightarrow> (\<exists>d. wn_deref (Some h) s = Inr (h, d) \<and> wn_error_str d \<noteq> None)"

lemma has_error_put [handle_simps]:
  "h < length (wn_heap s) \<Longrightarrow> has_error (wn_put h (Some d) (s\<lparr>wn_world := w\<rparr>)) h \<longleftrightarrow> wn_error_str d \<noteq> None"
  "h < length (wn_heap s) \<Longrightarrow> has_error (wn_put h (Some d) s) h \<longleftrightarrow> wn_error_str d \<noteq> None"
  "has_error (s\<lparr>wn_world := w\<rparr>) h \<longleftrightarrow> has_error s h"
  by (simp_all add: has_error_def wn_deref_def handle_at_def wn_put_def)

lemma has_errorE:
  assumes "has_error s h"
  obtains d where "wn_deref (Some h) s = Inr (h, d)" "h < length (wn_heap s)" "wn_error_str d \<noteq> None"
  using assms by (auto simp: has_error_def wn_deref_def handle_at_Inr)

lemma register_error_set [simp]: "wn_error_str (register_error os w d) \<noteq> None"
  by (simp add: register_error_def)

lemma wn_start_read_error: "wn_start_read os d w = (ok, d', w') \<Longrightarrow> wn_error_str d' = wn_error_str d"
  by (auto simp: wn_start_read_def Let_def split: if_splits prod.splits)

lemma wn_finish_read_error:
  "wn_finish_read os n d w = (r, d', w') \<Longrightarrow> wn_error_str d \<noteq> None \<Longrightarrow> wn_error_str d' \<noteq> None"
  by (auto simp: wn_finish_read_def register_error_def Let_def split: prod.splits option.splits)

lemma wn_read_keeps_error:
  assumes "has_error s h"
  shows "has_error (snd (wn_read_timeout os (Some h) n ms s)) h"
proof -
  obtain d where d: "wn_deref (Some h) s = Inr (h, d)" "h < length (wn_heap s)" "wn_error_str d \<noteq> None"
    using assms by (rule has_errorE)
  obtain ok d1 w1 where st: "wn_start_read os d (wn_world s) = (ok, d1, w1)" by (metis prod_cases3)
  have d1: "wn_error_str d1 \<noteq> None" using wn_start_read_error [OF st] d(3) by simp
  obtain ready w2 where w: "(if ms \<ge> 0 then wo_wait os (wn_event d1) ms w1 else (True, w1)) = (ready, w2)"
    by fastforce
  obtain r d2 w3 where f: "wn_finish_read os n d1 w2 = (r, d2, w3)" by (metis prod_cases3)
  show ?thesis using d st w f d1 wn_finish_read_error [OF f d1]
    by (simp add: wn_read_timeout_def Let_def handle_simps)
qed

lemma wn_write_keeps_error:
  assumes "has_error s h"
  shows "has_error (snd (wn_write os (Some h) data s)) h"
proof -
  obtain d where d: "wn_deref (Some h) s = Inr (h, d)" "h < length (wn_heap s)" "wn_error_str d \<noteq> None"
    using assms by (rule has_errorE)
  show ?thesis using d assms
    by (auto simp: wn_write_def Let_def handle_simps split: prod.split option.split)
qed

lemma wn_control_keeps_error:
  assumes "has_error s h"
  shows "has_error (snd (wn_device_control os code (Some h) data s)) h"
    "has_error (snd (wn_send_feature_report os (Some h) data s)) h"
    "has_error (snd (wn_set_nonblocking (Some h) nonblock s)) h"
proof -
  obtain d where d: "wn_deref (Some h) s = Inr (h, d)" "h < length (wn_heap s)" "wn_error_str d \<noteq> None"
    using assms by (rule has_errorE)
  show "has_error (snd (wn_device_control os code (Some h) data s)) h"
    "has_error (snd (wn_send_feature_report os (Some h) data s)) h"
    "has_error (snd (wn_set_nonblocking (Some h) nonblock s)) h"
    using d assms
    by (auto simp: wn_device_control_def wn_send_feature_report_def wn_set_nonblocking_def Let_def
        handle_simps split: prod.split option.split)
qed

section \<open>Properties\<close>

text \<open>
  C40. A read that runs out of time leaves its request with Windows and loses nothing: the next
  read starts no other request, waits for this one, and gives the caller its bytes, cut to the
  size of the buffer.
\<close>

theorem wn_read_resumes:
  assumes "wn_deref dev s = Inr (h, d)" "\<not> read_pending d"
    and "wo_read_file os (hdl d) (wn_event d) (input_report_length d) (wn_world s) = (res, w1)"
    and "res \<or> wo_last_error os w1 = ERROR_IO_PENDING"
    and "milliseconds \<ge> 0" "wo_wait os (wn_event d) milliseconds w1 = (False, w2)"
    and "wo_read_result os (hdl d) (wn_event d) w2 = (Some bs, w3)" "length bs \<le> input_report_length d"
  shows "\<exists>s1 s2. wn_read_timeout os dev n milliseconds s = (Inr (0, []), s1) \<and> wn_world s1 = w2 \<and>
    wn_read os dev m s1 = (Inr (int (min m (length bs)), take m bs), s2) \<and> wn_world s2 = w3 \<and>
    wn_deref dev s2 = Inr (h, d\<lparr>read_buf := replicate (input_report_length d) 0\<rparr>)"
proof -
  let ?d1 = "d\<lparr>read_pending := True, read_buf := replicate (input_report_length d) 0\<rparr>"
  let ?s1 = "wn_put h (Some ?d1) (s\<lparr>wn_world := w2\<rparr>)"
  let ?s2 = "wn_put h (Some (?d1\<lparr>read_pending := False\<rparr>)) (?s1\<lparr>wn_world := w3\<rparr>)"
  have k: "hdl ?d1 = hdl d" by (simp add: hdl_def)
  have order: "d\<lparr>read_buf := x, read_pending := False\<rparr> = d\<lparr>read_pending := False, read_buf := x\<rparr>" for x
    by (rule wn_device.equality) simp_all
  have r1: "wn_read_timeout os dev n milliseconds s = (Inr (0, []), ?s1)"
    using assms(1-6) k by (auto simp: wn_read_timeout_def wn_start_read_def)
  have d1: "wn_deref dev ?s1 = Inr (h, ?d1)" "wn_deref dev ?s2 = Inr (h, ?d1\<lparr>read_pending := False\<rparr>)"
    using assms(1) by (auto simp: wn_deref_def wn_put_def handle_at_def split: option.splits if_splits)
  have "wn_read os dev m ?s1 = (Inr (int (min m (length bs)), take m bs), ?s2)"
    using assms(7,8) d1(1) k
    by (auto simp: wn_read_def wn_read_timeout_def wn_start_read_def wn_finish_read_def Let_def wn_put_def min_def order)
  moreover have "?d1\<lparr>read_pending := False\<rparr> = d\<lparr>read_buf := replicate (input_report_length d) 0\<rparr>"
    using assms(2) by (intro wn_device.equality) simp_all
  ultimately show ?thesis using r1 d1(2) by (intro exI [of _ ?s1] exI [of _ ?s2]) (simp add: wn_put_def)
qed

text \<open>
  \<^verbatim>\<open>dumpHex\<close> gives the bytes in hexadecimal between brackets, each followed by a space, for
  at most 84 bytes; for one more it writes past its buffer of 255 characters.
\<close>

theorem dumpHex_bounds:
  "dumpHex data =
     (if length data \<le> 84 then Inr (''['' @ concat (map (\<lambda>b. hex_byte b @ '' '') data) @ '']'')
      else Inl (UB Out_Of_Bounds))"
proof -
  let ?txt = "concat (map (\<lambda>b. hex_byte b @ '' '') data)"
  have b: "c_memcpy (replicate 255 None) 0 [Some (CHR ''['')] = Inr ([Some (CHR ''['')] @ replicate 254 None)"
    by (simp add: c_memcpy_def overwrite_def)
  have l: "length ?txt = 3 * length data"
    by (induction data) (simp_all add: hex_byte_def)
  have nn: "CHR 0x00 \<notin> set ?txt" using hex_byte_no_null by auto
  note spec = dump_loop_spec [of "[Some (CHR ''['')]" "replicate 254 None" data]
  show ?thesis
  proof (cases "length data \<le> 84")
    case True
    then obtain post' where p: "dump_loop ([Some (CHR ''['')] @ replicate 254 None) 1 data =
        Inr ([Some (CHR ''['')] @ map Some ?txt @ post', 1 + 3 * length data)"
      "1 + 3 * length data + length post' = 255" using spec by auto
    have "length post' \<ge> 2" using p(2) True by arith
    then obtain x y r where post: "post' = x # y # r" by (cases post'; cases "tl post'") auto
    let ?n = "1 + 3 * length data"
    have m1: "c_memcpy ([Some (CHR ''['')] @ map Some ?txt @ post') ?n [Some (CHR '']'')] =
        Inr ([Some (CHR ''['')] @ map Some ?txt @ Some (CHR '']'') # y # r)"
      unfolding post by (simp add: c_memcpy_def overwrite_def l)
    have m2: "c_memcpy ([Some (CHR ''['')] @ map Some ?txt @ Some (CHR '']'') # y # r) (?n + 1) [Some (CHR 0x00)] =
        Inr ([Some (CHR ''['')] @ map Some ?txt @ [Some (CHR '']'')] @ Some (CHR 0x00) # r)"
      by (simp add: c_memcpy_def overwrite_def l)
    have "dumpHex data = c_string (map Some (''['' @ ?txt @ '']'') @ Some (CHR 0x00) # r)"
      unfolding dumpHex_def b bind_res.simps p(1) prod.case m1 m2 by simp
    also have "\<dots> = Inr (''['' @ ?txt @ '']'')"
      by (rule c_string_map) (use nn in simp)
    finally show ?thesis using True by simp
  next
    case False
    then have "dump_loop ([Some (CHR ''['')] @ replicate 254 None) 1 data = Inl (UB Out_Of_Bounds)"
      using spec by (auto split: if_splits)
    then show ?thesis using False unfolding dumpHex_def b by simp
  qed
qed

text \<open>A device whose first wait runs out of time, for the example.\<close>

definition slow_win :: "nat win_os" where
  "slow_win =
     \<lparr>wo_load_library = (\<lambda>w. (True, w)), wo_proc = (\<lambda>w n. True), wo_free_library = (\<lambda>w. w),
      wo_interfaces = (\<lambda>w. []), wo_devinfos = (\<lambda>w. []), wo_create_file = (\<lambda>p rw w. (Some 1, w)),
      wo_close_handle = (\<lambda>k w. w), wo_create_event = (\<lambda>w. (2, w)), wo_last_error = (\<lambda>w. 997),
      wo_message = (\<lambda>e. []), wo_errno = (\<lambda>w. 0), wo_attributes = (\<lambda>w k. None),
      wo_preparsed = (\<lambda>w k. False), wo_caps = (\<lambda>w k. None), wo_serial = (\<lambda>w k n. None),
      wo_manufacturer = (\<lambda>w k n. None), wo_product = (\<lambda>w k n. None), wo_indexed = (\<lambda>w k i n. None),
      wo_set_buffers = (\<lambda>k n w. (True, w)), wo_write_file = (\<lambda>k bs w. (True, w)),
      wo_write_result = (\<lambda>k w. (Some 0, w)), wo_read_file = (\<lambda>k e n w. (False, w + 1)),
      wo_wait = (\<lambda>e ms w. (False, w + 1)), wo_read_result = (\<lambda>k e w. (Some [of_nat w, 7], w + 1)),
      wo_cancel = (\<lambda>k w. w), wo_set_feature = (\<lambda>k bs w. (True, w)), wo_ioctl = (\<lambda>k c bs w. (True, w)),
      wo_ioctl_result = (\<lambda>k w. (None, w))\<rparr>"

definition slow_win_state :: "nat win_state" where
  "slow_win_state = \<lparr>wn_world = 0, lib_handle = True, wn_initialized = True,
     wn_heap = [Some ((wn_new_hid_device 2)\<lparr>wn_handle := Some 1, input_report_length := 64\<rparr>)]\<rparr>"

theorem wn_read_resumes_witness:
  "\<exists>s1 s2. wn_read_timeout slow_win (Some 0) 64 10 slow_win_state = (Inr (0, []), s1) \<and>
    wn_read slow_win (Some 0) 1 s1 = (Inr (1, [2]), s2)"
  using wn_read_resumes [of "Some 0" slow_win_state 0
      "(wn_new_hid_device 2)\<lparr>wn_handle := Some 1, input_report_length := 64\<rparr>" slow_win False 1 10 2 "[2, 7]" 3 64 1]
  by (simp add: wn_deref_def handle_at_def slow_win_state_def wn_new_hid_device_def slow_win_def hdl_def
      ERROR_IO_PENDING_def) blast

end
