(* ===== verification/Hidpp_Correct.thy ===== *)
theory Hidpp_Correct
  imports Linux_Correct Windows_Correct Hidpp_Device
begin

text \<open>
  What \<^verbatim>\<open>hidpp_device\<close> does over any backend that keeps the contract \<open>hid_backend\<close>, proved
  once in the context of the locale: the handle is alive between \<^verbatim>\<open>open\<close> and \<^verbatim>\<open>close\<close>, the
  operations on it have no undefined behaviour, and a read blocks on its own lock exactly if
  the backend has an error message. The properties are stated over the linux and the windows
  backend, through their interpretations of the locale.
\<close>

section \<open>Over any backend\<close>

definition dev_ok :: "('s \<Rightarrow> nat \<Rightarrow> bool) \<Rightarrow> hidpp_device \<Rightarrow> 's \<Rightarrow> bool" where
  "dev_ok alive d s \<longleftrightarrow> \<not> m_dev_lock d \<and> (\<forall>h. m_dev d = Some h \<longrightarrow> alive s h)"

context hid_backend
begin

lemma hidpp_open_ok:
  assumes "dev_ok alive d s" "hidpp_open api d s = (Inr b, d', s')"
  shows "dev_ok alive d' s'"
    "b \<longleftrightarrow> m_dev d' \<noteq> None" "m_dev d' = Some h \<Longrightarrow> \<not> alive s h" "alive s k \<Longrightarrow> alive s' k"
proof -
  define o' where "o' = (if m_vendorId d = 0 \<or> m_productId d = 0 then api_open_path api (m_path d) s
    else api_open api (m_vendorId d) (m_productId d) None s)"
  obtain ro s1 where o: "o' = (ro, s1)" by (cases o')
  have keep: "alive s1 k" if "alive s k" for k
    using that o open_keeps open_path_keeps unfolding o'_def by (metis (mono_tags))
  have new: "alive s1 h \<and> \<not> alive s h" if "ro = Inr (Some h)" for h
    using that o open_alive open_path_alive unfolding o'_def by (metis (mono_tags))
  have lk: "\<not> m_dev_lock d" using assms(1) by (simp add: dev_ok_def)
  have eq: "hidpp_open api d s =
      lock_guard (\<lambda>d s. case o' of
       (Inl e, s1) \<Rightarrow> (Inl e, d, s1)
     | (Inr None, s1) \<Rightarrow> (Inr False, d\<lparr>m_dev := None\<rparr>, s1)
     | (Inr (Some h), s1) \<Rightarrow>
         (case api_set_nonblocking api (Some h) 0 s1 of
            (Inl e, s2) \<Rightarrow> (Inl e, d\<lparr>m_dev := Some h\<rparr>, s2)
          | (Inr _, s2) \<Rightarrow> (Inr True, d\<lparr>m_dev := Some h\<rparr>, s2))) d s"
    using lk unfolding hidpp_open_def lock_guard_def o'_def
    by (cases "m_vendorId d = 0 \<or> m_productId d = 0") simp_all
  have "dev_ok alive d' s' \<and> (b \<longleftrightarrow> m_dev d' \<noteq> None) \<and> (\<forall>h. m_dev d' = Some h \<longrightarrow> \<not> alive s h) \<and>
      (\<forall>k. alive s k \<longrightarrow> alive s' k)"
  proof (cases ro)
    case (Inl e)
    then show ?thesis using assms(2) lk o by (cases e) (auto simp: eq lock_guard_def)
  next
    case (Inr p)
    show ?thesis
    proof (cases p)
      case None
      then show ?thesis
        using assms(2) lk o keep Inr by (auto simp: eq lock_guard_def dev_ok_def)
    next
      case (Some h)
      obtain ri s2 where n: "api_set_nonblocking api (Some h) 0 s1 = (ri, s2)" by fastforce
      then have "ri = Inr 0" "alive s2 = alive s1"
        using nonblocking_safe [of s1 h] new Some Inr by auto
      then show ?thesis
        using assms(2) lk o keep Inr Some n new by (auto simp: eq lock_guard_def dev_ok_def)
    qed
  qed
  then show "dev_ok alive d' s'"
    "b \<longleftrightarrow> m_dev d' \<noteq> None" "m_dev d' = Some h \<Longrightarrow> \<not> alive s h" "alive s k \<Longrightarrow> alive s' k"
    by auto
qed

lemma hidpp_open_thrown:
  assumes "dev_ok alive d s" "hidpp_open api d s = (Inl e, d', s')" "e \<noteq> Deadlock"
  shows "d' = d" "alive s k \<Longrightarrow> alive s' k"
proof -
  define o' where "o' = (if m_vendorId d = 0 \<or> m_productId d = 0 then api_open_path api (m_path d) s
    else api_open api (m_vendorId d) (m_productId d) None s)"
  obtain ro s1 where o: "o' = (ro, s1)" by (cases o')
  have keep: "alive s1 k" if "alive s k" for k
    using that o open_keeps open_path_keeps unfolding o'_def by (metis (mono_tags))
  have new: "alive s1 h" if "ro = Inr (Some h)" for h
    using that o open_alive open_path_alive unfolding o'_def by (metis (mono_tags))
  have set: "fst (api_set_nonblocking api (Some h) 0 s1) = Inr 0" if "ro = Inr (Some h)" for h
    using nonblocking_safe [OF new [OF that]] by (metis fst_conv surj_pair)
  have lk: "\<not> m_dev_lock d" using assms(1) by (simp add: dev_ok_def)
  have "d' = d \<and> (alive s k \<longrightarrow> alive s' k)" for k
    using assms(2,3) lk o keep set unfolding hidpp_open_def lock_guard_def
    by (auto simp: o'_def split: sum.splits option.splits prod.splits fault.splits if_splits)
  then show "d' = d" "alive s k \<Longrightarrow> alive s' k" by auto
qed

lemma hidpp_close_frees:
  assumes "dev_ok alive d s" "hidpp_close api d s = (Inr (), d', s')"
  shows "d' = d\<lparr>m_dev := None\<rparr> \<and>
    alive s' = (case m_dev d of None \<Rightarrow> alive s | Some h \<Rightarrow> (alive s)(h := False))"
proof (cases "m_dev d")
  case None
  then have "d\<lparr>m_dev := None\<rparr> = d" by (cases d) simp
  then show ?thesis
    using assms None by (simp add: hidpp_close_def lock_guard_def dev_ok_def)
next
  case (Some h)
  then have al: "alive s h" using assms(1) by (simp add: dev_ok_def)
  obtain ru s1 where c: "api_close api (Some h) s = (ru, s1)" by fastforce
  then have "ru = Inr ()" "s1 = s'" "d' = d\<lparr>m_dev := None\<rparr>"
    using assms Some by (cases ru; auto simp: hidpp_close_def lock_guard_def dev_ok_def split: fault.splits)+
  then show ?thesis using close_safe [OF al c] Some by simp
qed

lemma hidpp_close_back:
  assumes "dev_ok alive d s" "hidpp_close api d s = (Inl e, d', s')"
  shows "\<not> cpp_exception e"
proof (cases "m_dev d")
  case None
  then show ?thesis using assms by (simp add: hidpp_close_def lock_guard_def dev_ok_def)
next
  case (Some h)
  then have al: "alive s h" using assms(1) by (simp add: dev_ok_def)
  obtain ru s1 where c: "api_close api (Some h) s = (ru, s1)" by fastforce
  then have "ru = Inl e"
    using assms Some by (cases ru) (auto simp: hidpp_close_def lock_guard_def dev_ok_def split: fault.splits)
  then show ?thesis using close_safe [OF al c] by simp
qed

lemma hidpp_write_raw_ok:
  assumes "dev_ok alive d s" "m_dev d = Some h" "data \<noteq> []"
  shows "\<exists>n s'. hidpp_write_raw api data d s = (Inr n, d, s') \<and> alive s' = alive s"
proof -
  obtain ri s' where w: "api_write api (Some h) data s = (ri, s')" by fastforce
  then obtain k where "ri = Inr k" "alive s' = alive s"
    using write_safe [of s h data ri s'] assms by (auto simp: dev_ok_def)
  then show ?thesis
    using assms w by (simp add: hidpp_write_raw_def lock_guard_def dev_ok_def)
qed

text \<open>With an error message after the read, in any build: \<^verbatim>\<open>get_dev_error\<close> locks again.\<close>

lemma hidpp_read_error:
  assumes "dev_ok alive d s" "m_dev d = Some h"
    and "api_read api (Some h) (if b_msc b then readLen + 1 else readLen) s = (Inr (k, bs), s')"
    and "api_error api (Some h) s' = Inr (Some e)"
  shows "\<exists>d'. hidpp_read b tb api lib out readLen d s = (Inl Deadlock, d', s')"
  using assms
  by (cases "b_msc b") (auto simp: hidpp_read_def lock_guard_def get_dev_error_def dev_ok_def)

end

context closing_backend
begin

lemma hidpp_close_ok:
  assumes "dev_ok alive d s" "\<forall>h. m_dev d = Some h \<longrightarrow> closable s h"
  shows "\<exists>s'. hidpp_close api d s = (Inr (), d\<lparr>m_dev := None\<rparr>, s') \<and>
    alive s' = (case m_dev d of None \<Rightarrow> alive s | Some h \<Rightarrow> (alive s)(h := False))"
proof -
  obtain d' s' where c: "hidpp_close api d s = (Inr (), d', s')"
  proof (cases "m_dev d")
    case None
    then show thesis using that assms by (simp add: hidpp_close_def lock_guard_def dev_ok_def)
  next
    case (Some h)
    then obtain s' where "api_close api (Some h) s = (Inr (), s')"
      using assms close_returns [of s h] by (auto simp: dev_ok_def)
    then show thesis using that assms Some by (simp add: hidpp_close_def lock_guard_def dev_ok_def)
  qed
  then show ?thesis using hidpp_close_frees [OF assms(1) c] by blast
qed

end

text \<open>
  A read either puts the report at the start of the buffer, or finds an error message of the
  backend and then never returns.
\<close>

context returning_backend
begin

lemma hidpp_read_ok:
  assumes d: "dev_ok alive d s" "m_dev d = Some h" and b: "\<not> b_msc b" and tb: "tb_laws tb"
    and len: "readLen \<le> length out" and rd: "api_read api (Some h) readLen s = (rr, s')"
  shows "\<exists>k bs. rr = Inr (k, bs) \<and> length bs \<le> readLen \<and> alive s' = alive s \<and>
    (case api_error api (Some h) s' of
       Inr None \<Rightarrow> hidpp_read b tb api lib out readLen d s =
         (Inr (of_int k, overwrite out 0 (overwrite (replicate readLen 0) 0 bs)), d, s')
     | Inr (Some _) \<Rightarrow> (\<exists>d'. hidpp_read b tb api lib out readLen d s = (Inl Deadlock, d', s'))
     | Inl _ \<Rightarrow> False)"
proof -
  have al: "alive s h" using d by (simp add: dev_ok_def)
  obtain k bs where r: "rr = Inr (k, bs)" "length bs \<le> readLen" "alive s' = alive s"
    using read_safe [OF al rd] read_returns [OF al rd] by blast
  then obtain err where e: "api_error api (Some h) s' = Inr err" using error_safe [of s' h] al by auto
  have l: "length (overwrite (replicate readLen 0) 0 bs) = readLen" using r by simp
  have w: "tb_write tb out 0 (overwrite (replicate readLen 0) 0 bs) =
      Inr (overwrite out 0 (overwrite (replicate readLen 0) 0 bs), readLen)"
    using tb_lawsD(2) [OF tb, of 0 "overwrite (replicate readLen 0) 0 bs" out] len l by simp
  show ?thesis
    using d b rd r e w
    by (cases err) (auto simp: hidpp_read_def lock_guard_def get_dev_error_def dev_ok_def)
qed

end

section \<open>Properties over linux\<close>

text \<open>
  A \<^verbatim>\<open>hidpp_device\<close> gives back what it takes: after a successful \<^verbatim>\<open>open\<close> the device holds
  one fresh handle, the \<^verbatim>\<open>close\<close> that follows has no undefined behaviour and frees that handle
  and no other, and a second \<^verbatim>\<open>close\<close>, such as the one of the destructor, does nothing.
\<close>

theorem hidpp_open_close:
  assumes "dev_ok lx_alive d s" and "hidpp_open (linux_api os) d s = (Inr True, d1, s1)"
  shows "\<exists>h s2. m_dev d1 = Some h \<and> lx_alive s1 h \<and> \<not> lx_alive s h \<and>
    hidpp_close (linux_api os) d1 s1 = (Inr (), d1\<lparr>m_dev := None\<rparr>, s2) \<and>
    lx_alive s2 = (lx_alive s1)(h := False) \<and>
    hidpp_close (linux_api os) (d1\<lparr>m_dev := None\<rparr>) s2 = (Inr (), d1\<lparr>m_dev := None\<rparr>, s2)"
proof -
  obtain h where h: "m_dev d1 = Some h" "\<not> lx_alive s h" and ok: "dev_ok lx_alive d1 s1"
    using lx.hidpp_open_ok [OF assms] by auto
  obtain s2 where s2: "hidpp_close (linux_api os) d1 s1 = (Inr (), d1\<lparr>m_dev := None\<rparr>, s2)"
    "lx_alive s2 = (lx_alive s1)(h := False)"
    using lxc.hidpp_close_ok [OF ok] h(1) by auto
  moreover have "hidpp_close (linux_api os) (d1\<lparr>m_dev := None\<rparr>) s2 = (Inr (), d1\<lparr>m_dev := None\<rparr>, s2)"
    using ok by (simp add: hidpp_close_def lock_guard_def dev_ok_def)
  ultimately show ?thesis using h ok by (auto simp: dev_ok_def)
qed

theorem hidpp_open_close_witness:
  "\<exists>d1 s1 s2. hidpp_open (linux_api demo_os) (hidpp_device_path (Some ''hidraw0'')) (demo_state 3) =
      (Inr True, d1, s1) \<and> hidpp_close (linux_api demo_os) d1 s1 = (Inr (), d1\<lparr>m_dev := None\<rparr>, s2) \<and>
      \<not> lx_alive s2 0"
proof -
  let ?d = "hidpp_device_path (Some ''hidraw0'')"
  have ok: "dev_ok lx_alive ?d (demo_state 3)" by (simp add: dev_ok_def hidpp_device_path_def)
  have o: "hidpp_open (linux_api demo_os) ?d (demo_state 3) =
      (Inr True, ?d\<lparr>m_dev := Some 0\<rparr>, (demo_state 3)\<lparr>lx_heap := [Some demo_device]\<rparr>)"
    by (simp add: hidpp_open_def lock_guard_def hidpp_device_path_def linux_api_def demo_state_def
        demo_open_path demo_device_def lx_set_nonblocking_def lx_deref_def lx_put_def)
  from hidpp_open_close [OF ok o] show ?thesis using o by (auto simp: hidpp_device_path_def)
qed

text \<open>
  C25. A failed read never returns. When the kernel fails the blocking \<^verbatim>\<open>read\<close> of an open
  device with an error other than \<^verbatim>\<open>EAGAIN\<close> or \<^verbatim>\<open>EINPROGRESS\<close>, for instance because the
  wallet was unplugged, the linux backend stores an error message, and \<^verbatim>\<open>hidpp_device::read\<close>
  asks for it through \<^verbatim>\<open>get_dev_error\<close> while it holds \<^verbatim>\<open>m_dev_lock\<close>, which
  \<^verbatim>\<open>get_dev_error\<close> locks again: the thread blocks on its own mutex for ever.
\<close>

theorem hidpp_read_error_deadlocks:
  assumes "dev_ok lx_alive d s" and "m_dev d = Some h" and "lx_deref (Some h) s = Inr (h, dev)"
    and "blocking dev" and "\<not> b_msc b" and "tb_laws tb" and "readLen \<le> length out"
    and "os_read os (device_handle dev) readLen (lx_world s) = (None, w1)"
    and "os_errno os w1 \<noteq> 11" and "os_errno os w1 \<noteq> 115"
  shows "\<exists>d' s'. hidpp_read b tb (linux_api os) lib out readLen d s = (Inl Deadlock, d', s')"
proof -
  let ?d = "register_device_error os w1 (Some (errno_msg os w1)) (register_device_error os (lx_world s) None dev)"
  let ?s = "lx_put h (Some ?d) (s\<lparr>lx_world := w1\<rparr>)"
  have h: "h < length (lx_heap s)" using assms(3) by (simp add: lx_deref_Inr)
  have rd: "api_read (linux_api os) (Some h) readLen s = (Inr (- 1, []), ?s)"
    using assms(3,4,8,9,10) by (simp add: linux_api_def lx_read_def lx_read_timeout_def lx_read_now_def
        register_device_error_def EAGAIN_def EINPROGRESS_def Let_def)
  have "lx_deref (Some h) ?s = Inr (h, ?d)" using h by (simp add: lx_deref_def lx_put_def)
  then have "\<exists>e. api_error (linux_api os) (Some h) ?s = Inr (Some e)"
    by (simp add: linux_api_def lx_error_def register_device_error_def utf8_to_wchar_t_def
        split: option.split)
  then show ?thesis
    using lx.hidpp_read_ok [OF assms(1,2,5,6,7) rd, of lib] by auto
qed

text \<open>The demonstration machine with a device that was unplugged: \<^verbatim>\<open>read\<close> fails with EIO.\<close>

definition unplugged_os :: "(int \<times> int list) linux_os" where
  "unplugged_os = demo_os\<lparr>os_read := (\<lambda>fd n w. (None, w)), os_errno := (\<lambda>w. 5)\<rparr>"

theorem hidpp_read_error_deadlocks_witness:
  "\<exists>d' s'. hidpp_read \<lparr>b_win32 = False, b_msc = False\<rparr> tb_vec (linux_api unplugged_os)
      \<lparr>narrow = (\<lambda>_. None), tl_strerror = (\<lambda>_. [])\<rparr> (replicate 64 0) 64
      ((hidpp_device_path None)\<lparr>m_dev := Some 0\<rparr>) demo_open = (Inl Deadlock, d', s')"
  by (rule hidpp_read_error_deadlocks [where h = 0 and dev = "new_hid_device\<lparr>device_handle := 3\<rparr>"
        and ?w1.0 = "(3, [])"])
    (simp_all add: dev_ok_def hidpp_device_path_def demo_open_def demo_state_def lx_alive_def
      lx_deref_def new_hid_device_def tb_vec_laws unplugged_os_def demo_os_def)

section \<open>Properties over windows\<close>

text \<open>
  On windows one failed operation makes the device useless: the backend never clears its
  error text, \<^verbatim>\<open>hidpp_device::read\<close> takes a non-null \<^verbatim>\<open>hid_error\<close> after any read, also a
  successful one, for a failure of that read, and asks for the text while it holds the lock
  \<^verbatim>\<open>get_dev_error\<close> takes: every later read blocks for ever.
\<close>

theorem wn_read_after_error_deadlocks:
  assumes "dev_ok wn_alive d s" and "m_dev d = Some h" and "has_error s h"
  shows "\<exists>d' s'. hidpp_read b tb (windows_api os) lib out readLen d s = (Inl Deadlock, d', s')"
proof -
  let ?n = "if b_msc b then readLen + 1 else readLen"
  obtain rr s' where rd: "api_read (windows_api os) (Some h) ?n s = (rr, s')" by fastforce
  have al: "wn_alive s h" using assms(1,2) by (simp add: dev_ok_def)
  obtain k bs where r: "rr = Inr (k, bs)" using wn.read_safe [OF al rd] wn.read_returns [OF al rd] by blast
  have "has_error s' h"
    using wn_read_keeps_error [OF assms(3), of os ?n "- 1"] rd by (simp add: windows_api_def wn_read_def)
  then obtain e where "api_error (windows_api os) (Some h) s' = Inr (Some e)"
    by (auto simp: has_error_def windows_api_def wn_error_def)
  then show ?thesis using wn.hidpp_read_error [OF assms(1,2)] rd r by blast
qed

text \<open>
  A windows machine for the example: its device failed a write before, and now answers every
  read with 64 bytes.
\<close>

definition demo_win :: "unit win_os" where
  "demo_win =
     \<lparr>wo_load_library = (\<lambda>w. (True, w)), wo_proc = (\<lambda>w n. True), wo_free_library = (\<lambda>w. w),
      wo_interfaces = (\<lambda>w. []), wo_devinfos = (\<lambda>w. []), wo_create_file = (\<lambda>p rw w. (Some 1, w)),
      wo_close_handle = (\<lambda>k w. w), wo_create_event = (\<lambda>w. (2, w)), wo_last_error = (\<lambda>w. 5),
      wo_message = (\<lambda>e. [68, 13, 10]), wo_errno = (\<lambda>w. 0), wo_attributes = (\<lambda>w k. None),
      wo_preparsed = (\<lambda>w k. True), wo_caps = (\<lambda>w k. None), wo_serial = (\<lambda>w k n. None),
      wo_manufacturer = (\<lambda>w k n. None), wo_product = (\<lambda>w k n. None), wo_indexed = (\<lambda>w k i n. None),
      wo_set_buffers = (\<lambda>k n w. (True, w)), wo_write_file = (\<lambda>k bs w. (False, w)),
      wo_write_result = (\<lambda>k w. (None, w)), wo_read_file = (\<lambda>k e n w. (True, w)),
      wo_wait = (\<lambda>e ms w. (True, w)), wo_read_result = (\<lambda>k e w. (Some (replicate 64 1), w)),
      wo_cancel = (\<lambda>k w. w), wo_set_feature = (\<lambda>k bs w. (True, w)), wo_ioctl = (\<lambda>k c bs w. (True, w)),
      wo_ioctl_result = (\<lambda>k w. (None, w))\<rparr>"

definition demo_win_state :: "unit win_state" where
  "demo_win_state = \<lparr>wn_world = (), lib_handle = True, wn_initialized = True,
     wn_heap = [Some ((wn_new_hid_device 2)\<lparr>wn_handle := Some 1, input_report_length := 64\<rparr>)]\<rparr>"

theorem wn_read_after_error_deadlocks_witness:
  "\<exists>d' s'. hidpp_read \<lparr>b_win32 = True, b_msc = True\<rparr> tb_vec (windows_api demo_win)
      \<lparr>narrow = (\<lambda>_. None), tl_strerror = (\<lambda>_. [])\<rparr> (replicate 64 0) 64
      ((hidpp_device_path None)\<lparr>m_dev := Some 0\<rparr>) (snd (wn_write demo_win (Some 0) [1] demo_win_state)) =
    (Inl Deadlock, d', s')"
  by (rule wn_read_after_error_deadlocks [where h = 0])
    (simp_all add: dev_ok_def hidpp_device_path_def wn_write_def wn_deref_def handle_at_def
      demo_win_state_def demo_win_def ERROR_IO_PENDING_def wn_put_def wn_alive_def live_def
      has_error_def register_error_def)

end
