(* ===== verification/Nanos_Wallet.thy ===== *)
theory Nanos_Wallet
  imports Frame_Io
begin

text \<open>
  \<^verbatim>\<open>minter::nanos_wallet\<close> (\<^verbatim>\<open>src/src/nanos_wallet.cpp\<close>) with the constants of
  \<^verbatim>\<open>mhwallet_core.in.h\<close> and \<^verbatim>\<open>ledger_status_to_string\<close> of \<^verbatim>\<open>utils.cpp\<close>: opening the device
  by product id, the guarded exchange with its retry loop, and the commands of the Minter
  application and of the launcher. The state is the framer, the flag \<^verbatim>\<open>m_valid\<close> and the mutex
  \<^verbatim>\<open>m_devLock\<close>; an operation returns its result or the exception it throws, with the state
  it leaves. Operations that loop until the device answers are partial. Log output is not
  modelled, but the call of \<^verbatim>\<open>getError\<close> in its arguments is.
\<close>

section \<open>Constants\<close>

definition DEVICE_CLASS :: u8 where "DEVICE_CLASS = 0xe0"
definition LEDGER_VID :: u16 where "LEDGER_VID = 0x2c97"
definition NANOS_PID_ROOT :: u16 where "NANOS_PID_ROOT = 0x1011"
definition NANOS_PID :: u16 where "NANOS_PID = 0x0001"
definition NANOS_PID_16_APP :: u16 where "NANOS_PID_16_APP = 0x1005"
definition NANOX_PID :: u16 where "NANOX_PID = 0x0004"
definition CODE_SUCCESS :: u16 where "CODE_SUCCESS = 0x9000"
definition CODE_USER_REJECTED :: u16 where "CODE_USER_REJECTED = 0x6985"
definition CODE_INVALID_PARAM :: u16 where "CODE_INVALID_PARAM = 0x6b01"
definition CMD_GET_VERSION :: u8 where "CMD_GET_VERSION = 0x01"
definition CMD_GET_ADDRESS :: u8 where "CMD_GET_ADDRESS = push_bit 1 0x01"
definition CMD_SIGN_TX :: u8 where "CMD_SIGN_TX = push_bit 2 0x01"

lemmas wallet_consts = DEVICE_CLASS_def LEDGER_VID_def NANOS_PID_ROOT_def NANOS_PID_def
  NANOS_PID_16_APP_def CODE_SUCCESS_def CMD_GET_VERSION_def CMD_GET_ADDRESS_def CMD_SIGN_TX_def

definition ledger_status_to_string :: "u16 \<Rightarrow> string" where
  "ledger_status_to_string status =
     (if status = CODE_SUCCESS then ''success''
      else if status = CODE_NO_STATUS_RESULT then ''no_status_result''
      else if status = CODE_INVALID_PARAM then ''invalid_parameter''
      else if status = CODE_USER_REJECTED then ''user_rejected''
      else ''unknown_error'')"

section \<open>State\<close>

datatype dev_connection_type = DISCONNECTED | APP_NOT_OPENED | PERMISSION_ERROR | APP_OPENED

record app_item =
  ai_name :: string
  ai_hash :: "u8 list"
  ai_hash_code_data :: "u8 list"
  ai_flags :: u64

record signature =
  sig_r :: "u8 list"
  sig_s :: "u8 list"
  sig_v :: "u8 list"
  sig_success :: bool

record nanos_wallet =
  m_framer :: frame_io_apdu
  m_valid :: bool
  m_devLock :: bool

definition nanos_wallet_new :: "tb_ops \<Rightarrow> nanos_wallet" where
  "nanos_wallet_new tb =
     \<lparr>m_framer = frame_io_apdu_new tb (hidpp_device_ids LEDGER_VID NANOS_PID), m_valid = False,
      m_devLock = False\<rparr>"

section \<open>Steps\<close>

type_synonym ('a, 's) wallet_op = "nanos_wallet \<Rightarrow> 's \<Rightarrow> 'a res \<times> nanos_wallet \<times> 's"

definition wret :: "'a \<Rightarrow> ('a, 's) wallet_op" where
  "wret x w s = (Inr x, w, s)"

definition wbind :: "('a, 's) wallet_op \<Rightarrow> ('a \<Rightarrow> ('b, 's) wallet_op) \<Rightarrow> ('b, 's) wallet_op" where
  "wbind m k w s =
     (case m w s of (Inl e, w1, s1) \<Rightarrow> (Inl e, w1, s1) | (Inr x, w1, s1) \<Rightarrow> k x w1 s1)"

text \<open>\<^verbatim>\<open>std::lock_guard\<close> on \<^verbatim>\<open>m_devLock\<close>.\<close>

definition wlock :: "('a, 's) wallet_op \<Rightarrow> ('a, 's) wallet_op" where
  "wlock body w s =
     (if m_devLock w then (Inl Deadlock, w, s)
      else (case body (w\<lparr>m_devLock := True\<rparr>) s of
              (Inl Deadlock, w1, s1) \<Rightarrow> (Inl Deadlock, w1, s1)
            | (r, w1, s1) \<Rightarrow> (r, w1\<lparr>m_devLock := False\<rparr>, s1)))"

text \<open>An operation of \<^verbatim>\<open>m_framer.io()\<close>.\<close>

definition wio :: "('a, 's) dev_op \<Rightarrow> ('a, 's) wallet_op" where
  "wio f w s =
     (case f (m_io (m_framer w)) s of
        (r, d, s1) \<Rightarrow> (r, w\<lparr>m_framer := (m_framer w)\<lparr>m_io := d\<rparr>\<rparr>, s1))"

definition wenumerate :: "'s env \<Rightarrow> u16 \<Rightarrow> u16 \<Rightarrow> (dev_info list, 's) wallet_op" where
  "wenumerate env vid pid w s =
     (case enumerate_devices (env_api env) vid pid s of (r, s1) \<Rightarrow> (r, w, s1))"

definition io_valid :: "nanos_wallet \<Rightarrow> bool" where
  "io_valid w \<longleftrightarrow> hidpp_valid (m_io (m_framer w))"

section \<open>Opening and closing\<close>

text \<open>\<^verbatim>\<open>close()\<close>, which does not lock.\<close>

definition wallet_close :: "'s env \<Rightarrow> (unit, 's) wallet_op" where
  "wallet_close env w s =
     (if io_valid w
      then wbind (wio (hidpp_close (env_api env))) (\<lambda>_ w s. (Inr (), w\<lparr>m_valid := False\<rparr>, s)) w s
      else (Inr (), w\<lparr>m_valid := False\<rparr>, s))"

text \<open>
  \<^verbatim>\<open>m_framer = hidpp_device(vid, pid)\<close>: the member-wise assignment from a temporary framer;
  the handle the framer held is overwritten, not closed.
\<close>

definition assign_framer :: "'s env \<Rightarrow> u16 \<Rightarrow> u16 \<Rightarrow> (unit, 's) wallet_op" where
  "assign_framer env vid pid w s =
     (let tmp = frame_io_apdu_new (env_tb env) (hidpp_device_ids vid pid)
      in (Inr (), w\<lparr>m_framer := tmp\<lparr>m_io := hidpp_assign (m_io (m_framer w)) (m_io tmp)\<rparr>\<rparr>, s))"

text \<open>
  The end of each opening function: open, on failure ask for the error text and return
  \<open>failed\<close>; otherwise \<^verbatim>\<open>m_valid = m_framer.io().valid()\<close>.
\<close>

definition open_framer :: "'s env \<Rightarrow> 'a \<Rightarrow> (bool \<Rightarrow> 'a) \<Rightarrow> ('a, 's) wallet_op" where
  "open_framer env failed opened =
     wbind (wio (hidpp_open (env_api env))) (\<lambda>ok.
       if \<not> ok then wbind (wio (getError (env_api env) (env_lib env))) (\<lambda>_. wret failed)
       else (\<lambda>w s. (Inr (opened (io_valid w)), w\<lparr>m_valid := io_valid w\<rparr>, s)))"

definition init_ext :: "'s env \<Rightarrow> u16 \<Rightarrow> (dev_connection_type, 's) wallet_op" where
  "init_ext env product_id = wlock (
     wbind (wenumerate env LEDGER_VID product_id) (\<lambda>app_devs w s.
       if m_valid w \<and> app_devs \<noteq> [] then wret APP_OPENED w s
       else
         wbind (if m_valid w then wallet_close env else wret ()) (\<lambda>_.
         wbind (wenumerate env LEDGER_VID NANOS_PID_ROOT) (\<lambda>system_devs.
           if system_devs = [] \<and> app_devs = [] then wret DISCONNECTED
           else if system_devs \<noteq> [] then wret APP_NOT_OPENED
           else
             wbind (assign_framer env (di_vendor_id (hd app_devs)) (di_product_id (hd app_devs))) (\<lambda>_.
               open_framer env PERMISSION_ERROR (\<lambda>_. APP_OPENED)))) w s))"

definition reopen_with_app :: "'s env \<Rightarrow> u16 \<Rightarrow> (dev_connection_type, 's) wallet_op" where
  "reopen_with_app env product_id = wbind (wallet_close env) (\<lambda>_. init_ext env product_id)"

definition init_ext_root :: "'s env \<Rightarrow> (dev_connection_type, 's) wallet_op" where
  "init_ext_root env = wlock (
     wbind (wenumerate env LEDGER_VID NANOS_PID_ROOT) (\<lambda>system_devs w s.
       if m_valid w \<and> system_devs \<noteq> [] then wret APP_NOT_OPENED w s
       else
         wbind (if m_valid w then wallet_close env else wret ()) (\<lambda>_.
           if system_devs = [] then wret DISCONNECTED
           else
             wbind (assign_framer env LEDGER_VID NANOS_PID_ROOT) (\<lambda>_.
               open_framer env PERMISSION_ERROR (\<lambda>_. APP_NOT_OPENED))) w s))"

definition wallet_init :: "'s env \<Rightarrow> u16 \<Rightarrow> (bool, 's) wallet_op" where
  "wallet_init env product_id = wlock (
     wbind (wenumerate env LEDGER_VID NANOS_PID_ROOT) (\<lambda>system_devs.
     wbind (wenumerate env LEDGER_VID product_id) (\<lambda>app_devs.
       if system_devs = [] \<and> app_devs = [] then wret False
       else if system_devs \<noteq> [] then wret False
       else
         wbind (assign_framer env (di_vendor_id (hd app_devs)) product_id) (\<lambda>_.
           open_framer env False (\<lambda>valid. valid)))))"

definition init_root :: "'s env \<Rightarrow> (bool, 's) wallet_op" where
  "init_root env = wlock (
     wbind (wenumerate env LEDGER_VID NANOS_PID_ROOT) (\<lambda>system_devs.
       if system_devs = [] then wret False
       else
         wbind (assign_framer env (di_vendor_id (hd system_devs)) (di_product_id (hd system_devs))) (\<lambda>_.
           open_framer env False (\<lambda>valid. valid))))"

section \<open>Exchange\<close>

type_synonym ('a, 's) wallet_run = "nanos_wallet \<Rightarrow> 's \<Rightarrow> ('a res \<times> nanos_wallet \<times> 's) option"

text \<open>
  The loop of \<^verbatim>\<open>exchange\<close>: the bytes with the value left in \<^verbatim>\<open>*res_code\<close>, which \<open>code\<close>
  holds before. A wrong sequence number closes the device, sleeps a second, opens it again
  and repeats; whether the device opened is only seen at the top of the loop.
\<close>

partial_function (option) exchange_loop ::
    "'s env \<Rightarrow> APDU \<Rightarrow> u16 \<Rightarrow> nanos_wallet \<Rightarrow> 's \<Rightarrow>
     ((u8 list \<times> u16) res \<times> nanos_wallet \<times> 's) option" where
  "exchange_loop env a code w s =
     (if \<not> io_valid w then Some (Inr ([], code), w\<lparr>m_valid := False\<rparr>, s)
      else case frame_exchange env a (m_framer w) s of
        None \<Rightarrow> None
      | Some (Inr r, fr, s1) \<Rightarrow> Some (Inr r, w\<lparr>m_framer := fr\<rparr>, s1)
      | Some (Inl (Wrong_Seqno expected given), fr, s1) \<Rightarrow>
          (case wio (hidpp_close (env_api env)) (w\<lparr>m_framer := fr\<rparr>) s1 of
             (Inl e, w2, s2) \<Rightarrow> Some (Inl e, w2, s2)
           | (Inr _, w2, s2) \<Rightarrow>
               (case wio (hidpp_open (env_api env)) w2 (env_sleep env 1000 s2) of
                  (Inl e, w3, s3) \<Rightarrow> Some (Inl e, w3, s3)
                | (Inr _, w3, s3) \<Rightarrow> exchange_loop env a code w3 s3))
      | Some (Inl e, fr, s1) \<Rightarrow> Some (Inl e, w\<lparr>m_framer := fr\<rparr>, s1))"

definition wallet_exchange :: "'s env \<Rightarrow> APDU \<Rightarrow> u16 \<Rightarrow> (u8 list \<times> u16, 's) wallet_run" where
  "wallet_exchange env a code w s =
     (if m_devLock w then Some (Inl Deadlock, w, s)
      else if \<not> m_valid w then
        Some (Inl (Runtime_Error ''trying to send data to uninitialized device''), w, s)
      else case exchange_loop env a code (w\<lparr>m_devLock := True\<rparr>) s of
        None \<Rightarrow> None
      | Some (Inl Deadlock, w1, s1) \<Rightarrow> Some (Inl Deadlock, w1, s1)
      | Some (r, w1, s1) \<Rightarrow> Some (r, w1\<lparr>m_devLock := False\<rparr>, s1))"

text \<open>
  What every command does around its exchange: start with \<^verbatim>\<open>status = CODE_SUCCESS\<close>, throw
  \<^verbatim>\<open>exchange_error\<close> for any other status afterwards, and decode the response.
\<close>

definition command :: "'s env \<Rightarrow> APDU res \<Rightarrow> string \<Rightarrow> (u8 list \<Rightarrow> 'a res) \<Rightarrow> ('a, 's) wallet_run" where
  "command env apdu failure decode w s =
     (case apdu of
        Inl e \<Rightarrow> Some (Inl e, w, s)
      | Inr a \<Rightarrow>
          (case wallet_exchange env a CODE_SUCCESS w s of
             None \<Rightarrow> None
           | Some (Inl e, w1, s1) \<Rightarrow> Some (Inl e, w1, s1)
           | Some (Inr (response, status), w1, s1) \<Rightarrow>
               (if status \<noteq> CODE_SUCCESS
                then Some (Inl (Exchange_Error (failure @ ledger_status_to_string status) status), w1, s1)
                else Some (decode response, w1, s1))))"

text \<open>An APDU of the device class; the payload array is filled up with zeros.\<close>

definition device_apdu :: "u8 \<Rightarrow> u8 \<Rightarrow> nat \<Rightarrow> u8 list \<Rightarrow> APDU res" where
  "device_apdu cmd param1 sz bytes =
     bind_res (c_memcpy (replicate 255 0) 0 bytes) (\<lambda>pl.
       Inr \<lparr>cla = DEVICE_CLASS, ins = cmd, p1 = param1, p2 = 0, payload_size = sz, payload = pl\<rparr>)"

section \<open>Commands\<close>

definition get_address_apdu :: "tb_ops \<Rightarrow> u32 \<Rightarrow> bool \<Rightarrow> APDU res" where
  "get_address_apdu tb derive_index silent =
     device_apdu CMD_GET_ADDRESS (if silent then 1 else 0) 4 (take 4 (tb_put32 tb derive_index))"

definition get_address :: "'s env \<Rightarrow> u32 \<Rightarrow> bool \<Rightarrow> (u8 list, 's) wallet_run" where
  "get_address env derive_index silent =
     command env (get_address_apdu (env_tb env) derive_index silent) ''Unable to get address: ''
       (\<lambda>response. tb_take_range (env_tb env) response 0 20)"

definition sign_tx_apdu :: "tb_ops \<Rightarrow> u8 list \<Rightarrow> u32 \<Rightarrow> APDU res" where
  "sign_tx_apdu tb raw_tx derive_index =
     bind_res (tb_write tb (tb_new tb 36) 0 (tb_put32 tb derive_index)) (\<lambda>(unsignedHash, _).
     bind_res (tb_write tb unsignedHash 4 raw_tx) (\<lambda>(unsignedHash, _).
       device_apdu CMD_SIGN_TX 0 (4 + 32) unsignedHash))"

definition signature_of :: "tb_ops \<Rightarrow> u8 list \<Rightarrow> signature res" where
  "signature_of tb response =
     bind_res (tb_take_first tb response 32) (\<lambda>r.
     bind_res (tb_take_range tb response 32 64) (\<lambda>s.
     bind_res (tb_take_last tb response 1) (\<lambda>v.
       Inr \<lparr>sig_r = r, sig_s = s, sig_v = v, sig_success = True\<rparr>)))"

definition sign_tx :: "'s env \<Rightarrow> u8 list \<Rightarrow> u32 \<Rightarrow> (signature, 's) wallet_run" where
  "sign_tx env raw_tx derive_index =
     command env (sign_tx_apdu (env_tb env) raw_tx derive_index) ''Unable to sign transaction: ''
       (signature_of (env_tb env))"

definition get_app_version_apdu :: "APDU res" where
  "get_app_version_apdu = device_apdu CMD_GET_VERSION 0 0 []"

definition get_app_version :: "'s env \<Rightarrow> (string, 's) wallet_run" where
  "get_app_version env =
     command env get_app_version_apdu ''Unable to get app version: ''
       (\<lambda>response.
          bind_res (tb_at (env_tb env) response 0) (\<lambda>maj.
          bind_res (tb_at (env_tb env) response 1) (\<lambda>mn.
          bind_res (tb_at (env_tb env) response 2) (\<lambda>patch.
            Inr (dec_nat (unat maj) @ ''.'' @ dec_nat (unat mn) @ ''.'' @ dec_nat (unat patch))))))"

text \<open>The loop over the entries of the application list; the first byte was skipped.\<close>

definition parse_app :: "tb_ops \<Rightarrow> u8 list \<Rightarrow> nat \<Rightarrow> (app_item \<times> nat) res" where
  "parse_app tb response offset =
     (let offset = offset + 1 in
      bind_res (tb_num32 tb response offset) (\<lambda>flags.
      let offset = offset + 4 in
      bind_res (tb_take_range tb response offset (offset + 32)) (\<lambda>hash_code_data.
      let offset = offset + 32 in
      bind_res (tb_take_range tb response offset (offset + 32)) (\<lambda>hash.
      let offset = offset + 32 in
      bind_res (tb_sub tb response offset) (\<lambda>nameLen.
      bind_res (tb_take_range tb response (offset + 1) (offset + 1 + unat nameLen)) (\<lambda>nameBytes.
        Inr (\<lparr>ai_name = tb_to_string tb nameBytes, ai_hash = hash,
              ai_hash_code_data = hash_code_data, ai_flags = ucast flags\<rparr>,
             offset + (1 + unat nameLen))))))))"

partial_function (option) parse_apps ::
    "tb_ops \<Rightarrow> u8 list \<Rightarrow> nat \<Rightarrow> app_item list \<Rightarrow> app_item list res option" where
  "parse_apps tb response offset out =
     (if offset = length response then Some (Inr out)
      else case parse_app tb response offset of
        Inl e \<Rightarrow> Some (Inl e)
      | Inr (item, offset') \<Rightarrow> parse_apps tb response offset' (out @ [item]))"

definition parse_app_list :: "tb_ops \<Rightarrow> u8 list \<Rightarrow> app_item list res option" where
  "parse_app_list tb response =
     (if response = [] then Some (Inr []) else parse_apps tb response 1 [])"

definition get_app_list_apdu :: "APDU res" where
  "get_app_list_apdu = device_apdu 0xDE 0 0 []"

definition get_app_list :: "'s env \<Rightarrow> (app_item list, 's) wallet_run" where
  "get_app_list env w s =
     (case command env get_app_list_apdu ''Unable to get app version: '' Inr w s of
        None \<Rightarrow> None
      | Some (Inl e, w1, s1) \<Rightarrow> Some (Inl e, w1, s1)
      | Some (Inr response, w1, s1) \<Rightarrow>
          map_option (\<lambda>r. (r, w1, s1)) (parse_app_list (env_tb env) response))"

section \<open>Running an application\<close>

text \<open>The last product id in the list that is not the launcher's.\<close>

fun last_app_pid :: "dev_info list \<Rightarrow> bool \<times> u16 \<Rightarrow> bool \<times> u16" where
  "last_app_pid [] r = r"
| "last_app_pid (d # ds) r =
     last_app_pid ds (if di_product_id d \<noteq> NANOS_PID_ROOT then (True, di_product_id d) else r)"

text \<open>The waiting loop; \<open>n\<close> is the number of rounds already done.\<close>

function wait_for_app :: "'s env \<Rightarrow> nat \<Rightarrow> bool \<times> u16 \<Rightarrow> 's \<Rightarrow> u16 res \<times> 's" where
  "wait_for_app env n r s =
     (case enumerate_devices (env_api env) LEDGER_VID 0 (env_sleep env 200 s) of
        (Inl e, s1) \<Rightarrow> (Inl e, s1)
      | (Inr devs, s1) \<Rightarrow>
          (let (found, pid) = last_app_pid devs r in
           if n + 1 \<ge> 300 then (Inr pid, s1)
           else if found then (Inr pid, s1)
           else wait_for_app env (n + 1) (found, pid) s1))"
  by pat_completeness auto
termination
  by (relation "measure (\<lambda>(env, n, r, s). 300 - n)") auto

declare wait_for_app.simps [simp del]

definition run_app_apdu :: "tb_ops \<Rightarrow> string \<Rightarrow> APDU res" where
  "run_app_apdu tb name = device_apdu 0xD8 0 (length name) (tb_from_string_raw tb name)"

definition run_app :: "'s env \<Rightarrow> string \<Rightarrow> (u16, 's) wallet_run" where
  "run_app env name w s =
     (case command env (run_app_apdu (env_tb env) name) (''Unable to run app '' @ name @ '': '') Inr w s of
        None \<Rightarrow> None
      | Some (Inl e, w1, s1) \<Rightarrow> Some (Inl e, w1, s1)
      | Some (Inr _, w1, s1) \<Rightarrow>
          (case wait_for_app env 0 (False, 0) s1 of (r, s2) \<Rightarrow> Some (r, w1, s2)))"

fun first_app_pid :: "dev_info list \<Rightarrow> u16" where
  "first_app_pid [] = 0"
| "first_app_pid (d # ds) = (if di_product_id d \<noteq> NANOS_PID_ROOT then di_product_id d else first_app_pid ds)"

definition get_opened_app_pid :: "'s env \<Rightarrow> (u16, 's) wallet_op" where
  "get_opened_app_pid env = wlock (
     wbind (wenumerate env LEDGER_VID 0) (\<lambda>system_devs. wret (first_app_pid system_devs)))"

end
