(* ===== verification/Wallet_Correct.thy ===== *)
theory Wallet_Correct
  imports Nanos_Wallet Frame_Correct Hidpp_Correct
begin

text \<open>
  What the wallet's commands return for the responses of a device, the application list as a
  format with a round trip, and the retry loop and its two ends (recovery, and a lost device that
  looks like success).
\<close>

section \<open>Commands\<close>

text \<open>
  The device answers the APDU with \<open>data\<close> and the status \<open>sw\<close>, in packets padded with \<open>pad\<close>,
  of a length the framer puts together right.
\<close>

definition responds ::
    "'s env \<Rightarrow> frame_io_apdu \<Rightarrow> APDU \<Rightarrow> 's \<Rightarrow> u8 \<Rightarrow> u8 list \<Rightarrow> u16 \<Rightarrow> bool" where
  "responds env fr a s pad data sw \<longleftrightarrow>
     tb_laws (env_tb env) \<and> apdu_wf a \<and> framer_at 0 (frame_reset fr) \<and>
     (\<exists>s1. send_packets env (wire_packets 0 (message (apdu_bytes a))) (m_io fr) s =
             (Inr (), m_io fr, s1) \<and>
           supplies env (m_dev (m_io fr)) s1 (response_packets pad (response data sw))) \<and>
     (length data \<le> 55 \<or> 61 \<le> length data \<and> length data \<le> 114)"

text \<open>A wallet whose device was opened, between two calls.\<close>

definition wallet_ready :: "nanos_wallet \<Rightarrow> bool" where
  "wallet_ready w \<longleftrightarrow> m_valid w \<and> \<not> m_devLock w \<and> io_valid w"

lemma wallet_id [simp]: "\<not> m_devLock w \<Longrightarrow> w\<lparr>m_devLock := False\<rparr> = w"
  by (cases w) simp

lemma responds_exchange:
  assumes "responds env fr a s pad data sw"
  obtains fr' s' where "frame_exchange env a fr s = Some (Inr (data, sw), fr', s')"
    "framer_at 0 fr'" "m_io fr' = m_io fr"
  using assms frame_exchange_ok [of env a fr s _ pad data sw] unfolding responds_def by blast

text \<open>With the state after the exchange: the packets of the response are read, no more.\<close>

lemma wallet_exchange_after:
  assumes "wallet_ready w" "tb_laws (env_tb env)" "apdu_wf a" "framer_at 0 (frame_reset (m_framer w))"
    and "send_packets env (wire_packets 0 (message (apdu_bytes a))) (m_io (m_framer w)) s =
      (Inr (), m_io (m_framer w), s1)"
    and "supplies env (m_dev (m_io (m_framer w))) s1 (response_packets pad (response data sw))"
    and "length data \<le> 55 \<or> 61 \<le> length data \<and> length data \<le> 114"
  shows "\<exists>w'. wallet_exchange env a code w s =
      Some (Inr (data, sw), w', after_reads env (m_dev (m_io (m_framer w))) s1
        (length (response_packets pad (response data sw)))) \<and>
    wallet_ready w' \<and> m_io (m_framer w') = m_io (m_framer w) \<and> framer_at 0 (m_framer w')"
proof -
  let ?s' = "after_reads env (m_dev (m_io (m_framer w))) s1 (length (response_packets pad (response data sw)))"
  obtain fr' where x: "frame_exchange env a (m_framer w) s = Some (Inr (data, sw), fr', ?s')"
    "framer_at 0 fr'" "m_io fr' = m_io (m_framer w)"
    using frame_exchange_ok [OF assms(2-7)] by blast
  have "exchange_loop env a code (w\<lparr>m_devLock := True\<rparr>) s =
      Some (Inr (data, sw), w\<lparr>m_devLock := True, m_framer := fr'\<rparr>, ?s')"
    using assms(1) x by (subst exchange_loop.simps) (simp add: wallet_ready_def io_valid_def)
  then show ?thesis
    using assms(1) x by (simp add: wallet_exchange_def wallet_ready_def io_valid_def)
qed

lemma wallet_exchange_ok:
  assumes "wallet_ready w" "responds env (m_framer w) a s pad data sw"
  shows "\<exists>w' s'. wallet_exchange env a code w s = Some (Inr (data, sw), w', s') \<and>
    wallet_ready w' \<and> m_io (m_framer w') = m_io (m_framer w) \<and> framer_at 0 (m_framer w')"
proof -
  obtain s1 where "tb_laws (env_tb env)" "apdu_wf a" "framer_at 0 (frame_reset (m_framer w))"
    "send_packets env (wire_packets 0 (message (apdu_bytes a))) (m_io (m_framer w)) s = (Inr (), m_io (m_framer w), s1)"
    "supplies env (m_dev (m_io (m_framer w))) s1 (response_packets pad (response data sw))"
    "length data \<le> 55 \<or> 61 \<le> length data \<and> length data \<le> 114"
    using assms(2) unfolding responds_def by blast
  from wallet_exchange_after [OF assms(1) this] show ?thesis by blast
qed

lemma command_result:
  assumes "wallet_exchange env a CODE_SUCCESS w s = Some (Inr (data, sw), w', s')" "apdu = Inr a"
  shows "command env apdu failure decode w s =
    Some (if sw = 0x9000 then decode data
          else Inl (Exchange_Error (failure @ ledger_status_to_string sw) sw), w', s')"
  using assms by (simp add: command_def CODE_SUCCESS_def)

lemma command_ok:
  assumes "wallet_ready w" "responds env (m_framer w) a s pad data sw" "apdu = Inr a"
  shows "\<exists>w' s'. command env apdu failure decode w s =
      Some (if sw = 0x9000 then decode data
            else Inl (Exchange_Error (failure @ ledger_status_to_string sw) sw), w', s') \<and>
    wallet_ready w' \<and> framer_at 0 (m_framer w')"
proof -
  obtain w' s' where x: "wallet_exchange env a CODE_SUCCESS w s = Some (Inr (data, sw), w', s')"
    "wallet_ready w'" "framer_at 0 (m_framer w')"
    using wallet_exchange_ok [OF assms(1,2), of CODE_SUCCESS] by blast
  then show ?thesis using command_result [OF x(1) assms(3)] by blast
qed

text \<open>The APDU of a command with its parameters.\<close>

definition command_apdu :: "u8 \<Rightarrow> u8 \<Rightarrow> u8 list \<Rightarrow> APDU" where
  "command_apdu cmd param1 bytes =
     \<lparr>cla = 0xe0, ins = cmd, p1 = param1, p2 = 0, payload_size = length bytes,
      payload = bytes @ replicate (255 - length bytes) 0\<rparr>"

lemma device_apdu_ok:
  "length bytes \<le> 255 \<Longrightarrow> device_apdu cmd param1 (length bytes) bytes = Inr (command_apdu cmd param1 bytes)"
  by (simp add: device_apdu_def c_memcpy_def overwrite_0 command_apdu_def DEVICE_CLASS_def)

lemma command_apdu_wf: "length bytes \<le> 255 \<Longrightarrow> apdu_wf (command_apdu cmd param1 bytes)"
  by (simp add: apdu_wf_def command_apdu_def)

lemma get_address_apdu_ok:
  "tb_laws tb \<Longrightarrow> get_address_apdu tb i silent = Inr (command_apdu 2 (of_bool silent) (be32 i))"
  using device_apdu_ok [of "be32 i" 2 "of_bool silent"]
  by (cases silent) (simp_all add: get_address_apdu_def tb_lawsD(4) CMD_GET_ADDRESS_def)

lemma sign_tx_apdu_ok:
  assumes tb: "tb_laws tb" and tx: "length raw_tx = 32"
  shows "sign_tx_apdu tb raw_tx i = Inr (command_apdu 4 0 (be32 i @ raw_tx))"
proof -
  let ?h = "overwrite (overwrite (tb_new tb 36) 0 (be32 i)) 4 raw_tx"
  have n: "length (tb_new tb 36) = 36" by (rule tb_lawsD(1) [OF tb])
  have h: "?h = be32 i @ raw_tx" using n tx by (simp add: overwrite_def)
  have "tb_write tb (tb_new tb 36) 0 (be32 i) = Inr (overwrite (tb_new tb 36) 0 (be32 i), 4)"
    "tb_write tb (overwrite (tb_new tb 36) 0 (be32 i)) 4 raw_tx = Inr (?h, 32)"
    using n tx tb_lawsD(2) [OF tb, of 0 "be32 i" "tb_new tb 36"]
      tb_lawsD(2) [OF tb, of 4 raw_tx "overwrite (tb_new tb 36) 0 (be32 i)"] by simp_all
  then show ?thesis
    using device_apdu_ok [of "be32 i @ raw_tx" 4 0] tx
    unfolding sign_tx_apdu_def tb_lawsD(4) [OF tb] by (simp add: h CMD_SIGN_TX_def)
qed

section \<open>The application list as a format\<close>

text \<open>
  What the launcher sends: a leading byte, then for each application its entry length, the
  flags, the two hashes, and the name with its length.
\<close>

definition app_entry :: "u8 \<times> app_item \<Rightarrow> u8 list" where
  "app_entry x = (case x of (k, it) \<Rightarrow>
     k # be32 (ucast (ai_flags it)) @ ai_hash_code_data it @ ai_hash it @
     [of_nat (length (ai_name it))] @ map to_byte (ai_name it))"

definition app_wf :: "app_item \<Rightarrow> bool" where
  "app_wf it \<longleftrightarrow> length (ai_hash it) = 32 \<and> length (ai_hash_code_data it) = 32 \<and>
     length (ai_name it) < 256 \<and> unat (ai_flags it) < 2 ^ 32"

definition app_list_bytes :: "u8 \<Rightarrow> (u8 \<times> app_item) list \<Rightarrow> u8 list" where
  "app_list_bytes k0 xs = k0 # concat (map app_entry xs)"

lemma length_app_entry: "app_wf (snd x) \<Longrightarrow> length (app_entry x) = 70 + length (ai_name (snd x))"
  by (cases x) (simp add: app_entry_def app_wf_def)

lemma take_drop_mid: "length a = i \<Longrightarrow> take (length b) (drop i (a @ b @ c)) = b"
  by simp

lemma parse_app_entry:
  assumes tb: "tb_laws tb" and wf: "app_wf it"
  shows "parse_app tb (pre @ app_entry (k, it) @ post) (length pre) =
    Inr (it, length pre + length (app_entry (k, it)))"
proof -
  let ?n = "length pre" and ?nl = "length (ai_name it)"
  let ?fl = "be32 (ucast (ai_flags it))" and ?nm = "map to_byte (ai_name it)"
  let ?r = "pre @ app_entry (k, it) @ post"
  have r: "?r = (pre @ [k]) @ ?fl @ (ai_hash_code_data it @ ai_hash it @ [of_nat ?nl] @ ?nm @ post)"
    "?r = (pre @ [k] @ ?fl) @ ai_hash_code_data it @ (ai_hash it @ [of_nat ?nl] @ ?nm @ post)"
    "?r = (pre @ [k] @ ?fl @ ai_hash_code_data it) @ ai_hash it @ ([of_nat ?nl] @ ?nm @ post)"
    "?r = (pre @ [k] @ ?fl @ ai_hash_code_data it @ ai_hash it) @ [of_nat ?nl] @ (?nm @ post)"
    "?r = (pre @ [k] @ ?fl @ ai_hash_code_data it @ ai_hash it @ [of_nat ?nl]) @ ?nm @ post"
    by (simp_all add: app_entry_def)
  have l: "length (ai_hash it) = 32" "length (ai_hash_code_data it) = 32" "?nl < 256"
    and lr: "length ?r = ?n + 70 + ?nl + length post"
    using wf length_app_entry [of "(k, it)"] by (auto simp: app_wf_def)
  have nl: "unat (of_nat ?nl :: u8) = ?nl"
    using l(3) by (simp add: unsigned_of_nat take_bit_nat_eq_self)
  have fl: "(ucast (ucast (ai_flags it) :: u32) :: u64) = ai_flags it"
  proof -
    have "unat (ai_flags it) < 2 ^ 32" using wf by (simp add: app_wf_def)
    then show ?thesis
      by (intro unsigned_word_eqI [where 'a = nat]) (simp add: unsigned_ucast_eq unsigned_take_bit_eq take_bit_nat_eq_self)
  qed
  have t1: "take 4 (drop (?n + 1) ?r) = ?fl" unfolding r(1) by simp
  have t2: "take 32 (drop (?n + 5) ?r) = ai_hash_code_data it"
    using take_drop_mid [of "pre @ [k] @ ?fl" "?n + 5" "ai_hash_code_data it"] l unfolding r(2) by simp
  have t3: "take 32 (drop (?n + 37) ?r) = ai_hash it"
    using take_drop_mid [of "pre @ [k] @ ?fl @ ai_hash_code_data it" "?n + 37" "ai_hash it"] l
    unfolding r(3) by simp
  have t4: "?r ! (?n + 69) = of_nat ?nl"
    unfolding r(4) using l by (subst nth_append_right) simp_all
  have t5: "take ?nl (drop (?n + 70) ?r) = ?nm"
    using take_drop_mid [of "pre @ [k] @ ?fl @ ai_hash_code_data it @ ai_hash it @ [of_nat ?nl]"
        "?n + 70" ?nm] l unfolding r(5) by simp
  show ?thesis
    using t1 t2 t3 t4 t5 lr nl fl length_app_entry [of "(k, it)"] wf
      tb_lawsD(6) [OF tb, of "?n + 1" ?r] tb_lawsD(8) [OF tb, of "?n + 5" "?n + 37" ?r]
      tb_lawsD(8) [OF tb, of "?n + 37" "?n + 69" ?r] tb_lawsD(16) [OF tb, of "?n + 69" ?r]
      tb_lawsD(8) [OF tb, of "?n + 70" "?n + 70 + ?nl" ?r] tb_lawsD(14) [OF tb]
    by (simp add: parse_app_def Let_def comp_def ac_simps del: append_assoc)
qed

lemma parse_apps_entries:
  assumes tb: "tb_laws tb"
  shows "\<forall>x \<in> set xs. app_wf (snd x) \<Longrightarrow>
    parse_apps tb (pre @ concat (map app_entry xs)) (length pre) out = Some (Inr (out @ map snd xs))"
proof (induction xs arbitrary: pre out)
  case Nil
  then show ?case by (subst parse_apps.simps) simp
next
  case (Cons x xs)
  obtain k it where x: "x = (k, it)" by (cases x)
  let ?post = "concat (map app_entry xs)"
  have wf: "app_wf it" using Cons.prems x by simp
  have "length (app_entry (k, it)) \<noteq> 0" using length_app_entry [of "(k, it)"] wf by simp
  then have "parse_apps tb (pre @ app_entry (k, it) @ ?post) (length pre) out =
      parse_apps tb (pre @ app_entry (k, it) @ ?post) (length pre + length (app_entry (k, it))) (out @ [it])"
    using parse_app_entry [OF tb wf, of pre k ?post] by (subst parse_apps.simps) simp
  also have "\<dots> = Some (Inr ((out @ [it]) @ map snd xs))"
    using Cons.IH [of "pre @ app_entry (k, it)" "out @ [it]"] Cons.prems by simp
  finally show ?case by (simp add: x)
qed

lemma get_address_ok:
  assumes "wallet_ready w"
    and "responds env (m_framer w) (command_apdu 2 (of_bool silent) (be32 index)) s pad data sw"
    and "sw = 0x9000 \<longrightarrow> 20 \<le> length data"
  shows "\<exists>w' s'. get_address env index silent w s =
      Some (if sw = 0x9000 then Inr (take 20 data)
            else Inl (Exchange_Error (''Unable to get address: '' @ ledger_status_to_string sw) sw), w', s') \<and>
    wallet_ready w' \<and> framer_at 0 (m_framer w')"
proof -
  have tb: "tb_laws (env_tb env)" using assms(2) by (simp add: responds_def)
  show ?thesis
    using command_ok [OF assms(1,2) get_address_apdu_ok [OF tb], of "''Unable to get address: ''"
        "\<lambda>response. tb_take_range (env_tb env) response 0 20"] assms(3) tb_lawsD(8) [OF tb, of 0 20 data]
    by (auto simp: get_address_def)
qed

section \<open>Properties of the commands\<close>

text \<open>
  C4. \<^verbatim>\<open>get_address\<close> sends one APDU with the derivation index in big-endian order and gives
  the first 20 bytes of the response, or throws \<^verbatim>\<open>exchange_error\<close> with the status and its
  text when the device answers anything but 0x9000; either way the wallet is ready for the
  next command.
\<close>

theorem get_address_correct:
  assumes "wallet_ready w"
    and "responds env (m_framer w) (command_apdu 2 (of_bool silent) (be32 index)) s pad data sw"
    and "sw = 0x9000 \<longrightarrow> 20 \<le> length data"
  shows "\<exists>w' s'. get_address env index silent w s =
      Some (if sw = 0x9000 then Inr (take 20 data)
            else Inl (Exchange_Error (''Unable to get address: '' @ ledger_status_to_string sw) sw), w', s') \<and>
    wallet_ready w' \<and> framer_at 0 (m_framer w')"
  by (rule get_address_ok [OF assms])

text \<open>
  C5. \<^verbatim>\<open>sign_tx\<close> with a hash of 32 bytes sends the index and the hash, and takes the signature
  apart: the first 32 bytes of the response are R, the next 32 are S, the last byte is V.
\<close>

theorem sign_tx_correct:
  assumes "wallet_ready w" and "length raw_tx = 32"
    and "responds env (m_framer w) (command_apdu 4 0 (be32 index @ raw_tx)) s pad data sw"
    and "sw = 0x9000 \<longrightarrow> 65 \<le> length data"
  shows "\<exists>w' s'. sign_tx env raw_tx index w s =
      Some (if sw = 0x9000 then Inr \<lparr>sig_r = take 32 data, sig_s = take 32 (drop 32 data),
              sig_v = [last data], sig_success = True\<rparr>
            else Inl (Exchange_Error (''Unable to sign transaction: '' @ ledger_status_to_string sw) sw), w', s') \<and>
    wallet_ready w' \<and> framer_at 0 (m_framer w')"
proof -
  have tb: "tb_laws (env_tb env)" using assms(3) by (simp add: responds_def)
  have l: "drop (length data - 1) data = [last data]" if "65 \<le> length data"
    using that by (cases data rule: rev_cases) auto
  show ?thesis
    using command_ok [OF assms(1,3) sign_tx_apdu_ok [OF tb assms(2)],
        of "''Unable to sign transaction: ''" "signature_of (env_tb env)"]
      assms(4) l tb_lawsD(11) [OF tb, of 32 data] tb_lawsD(8) [OF tb, of 32 64 data]
      tb_lawsD(12) [OF tb, of 1 data]
    by (cases "sw = 0x9000") (simp_all add: sign_tx_def signature_of_def)
qed

text \<open>
  C17. \<^verbatim>\<open>get_app_list\<close> reads back every list of applications the launcher can send: parsing
  the encoded list ends, stays inside the response and gives the applications in order, with
  their flags, hashes and names, whatever the leading byte and the entry lengths are.
\<close>

theorem parse_app_list_roundtrip:
  assumes "tb_laws tb" and "\<forall>x \<in> set xs. app_wf (snd x)"
  shows "parse_app_list tb (app_list_bytes k0 xs) = Some (Inr (map snd xs))"
  using parse_apps_entries [OF assms, of "[k0]" "[]"] by (simp add: parse_app_list_def app_list_bytes_def)

theorem parse_app_list_roundtrip_witness:
  "parse_app_list tb_vec (app_list_bytes 1
      [(75, \<lparr>ai_name = ''Minter'', ai_hash = replicate 32 7, ai_hash_code_data = replicate 32 9, ai_flags = 0x240\<rparr>)]) =
    Some (Inr [\<lparr>ai_name = ''Minter'', ai_hash = replicate 32 7, ai_hash_code_data = replicate 32 9, ai_flags = 0x240\<rparr>])"
  by (subst parse_app_list_roundtrip) (simp_all add: tb_vec_laws app_wf_def)

text \<open>
  \<^verbatim>\<open>run_app\<close> copies the name into the array of 255 bytes of the APDU before \<^verbatim>\<open>exchange\<close>
  rejects a payload of more than 255 bytes, so a longer name writes past the end of the array.
\<close>

theorem run_app_long_name:
  assumes "tb_laws (env_tb env)" and "255 < length name"
  shows "run_app env name w s = Some (Inl (UB Out_Of_Bounds), w, s)"
  using assms tb_lawsD(15) [OF assms(1), of name]
  by (simp add: run_app_def command_def run_app_apdu_def device_apdu_def c_memcpy_def)

theorem run_app_long_name_witness:
  "run_app script_env (replicate 256 (CHR ''a'')) (nanos_wallet_new tb_vec) [] =
     Some (Inl (UB Out_Of_Bounds), nanos_wallet_new tb_vec, [])"
  by (rule run_app_long_name) (simp_all add: script_env_def tb_vec_laws)

lemma sign_tx_apdu_fits:
  assumes tb: "tb_laws tb" and tx: "length raw_tx \<le> 32"
  shows "\<exists>a. sign_tx_apdu tb raw_tx i = Inr a \<and> apdu_wf a \<and> payload_size a = 36 \<and>
    take (4 + length raw_tx) (payload a) = be32 i @ raw_tx"
proof -
  let ?h = "overwrite (overwrite (tb_new tb 36) 0 (be32 i)) 4 raw_tx"
  have n: "length (tb_new tb 36) = 36" by (rule tb_lawsD(1) [OF tb])
  then have h: "length ?h = 36" "take (4 + length raw_tx) ?h = be32 i @ raw_tx"
    using tx by (simp_all add: overwrite_def)
  have "tb_write tb (tb_new tb 36) 0 (be32 i) = Inr (overwrite (tb_new tb 36) 0 (be32 i), 4)"
    "tb_write tb (overwrite (tb_new tb 36) 0 (be32 i)) 4 raw_tx = Inr (?h, length raw_tx)"
    using n tx tb_lawsD(2) [OF tb, of 0 "be32 i" "tb_new tb 36"]
      tb_lawsD(2) [OF tb, of 4 raw_tx "overwrite (tb_new tb 36) 0 (be32 i)"] by simp_all
  then have "sign_tx_apdu tb raw_tx i = Inr (command_apdu 4 0 ?h)"
    using device_apdu_ok [of ?h 4 0] h(1)
    unfolding sign_tx_apdu_def tb_lawsD(4) [OF tb] by (simp add: CMD_SIGN_TX_def)
  then show ?thesis using h tx by (simp add: apdu_wf_def command_apdu_def)
qed

text \<open>
  A longer transaction goes into a container of 36 bytes; if that grows, all of it is copied
  into the array of 255 bytes.
\<close>

lemma sign_tx_apdu_grown:
  assumes tb: "tb_laws tb"
    and grown: "tb_write tb (overwrite (tb_new tb 36) 0 (be32 i)) 4 raw_tx = Inr (u, k)"
  shows "sign_tx_apdu tb raw_tx i =
    (if length u \<le> 255 then Inr ((command_apdu 4 0 u)\<lparr>payload_size := 36\<rparr>) else Inl (UB Out_Of_Bounds))"
proof -
  have "length (tb_new tb 36) = 36" by (rule tb_lawsD(1) [OF tb])
  then have "tb_write tb (tb_new tb 36) 0 (be32 i) = Inr (overwrite (tb_new tb 36) 0 (be32 i), 4)"
    using tb_lawsD(2) [OF tb, of 0 "be32 i" "tb_new tb 36"] by simp
  then show ?thesis
    using grown unfolding sign_tx_apdu_def tb_lawsD(4) [OF tb]
    by (simp add: CMD_SIGN_TX_def device_apdu_def c_memcpy_def overwrite_0 command_apdu_def DEVICE_CLASS_def)
qed

text \<open>
  C33. The APDU of each of the five commands has the layout of \<^verbatim>\<open>struct APDU\<close>, an array of 255
  bytes and a size that fits it, so \<^verbatim>\<open>exchange\<close> takes it: always for the address, the version and
  the list of applications; for the signature if the transaction has at most 32 bytes, and also
  for a longer one as long as the container it is written to (whose behaviour past its end is not
  ours) has at most 255 bytes afterwards; for \<^verbatim>\<open>run_app\<close> exactly for the names of at most 255 bytes.
  The copy of a longer container, or of a longer name, goes past the end of the array.
\<close>

theorem command_apdus_typed:
  assumes "tb_laws tb"
  shows "(\<exists>a. get_address_apdu tb i silent = Inr a \<and> apdu_wf a \<and> payload_size a = 4) \<and>
    (\<exists>a. get_app_version_apdu = Inr a \<and> apdu_wf a \<and> payload_size a = 0) \<and>
    (\<exists>a. get_app_list_apdu = Inr a \<and> apdu_wf a \<and> payload_size a = 0) \<and>
    (length raw_tx \<le> 32 \<longrightarrow> (\<exists>a. sign_tx_apdu tb raw_tx i = Inr a \<and> apdu_wf a \<and> payload_size a = 36 \<and>
       take (4 + length raw_tx) (payload a) = be32 i @ raw_tx)) \<and>
    (case tb_write tb (overwrite (tb_new tb 36) 0 (be32 i)) 4 raw_tx of
       Inl e \<Rightarrow> sign_tx_apdu tb raw_tx i = Inl e
     | Inr (u, _) \<Rightarrow>
         if length u \<le> 255
         then \<exists>a. sign_tx_apdu tb raw_tx i = Inr a \<and> apdu_wf a \<and> payload_size a = 36
         else sign_tx_apdu tb raw_tx i = Inl (UB Out_Of_Bounds)) \<and>
    (case run_app_apdu tb name of
       Inl e \<Rightarrow> e = UB Out_Of_Bounds \<and> 255 < length name
     | Inr a \<Rightarrow> apdu_wf a \<and> length name \<le> 255 \<and> take (payload_size a) (payload a) = map to_byte name)"
proof (intro conjI)
  note tb = tb_lawsD [OF assms]
  show "\<exists>a. get_address_apdu tb i silent = Inr a \<and> apdu_wf a \<and> payload_size a = 4"
    using get_address_apdu_ok [OF assms] by (simp add: command_apdu_def apdu_wf_def)
  show "\<exists>a. get_app_version_apdu = Inr a \<and> apdu_wf a \<and> payload_size a = 0"
    "\<exists>a. get_app_list_apdu = Inr a \<and> apdu_wf a \<and> payload_size a = 0"
    using device_apdu_ok [of "[]"] command_apdu_wf [of "[]"]
    by (simp_all add: get_app_version_apdu_def get_app_list_apdu_def command_apdu_def)
  show "length raw_tx \<le> 32 \<longrightarrow> (\<exists>a. sign_tx_apdu tb raw_tx i = Inr a \<and> apdu_wf a \<and> payload_size a = 36 \<and>
      take (4 + length raw_tx) (payload a) = be32 i @ raw_tx)"
    using sign_tx_apdu_fits [OF assms] by blast
  show "case tb_write tb (overwrite (tb_new tb 36) 0 (be32 i)) 4 raw_tx of
       Inl e \<Rightarrow> sign_tx_apdu tb raw_tx i = Inl e
     | Inr (u, _) \<Rightarrow>
         if length u \<le> 255
         then \<exists>a. sign_tx_apdu tb raw_tx i = Inr a \<and> apdu_wf a \<and> payload_size a = 36
         else sign_tx_apdu tb raw_tx i = Inl (UB Out_Of_Bounds)"
  proof (cases "tb_write tb (overwrite (tb_new tb 36) 0 (be32 i)) 4 raw_tx")
    case (Inl e)
    have "length (tb_new tb 36) = 36" by (rule tb(1))
    then show ?thesis
      using Inl tb(2) [of 0 "be32 i" "tb_new tb 36"] by (simp add: sign_tx_apdu_def tb(4))
  next
    case (Inr x)
    then show ?thesis
      using sign_tx_apdu_grown [OF assms] by (cases x) (simp add: apdu_wf_def command_apdu_def)
  qed
  show "case run_app_apdu tb name of Inl e \<Rightarrow> e = UB Out_Of_Bounds \<and> 255 < length name
     | Inr a \<Rightarrow> apdu_wf a \<and> length name \<le> 255 \<and> take (payload_size a) (payload a) = map to_byte name"
    using tb(15) [of name]
    by (simp add: run_app_apdu_def device_apdu_def c_memcpy_def apdu_wf_def overwrite_def)
qed

theorem command_apdus_typed_witness:
  "(\<exists>a. sign_tx_apdu tb_vec (replicate 32 5) 0 = Inr a \<and> apdu_wf a \<and> payload_size a = 36) \<and>
   sign_tx_apdu tb_vec (replicate 252 5) 0 = Inl (UB Out_Of_Bounds)"
  using command_apdus_typed [OF tb_vec_laws, of 0 True "replicate 32 5" "''Minter''"]
    command_apdus_typed [OF tb_vec_laws, of 0 True "replicate 252 5" "''Minter''"]
  by (auto simp: tb_vec_def split: prod.splits)

section \<open>The scripted device\<close>

definition script_wallet :: nanos_wallet where
  "script_wallet = \<lparr>m_framer = script_framer, m_valid = True, m_devLock = False\<rparr>"

lemma script_wallet_ready: "wallet_ready script_wallet"
  by (simp add: wallet_ready_def script_wallet_def io_valid_def hidpp_valid_def script_framer_def)

lemma script_responds:
  assumes "apdu_wf a" "length data \<le> 55 \<or> 61 \<le> length data \<and> length data \<le> 114"
  shows "responds script_env script_framer a (response_packets pad (response data sw)) pad data sw"
  using assms script_supplies [OF response_packets_64, where gs = "[]"] script_sends [OF script_dev]
  by (simp add: responds_def script_env_laws script_framer_at)

theorem get_address_correct_witness:
  "\<exists>w' s'. get_address script_env 1 True script_wallet (response_packets 0 (response (replicate 20 7) 0x9000)) =
      Some (Inr (replicate 20 7), w', s') \<and> wallet_ready w' \<and> framer_at 0 (m_framer w')"
  using get_address_correct [OF script_wallet_ready, of script_env True 1 _ 0 "replicate 20 7" "0x9000"]
    script_responds [of "command_apdu 2 (of_bool True) (be32 1)" "replicate 20 7"]
  by (simp add: script_wallet_def command_apdu_wf)

theorem sign_tx_correct_witness:
  "\<exists>w' s'. sign_tx script_env (replicate 32 5) 0 script_wallet
      (response_packets 0 (response (replicate 64 1 @ [28]) 0x6985)) =
    Some (Inl (Exchange_Error (''Unable to sign transaction: '' @ ''user_rejected'') 0x6985), w', s') \<and>
    wallet_ready w' \<and> framer_at 0 (m_framer w')"
  using sign_tx_correct [OF script_wallet_ready, of "replicate 32 5" script_env 0 _ 0 "replicate 64 1 @ [28]" "0x6985"]
    script_responds [of "command_apdu 4 0 (be32 0 @ replicate 32 5)" "replicate 64 1 @ [28]" 0 "0x6985"]
  by (simp add: script_wallet_def command_apdu_wf ledger_status_to_string_def CODE_SUCCESS_def
      CODE_NO_STATUS_RESULT_def CODE_INVALID_PARAM_def CODE_USER_REJECTED_def)

text \<open>
  \<^verbatim>\<open>get_app_version\<close> prints the first three bytes of the response in decimal, with dots
  between them.
\<close>

theorem get_app_version_correct:
  assumes "wallet_ready w" and "responds env (m_framer w) (command_apdu 1 0 []) s pad (a # b # c # rest) 0x9000"
  shows "\<exists>w' s'. get_app_version env w s =
      Some (Inr (dec_nat (unat a) @ ''.'' @ dec_nat (unat b) @ ''.'' @ dec_nat (unat c)), w', s') \<and>
    wallet_ready w' \<and> framer_at 0 (m_framer w')"
proof -
  have tb: "tb_laws (env_tb env)" using assms(2) by (simp add: responds_def)
  let ?decode = "\<lambda>response.
      bind_res (tb_at (env_tb env) response 0) (\<lambda>maj.
      bind_res (tb_at (env_tb env) response 1) (\<lambda>mn.
      bind_res (tb_at (env_tb env) response 2) (\<lambda>patch.
        Inr (dec_nat (unat maj) @ ''.'' @ dec_nat (unat mn) @ ''.'' @ dec_nat (unat patch)))))"
  have "?decode (a # b # c # rest) =
      Inr (dec_nat (unat a) @ ''.'' @ dec_nat (unat b) @ ''.'' @ dec_nat (unat c))"
    using tb_lawsD(7) [OF tb, of 0 "a # b # c # rest"] tb_lawsD(7) [OF tb, of 1 "a # b # c # rest"]
      tb_lawsD(7) [OF tb, of 2 "a # b # c # rest"] by simp
  then show ?thesis
    using command_ok [OF assms, of "device_apdu CMD_GET_VERSION 0 0 []" "''Unable to get app version: ''" ?decode]
      device_apdu_ok [of "[]" 1 0]
    by (simp add: get_app_version_def get_app_version_apdu_def CMD_GET_VERSION_def)
qed

theorem get_app_version_correct_witness:
  "\<exists>w' s'. get_app_version script_env script_wallet (response_packets 0 (response [1, 4, 12] 0x9000)) =
      Some (Inr ''1.4.12'', w', s') \<and> wallet_ready w' \<and> framer_at 0 (m_framer w')"
proof -
  have d: "dec_nat 1 = ''1''" "dec_nat 4 = ''4''" "dec_nat 12 = ''12''"
    by code_simp+
  show ?thesis
    using get_app_version_correct [OF script_wallet_ready, of script_env _ 0 1 4 12 "[]"]
      script_responds [of "command_apdu 1 0 []" "[1, 4, 12]" 0 "0x9000"] d
    by (simp add: script_wallet_def command_apdu_wf)
qed

section \<open>The retry loop\<close>

lemma frame_exchange_bad_first:
  assumes env: "tb_laws (env_tb env)" and a: "apdu_wf a" and fr: "framer_at 0 (frame_reset fr)"
    and sent: "send_packets env (wire_packets 0 (message (apdu_bytes a))) (m_io fr) s = (Inr (), m_io fr, s1)"
    and sup: "supplies env (m_dev (m_io fr)) s1 [f]"
    and hd: "take 5 f = packet_header q" "q \<noteq> 0"
  shows "frame_exchange env a fr s = Some (Inl (Wrong_Seqno 0 q), (frame_reset fr)\<lparr>m_buffer := f\<rparr>,
    snd (next_report env (m_dev (m_io fr)) s1))"
proof -
  let ?fr = "frame_reset fr"
  have tb: "tb_laws (env_tb env)" using env .
  have wr: "frame_write env a ?fr s = Some (Inr (5 + payload_size a), ?fr, s1)"
    using frame_write_sends [OF tb a, of ?fr s] sent by (simp add: frame_reset_def)
  have unl: "\<not> m_dev_lock (m_io ?fr)" "length (m_buffer ?fr) = 64"
    using fr by (simp_all add: framer_at_def)
  have sup': "supplies env (m_dev (m_io ?fr)) s1 [f]" using sup by (simp add: frame_reset_def)
  have l: "length f = 64" using sup by simp
  have "frame_read env (tb_new (env_tb env) 255) ?fr s1 = (Inl (Wrong_Seqno 0 q), ?fr\<lparr>m_buffer := f\<rparr>,
      snd (next_report env (m_dev (m_io fr)) s1))"
    using hidpp_read_supplied [OF env unl sup'] parse_bad_sequence [OF tb l hd(1), of 0] hd(2) fr
    by (simp add: frame_read_def Let_def framer_at_def frame_reset_def)
  then show ?thesis using a wr by (simp add: frame_exchange_def apdu_wf_def)
qed

text \<open>
  A stale packet is read first: what the framer holds afterwards, and the device in the state
  it is closed and opened again in.
\<close>

definition stale_first ::
    "'s env \<Rightarrow> frame_io_apdu \<Rightarrow> APDU \<Rightarrow> 's \<Rightarrow> u8 list \<Rightarrow> bool \<Rightarrow> frame_io_apdu \<Rightarrow> 's \<Rightarrow> bool" where
  "stale_first env fr a s f opened fr' s' \<longleftrightarrow>
     tb_laws (env_tb env) \<and> apdu_wf a \<and> framer_at 0 (frame_reset fr) \<and>
     (\<exists>s1 q d2 s3 d3.
        send_packets env (wire_packets 0 (message (apdu_bytes a))) (m_io fr) s = (Inr (), m_io fr, s1) \<and>
        supplies env (m_dev (m_io fr)) s1 [f] \<and> take 5 f = packet_header q \<and> q \<noteq> 0 \<and>
        hidpp_close (env_api env) (m_io fr) (snd (next_report env (m_dev (m_io fr)) s1)) =
          (Inr (), d2, s3) \<and>
        hidpp_open (env_api env) d2 (env_sleep env 1000 s3) = (Inr opened, d3, s') \<and>
        (opened \<longleftrightarrow> m_dev d3 \<noteq> None) \<and>
        fr' = (frame_reset fr)\<lparr>m_buffer := f, m_io := d3\<rparr>)"

lemma exchange_loop_stale:
  assumes "io_valid w" "stale_first env (m_framer w) a s f opened fr' s'"
  shows "exchange_loop env a code w s = exchange_loop env a code (w\<lparr>m_framer := fr'\<rparr>) s'"
proof -
  from assms(2) obtain s1 q d2 s3 d3 where
    st: "tb_laws (env_tb env)" "apdu_wf a" "framer_at 0 (frame_reset (m_framer w))"
    "send_packets env (wire_packets 0 (message (apdu_bytes a))) (m_io (m_framer w)) s = (Inr (), m_io (m_framer w), s1)"
    "supplies env (m_dev (m_io (m_framer w))) s1 [f]" "take 5 f = packet_header q" "q \<noteq> 0"
    and close: "hidpp_close (env_api env) (m_io (m_framer w))
      (snd (next_report env (m_dev (m_io (m_framer w))) s1)) = (Inr (), d2, s3)"
    and opn: "hidpp_open (env_api env) d2 (env_sleep env 1000 s3) = (Inr opened, d3, s')"
    and fr': "fr' = (frame_reset (m_framer w))\<lparr>m_buffer := f, m_io := d3\<rparr>"
    unfolding stale_first_def by blast
  show ?thesis
    using assms(1) frame_exchange_bad_first [OF st] close opn
    by (subst exchange_loop.simps) (simp add: wio_def fr' frame_reset_def)
qed

text \<open>
  C21. The retry works for the case it was written for: when the first packet read is a stale
  one, with a sequence number other than 0, the device is closed, opened again, and the
  exchange repeated, and the caller gets the response to the repeated command.
\<close>

theorem exchange_retry_recovers:
  assumes "wallet_ready w" and "stale_first env (m_framer w) a s f True fr' s'"
    and "responds env fr' a s' pad data sw"
  shows "\<exists>w' s2. wallet_exchange env a code w s = Some (Inr (data, sw), w', s2) \<and> wallet_ready w' \<and>
    framer_at 0 (m_framer w')"
proof -
  let ?w = "w\<lparr>m_devLock := True\<rparr>"
  have "io_valid ?w" using assms(1) by (simp add: wallet_ready_def io_valid_def)
  then have l: "exchange_loop env a code ?w s = exchange_loop env a code (?w\<lparr>m_framer := fr'\<rparr>) s'"
    using exchange_loop_stale [of ?w env a s f True fr' s'] assms(2) by simp
  have v: "hidpp_valid (m_io fr')" using assms(2) by (auto simp: stale_first_def hidpp_valid_def)
  obtain fr2 s2 where x: "frame_exchange env a fr' s' = Some (Inr (data, sw), fr2, s2)"
    "framer_at 0 fr2" "m_io fr2 = m_io fr'" using responds_exchange [OF assms(3)] .
  have "exchange_loop env a code (?w\<lparr>m_framer := fr'\<rparr>) s' =
      Some (Inr (data, sw), ?w\<lparr>m_framer := fr2\<rparr>, s2)"
    using v x by (subst exchange_loop.simps) (simp add: io_valid_def)
  then show ?thesis
    using assms(1) l v x by (simp add: wallet_exchange_def wallet_ready_def io_valid_def)
qed

text \<open>
  C31. A lost device looks like success. If the device cannot be opened again after a stale
  packet, \<^verbatim>\<open>exchange\<close> breaks out of its loop without an exception: it returns no bytes, and the
  status is the one the caller put there (\<^verbatim>\<open>CODE_SUCCESS\<close> in every command); the wallet is not
  valid any more and its lock is free. \<^verbatim>\<open>get_app_list\<close> then reports that no application is
  installed.
\<close>

theorem exchange_lost_device:
  assumes "wallet_ready w" and "stale_first env (m_framer w) a s f False fr' s'"
  shows "\<exists>w'. wallet_exchange env a code w s = Some (Inr ([], code), w', s') \<and>
    \<not> m_valid w' \<and> \<not> io_valid w' \<and> \<not> m_devLock w' \<and>
    (a = command_apdu 0xDE 0 [] \<and> code = CODE_SUCCESS \<longrightarrow> get_app_list env w s = Some (Inr [], w', s'))"
proof -
  let ?w = "w\<lparr>m_devLock := True\<rparr>"
  let ?w' = "w\<lparr>m_framer := fr', m_valid := False\<rparr>"
  have "io_valid ?w" using assms(1) by (simp add: wallet_ready_def io_valid_def)
  then have l: "exchange_loop env a code ?w s = exchange_loop env a code (?w\<lparr>m_framer := fr'\<rparr>) s'"
    using exchange_loop_stale [of ?w env a s f False fr' s'] assms(2) by simp
  have v: "\<not> hidpp_valid (m_io fr')" using assms(2) by (auto simp: stale_first_def hidpp_valid_def)
  have "exchange_loop env a code (?w\<lparr>m_framer := fr'\<rparr>) s' =
      Some (Inr ([], code), ?w\<lparr>m_framer := fr', m_valid := False\<rparr>, s')"
    using v by (subst exchange_loop.simps) (simp add: io_valid_def)
  then have x: "wallet_exchange env a code w s = Some (Inr ([], code), ?w', s')"
    using assms(1) l by (simp add: wallet_exchange_def wallet_ready_def)
  moreover have "get_app_list env w s = Some (Inr [], ?w', s')"
    if "a = command_apdu 0xDE 0 [] \<and> code = CODE_SUCCESS"
    using that x device_apdu_ok [of "[]" "0xDE" 0]
    by (simp add: get_app_list_def get_app_list_apdu_def command_def parse_app_list_def)
  ultimately show ?thesis
    using v assms(1) by (simp add: wallet_ready_def io_valid_def)
qed

text \<open>A scripted device that cannot be opened a second time.\<close>

definition lost_env :: "u8 list list env" where
  "lost_env = script_env\<lparr>env_api := script_api\<lparr>api_open := (\<lambda>v p sn s. (Inr None, s))\<rparr>\<rparr>"

definition stale_packet :: "u8 list" where
  "stale_packet = pad64 0 (packet_header 1)"

lemma packet_header_1 [simp]: "\<exists>q. packet_header 1 = packet_header q \<and> q \<noteq> 0"
  by (rule exI [of _ 1]) simp

lemma stale_packet_simps: "length stale_packet = 64" "take 5 stale_packet = packet_header 1"
  by (simp_all add: stale_packet_def pad64_def)

lemma lost_sends: "\<not> m_dev_lock d \<Longrightarrow> send_packets lost_env ps d s = (Inr (), d, s)"
proof (induction ps)
  case (Cons p ps)
  then show ?case
    by (simp add: lost_env_def script_env_def script_api_def hidpp_write_def hidpp_write_raw_def
        lock_guard_def)
qed simp

definition reopened_framer :: "bool \<Rightarrow> frame_io_apdu" where
  "reopened_framer ok = (frame_reset script_framer)\<lparr>m_buffer := stale_packet,
     m_io := (m_io script_framer)\<lparr>m_dev := (if ok then Some 0 else None)\<rparr>\<rparr>"

lemma script_stale:
  "apdu_wf a \<Longrightarrow>
   stale_first script_env script_framer a (stale_packet # fs) stale_packet True (reopened_framer True) fs"
  using script_sends [OF script_dev] script_env_laws script_framer_at stale_packet_simps
  by (simp add: stale_first_def reopened_framer_def script_env_facts)
    (simp add: script_env_def script_api_def script_framer_def hidpp_device_ids_def hidpp_close_def
      hidpp_open_def lock_guard_def)

lemma lost_stale:
  "apdu_wf a \<Longrightarrow>
   stale_first lost_env script_framer a (stale_packet # fs) stale_packet False (reopened_framer False) fs"
  using lost_sends [OF script_dev] script_env_laws script_framer_at stale_packet_simps
  by (simp add: stale_first_def reopened_framer_def lost_env_def next_report_def report_len_def arrives_def)
    (simp add: script_env_def script_api_def script_framer_def hidpp_device_ids_def hidpp_close_def
      hidpp_open_def lock_guard_def)

theorem exchange_retry_recovers_witness:
  "\<exists>w' s2. wallet_exchange script_env version_apdu 0 script_wallet
      (stale_packet # response_packets 0 (response [1, 0, 2] 0x9000)) = Some (Inr ([1, 0, 2], 0x9000), w', s2)"
proof -
  have fr: "framer_at 0 (frame_reset (reopened_framer True))" "\<not> m_dev_lock (m_io (reopened_framer True))"
    using script_framer_at stale_packet_simps by (simp_all add: framer_at_def reopened_framer_def frame_reset_def)
  have "responds script_env (reopened_framer True) version_apdu
      (response_packets 0 (response [1, 0, 2] 0x9000)) 0 [1, 0, 2] 0x9000"
    using script_supplies [OF response_packets_64, where gs = "[]"] script_sends [OF fr(2)] fr(1)
    by (simp add: responds_def script_env_laws version_apdu_wf)
  then show ?thesis
    using exchange_retry_recovers [OF script_wallet_ready, of script_env version_apdu _ stale_packet]
      script_stale [OF version_apdu_wf] by (fastforce simp: script_wallet_def)
qed

theorem exchange_lost_device_witness:
  "\<exists>w'. wallet_exchange lost_env (command_apdu 0xDE 0 []) CODE_SUCCESS script_wallet [stale_packet] =
      Some (Inr ([], CODE_SUCCESS), w', []) \<and> \<not> m_valid w' \<and>
    get_app_list lost_env script_wallet [stale_packet] = Some (Inr [], w', [])"
  using exchange_lost_device [OF script_wallet_ready, of lost_env "command_apdu 0xDE 0 []" "[stale_packet]"
      stale_packet "reopened_framer False" "[]" CODE_SUCCESS]
    lost_stale [OF command_apdu_wf, of "[]" "0xDE" 0 "[]"] by (auto simp: script_wallet_def)

section \<open>Waiting for an application\<close>

text \<open>The state before round \<open>k\<close> of the wait and what that round lists.\<close>

fun wait_state :: "'s env \<Rightarrow> nat \<Rightarrow> 's \<Rightarrow> 's" where
  "wait_state env 0 s = s"
| "wait_state env (Suc k) s =
     wait_state env k (snd (enumerate_devices (env_api env) LEDGER_VID 0 (env_sleep env 200 s)))"

definition wait_devs :: "'s env \<Rightarrow> nat \<Rightarrow> 's \<Rightarrow> dev_info list res" where
  "wait_devs env k s =
     fst (enumerate_devices (env_api env) LEDGER_VID 0 (env_sleep env 200 (wait_state env k s)))"

definition app_pids :: "dev_info list \<Rightarrow> u16 list" where
  "app_pids ds = filter (\<lambda>p. p \<noteq> 0x1011) (map di_product_id ds)"

lemma last_app_pid_eq:
  "last_app_pid ds r = (if app_pids ds = [] then r else (True, last (app_pids ds)))"
  by (induction ds arbitrary: r) (auto simp: app_pids_def NANOS_PID_ROOT_def)

lemma wait_for_app_found:
  assumes "\<forall>i < k. \<exists>ds. wait_devs env i s = Inr ds \<and> app_pids ds = []"
    and "wait_devs env k s = Inr ds" and "app_pids ds \<noteq> []" and "n + k < 300"
  shows "wait_for_app env n (False, 0) s = (Inr (last (app_pids ds)), wait_state env (Suc k) s)"
  using assms
proof (induction k arbitrary: n s)
  case 0
  then show ?case
    by (subst wait_for_app.simps)
      (auto simp: wait_devs_def last_app_pid_eq split: prod.split)
next
  case (Suc k)
  obtain ds0 where "wait_devs env 0 s = Inr ds0" and e0: "app_pids ds0 = []"
    using Suc.prems(1) by blast
  then obtain t where
    d0: "enumerate_devices (env_api env) LEDGER_VID 0 (env_sleep env 200 s) = (Inr ds0, t)"
    by (cases "enumerate_devices (env_api env) LEDGER_VID 0 (env_sleep env 200 s)") (auto simp: wait_devs_def)
  have sh: "wait_devs env i t = wait_devs env (Suc i) s" for i by (simp add: wait_devs_def d0)
  have "wait_for_app env (Suc n) (False, 0) t = (Inr (last (app_pids ds)), wait_state env (Suc k) t)"
    using Suc.prems by (intro Suc.IH) (auto simp: sh)
  then show ?case
    using d0 e0 Suc.prems(4) by (subst wait_for_app.simps) (simp add: last_app_pid_eq)
qed

lemma wait_for_app_timeout:
  assumes "\<forall>i < 300 - n. \<exists>ds. wait_devs env i s = Inr ds \<and> app_pids ds = []" and "n < 300"
  shows "wait_for_app env n (False, 0) s = (Inr 0, wait_state env (300 - n) s)"
  using assms
proof (induction "300 - n" arbitrary: n s)
  case (Suc k)
  have k: "300 - n = Suc k" using Suc(2) by simp
  obtain ds0 where "wait_devs env 0 s = Inr ds0" and e0: "app_pids ds0 = []"
    using Suc.prems k by (metis zero_less_Suc)
  then obtain t where
    d0: "enumerate_devices (env_api env) LEDGER_VID 0 (env_sleep env 200 s) = (Inr ds0, t)"
    by (cases "enumerate_devices (env_api env) LEDGER_VID 0 (env_sleep env 200 s)") (auto simp: wait_devs_def)
  have sh: "wait_devs env i t = wait_devs env (Suc i) s" for i by (simp add: wait_devs_def d0)
  show ?case
  proof (cases "n + 1 \<ge> 300")
    case True
    then have "k = 0" using k Suc.prems(2) by simp
    then show ?thesis
      using True d0 e0 k by (subst wait_for_app.simps) (simp add: last_app_pid_eq)
  next
    case False
    have "wait_for_app env (Suc n) (False, 0) t = (Inr 0, wait_state env (300 - Suc n) t)"
      using Suc.prems k False by (intro Suc(1)) (auto simp: sh)
    moreover have "300 - Suc n = k" using k by simp
    ultimately show ?thesis
      using d0 e0 False k by (subst wait_for_app.simps) (simp add: last_app_pid_eq)
  qed
qed simp

text \<open>
  C20. The wait of \<^verbatim>\<open>run_app\<close> always comes to an end. If enumeration works, it returns the
  product id of the application in the first of its 300 rounds that lists one (the last id of
  that round, when it lists several), and 0 when no round does, after no more than 300
  enumerations.
\<close>

theorem wait_for_app_result:
  assumes "\<forall>i < 300. \<exists>ds. wait_devs env i s = Inr ds"
  shows "(\<exists>k ds. k < 300 \<and> wait_devs env k s = Inr ds \<and> app_pids ds \<noteq> [] \<and>
       (\<forall>i < k. \<exists>ds. wait_devs env i s = Inr ds \<and> app_pids ds = []) \<and>
       wait_for_app env 0 (False, 0) s = (Inr (last (app_pids ds)), wait_state env (Suc k) s)) \<or>
    (\<forall>i < 300. \<exists>ds. wait_devs env i s = Inr ds \<and> app_pids ds = []) \<and>
       wait_for_app env 0 (False, 0) s = (Inr 0, wait_state env 300 s)"
proof -
  let ?P = "\<lambda>i. i < 300 \<and> (\<exists>ds. wait_devs env i s = Inr ds \<and> app_pids ds \<noteq> [])"
  show ?thesis
  proof (cases "\<exists>i. ?P i")
    case True
    define k where "k = (LEAST i. ?P i)"
    have "?P k" unfolding k_def using True by (rule LeastI_ex)
    then obtain ds where k: "k < 300" "wait_devs env k s = Inr ds" "app_pids ds \<noteq> []" by blast
    have before: "\<forall>i < k. \<exists>ds. wait_devs env i s = Inr ds \<and> app_pids ds = []"
    proof (intro allI impI)
      fix i assume "i < k"
      then have "\<not> ?P i" "i < 300" using not_less_Least [of i ?P] k(1) unfolding k_def by auto
      then show "\<exists>ds. wait_devs env i s = Inr ds \<and> app_pids ds = []" using assms by blast
    qed
    show ?thesis using wait_for_app_found [OF before k(2,3), of 0] k before by auto
  next
    case False
    then have "\<forall>i < 300. \<exists>ds. wait_devs env i s = Inr ds \<and> app_pids ds = []" using assms by blast
    then show ?thesis using wait_for_app_timeout [of 0 env s] by simp
  qed
qed

text \<open>A machine on which an application with product id 1005 is running.\<close>

definition running_env :: "u8 list list env" where
  "running_env = script_env\<lparr>env_api := script_api\<lparr>api_enumerate :=
     (\<lambda>v p s. (Inr [calloc_dev_info\<lparr>di_product_id := 0x1011\<rparr>, calloc_dev_info\<lparr>di_product_id := 0x1005\<rparr>], s))\<rparr>\<rparr>"

theorem wait_for_app_result_witness:
  "fst (wait_for_app running_env 0 (False, 0) []) = Inr 0x1005"
proof -
  let ?ds = "[calloc_dev_info\<lparr>di_product_id := 0x1011\<rparr>, calloc_dev_info\<lparr>di_product_id := 0x1005\<rparr>]"
  have e: "enumerate_devices (env_api running_env) v p s = (Inr ?ds, s)" for v p s
    by (simp add: enumerate_devices_def running_env_def script_api_def)
  then have d: "wait_devs running_env i s = Inr ?ds" for i s by (simp add: wait_devs_def)
  moreover have a: "app_pids ?ds = [0x1005]" by (simp add: app_pids_def)
  ultimately have "\<not> (\<exists>ds. wait_devs running_env 0 [] = Inr ds \<and> app_pids ds = [])" by simp
  then have "\<not> (\<forall>i < 300. \<exists>ds. wait_devs running_env i [] = Inr ds \<and> app_pids ds = [])"
    by (metis zero_less_numeral)
  moreover have "\<forall>i < 300. \<exists>ds. wait_devs running_env i [] = Inr ds" using d by simp
  ultimately obtain k ds where "wait_devs running_env k [] = Inr ds"
    "fst (wait_for_app running_env 0 (False, 0) []) = Inr (last (app_pids ds))"
    using wait_for_app_result [of running_env "[]"] by auto
  then show ?thesis using d a by simp
qed

end
