(* ===== verification/Wallet_Steps.thy ===== *)
theory Wallet_Steps
  imports Wallet_Correct
begin

text \<open>
  What each operation of the wallet does to the handle it holds, over any backend that keeps the
  contract \<open>hid_backend\<close>: opening and closing, and the commands, those that throw included.
\<close>

section \<open>The life of the handle\<close>

text \<open>
  The environment over a backend: the containers do what their documentation says and a pause
  leaves the open handles alone.
\<close>

definition serves :: "'s hid_api \<Rightarrow> ('s \<Rightarrow> nat \<Rightarrow> bool) \<Rightarrow> 's env \<Rightarrow> bool" where
  "serves api alive env \<longleftrightarrow>
     env_api env = api \<and> tb_laws (env_tb env) \<and> (\<forall>n s. alive (env_sleep env n s) = alive s)"

lemma servesD:
  assumes "serves api alive env"
  shows "env_api env = api" "tb_laws (env_tb env)" "alive (env_sleep env n s) = alive s"
  using assms by (simp_all add: serves_def)

text \<open>The device's mutex is free, its handle, if there is one, is alive, and the buffer has 64 bytes.\<close>

definition framer_ok :: "('s \<Rightarrow> nat \<Rightarrow> bool) \<Rightarrow> nanos_wallet \<Rightarrow> 's \<Rightarrow> bool" where
  "framer_ok alive w s \<longleftrightarrow> dev_ok alive (m_io (m_framer w)) s \<and> length (m_buffer (m_framer w)) = 64"

definition wallet_ok :: "('s \<Rightarrow> nat \<Rightarrow> bool) \<Rightarrow> nanos_wallet \<Rightarrow> 's \<Rightarrow> bool" where
  "wallet_ok alive w s \<longleftrightarrow> \<not> m_devLock w \<and> framer_ok alive w s"

lemma framer_ok_lock [simp]:
  "framer_ok alive (w\<lparr>m_devLock := b\<rparr>) s = framer_ok alive w s"
  "framer_ok alive (w\<lparr>m_valid := b\<rparr>) s = framer_ok alive w s"
  by (simp_all add: framer_ok_def)

text \<open>
  From one state to a later one: the wallet is in order again, and every handle alive before,
  except the one the wallet held, is alive and not the wallet's.
\<close>

definition handle_step ::
    "('s \<Rightarrow> nat \<Rightarrow> bool) \<Rightarrow> nanos_wallet \<Rightarrow> 's \<Rightarrow> nanos_wallet \<Rightarrow> 's \<Rightarrow> bool" where
  "handle_step alive w s w1 s1 \<longleftrightarrow> framer_ok alive w1 s1 \<and>
     (\<forall>k. alive s k \<longrightarrow> m_dev (m_io (m_framer w)) \<noteq> Some k \<longrightarrow>
       alive s1 k \<and> m_dev (m_io (m_framer w1)) \<noteq> Some k)"

lemma handle_step_refl: "framer_ok alive w s \<Longrightarrow> handle_step alive w s w s"
  by (simp add: handle_step_def)

lemma handle_step_trans:
  "handle_step alive w s w1 s1 \<Longrightarrow> handle_step alive w1 s1 w2 s2 \<Longrightarrow> handle_step alive w s w2 s2"
  by (simp add: handle_step_def)

lemma handle_step_ok: "handle_step alive w s w1 s1 \<Longrightarrow> framer_ok alive w1 s1"
  by (simp add: handle_step_def)

lemma handle_step_flags [simp]:
  "handle_step alive (w\<lparr>m_devLock := b\<rparr>) s w1 s1 = handle_step alive w s w1 s1"
  "handle_step alive w s (w1\<lparr>m_devLock := b\<rparr>) s1 = handle_step alive w s w1 s1"
  "handle_step alive w s (w1\<lparr>m_valid := b\<rparr>) s1 = handle_step alive w s w1 s1"
  by (simp_all add: handle_step_def)

lemma wbind_Inr: "wbind m k w s = (Inr y, w2, s2) \<longleftrightarrow>
    (\<exists>x w1 s1. m w s = (Inr x, w1, s1) \<and> k x w1 s1 = (Inr y, w2, s2))"
  by (auto simp: wbind_def split: prod.splits sum.splits)

lemma wlock_Inr: "wlock body w s = (Inr y, w2, s2) \<longleftrightarrow>
    \<not> m_devLock w \<and> (\<exists>w1. body (w\<lparr>m_devLock := True\<rparr>) s = (Inr y, w1, s2) \<and> w2 = w1\<lparr>m_devLock := False\<rparr>)"
  by (auto simp: wlock_def split: prod.splits sum.splits fault.splits)

text \<open>A step inside a locked scope, and an operation of the class.\<close>

definition keeps :: "('s \<Rightarrow> nat \<Rightarrow> bool) \<Rightarrow> ('a, 's) wallet_op \<Rightarrow> bool" where
  "keeps alive m \<longleftrightarrow> (\<forall>w s r w1 s1. framer_ok alive w s \<longrightarrow> m w s = (Inr r, w1, s1) \<longrightarrow>
     handle_step alive w s w1 s1)"

definition preserves :: "('s \<Rightarrow> nat \<Rightarrow> bool) \<Rightarrow> ('a, 's) wallet_op \<Rightarrow> bool" where
  "preserves alive m \<longleftrightarrow> (\<forall>w s r w1 s1. wallet_ok alive w s \<longrightarrow> m w s = (Inr r, w1, s1) \<longrightarrow>
     \<not> m_devLock w1 \<and> handle_step alive w s w1 s1)"

lemma keepsI:
  assumes "\<And>w s r w1 s1. framer_ok alive w s \<Longrightarrow> m w s = (Inr r, w1, s1) \<Longrightarrow> handle_step alive w s w1 s1"
  shows "keeps alive m"
  using assms by (simp add: keeps_def)

lemma keepsD: "keeps alive m \<Longrightarrow> framer_ok alive w s \<Longrightarrow> m w s = (Inr r, w1, s1) \<Longrightarrow> handle_step alive w s w1 s1"
  by (simp add: keeps_def)

lemma preservesI:
  assumes "\<And>w s r w1 s1. wallet_ok alive w s \<Longrightarrow> m w s = (Inr r, w1, s1) \<Longrightarrow>
    \<not> m_devLock w1 \<and> handle_step alive w s w1 s1"
  shows "preserves alive m"
  using assms by (simp add: preserves_def)

lemma preservesD:
  assumes "preserves alive m" "wallet_ok alive w s" "m w s = (Inr r, w1, s1)"
  shows "wallet_ok alive w1 s1 \<and> handle_step alive w s w1 s1"
proof -
  have "\<not> m_devLock w1 \<and> handle_step alive w s w1 s1" using assms unfolding preserves_def by blast
  then show ?thesis by (auto simp: wallet_ok_def dest: handle_step_ok)
qed

lemma keeps_wret [intro]: "keeps alive (wret x)"
  by (auto simp: keeps_def wret_def handle_step_refl)

lemma keeps_wbind [intro]: "keeps alive m \<Longrightarrow> (\<And>x. keeps alive (k x)) \<Longrightarrow> keeps alive (wbind m k)"
  unfolding keeps_def wbind_Inr using handle_step_trans handle_step_ok by metis

lemma keeps_if [intro]: "keeps alive m \<Longrightarrow> keeps alive n \<Longrightarrow> keeps alive (if b then m else n)"
  by simp

text \<open>A continuation chosen by a test of the state it starts in.\<close>

lemma keeps_choice:
  assumes "keeps alive m" "\<And>c. keeps alive (k c)"
  shows "keeps alive (\<lambda>w s. if P w then m w s else k (c w) w s)"
  by (rule keepsI) (auto split: if_splits dest: keepsD [OF assms(1)] keepsD [OF assms(2)])

lemma preserves_wbind:
  assumes "preserves alive m" "\<And>x. preserves alive (k x)"
  shows "preserves alive (wbind m k)"
proof (rule preservesI)
  fix w s r w2 s2
  assume ok: "wallet_ok alive w s" and "wbind m k w s = (Inr r, w2, s2)"
  then obtain x w1 s1 where m: "m w s = (Inr x, w1, s1)" and k: "k x w1 s1 = (Inr r, w2, s2)"
    by (auto simp: wbind_Inr)
  show "\<not> m_devLock w2 \<and> handle_step alive w s w2 s2"
    using preservesD [OF assms(1) ok m] preservesD [OF assms(2) _ k] handle_step_trans
    by (auto simp: wallet_ok_def)
qed

lemma preserves_wlock:
  assumes "keeps alive m"
  shows "preserves alive (wlock m)"
  by (rule preservesI, unfold wlock_Inr) (auto simp: wallet_ok_def dest: keepsD [OF assms, rotated])

text \<open>A call that comes back to its caller, with a value or with a C++ exception.\<close>

fun comes_back :: "'a res \<Rightarrow> bool" where
  "comes_back (Inl e) = cpp_exception e"
| "comes_back (Inr x) = True"

definition runs :: "('s \<Rightarrow> nat \<Rightarrow> bool) \<Rightarrow> ('a, 's) wallet_run \<Rightarrow> bool" where
  "runs alive m \<longleftrightarrow> (\<forall>w s r w1 s1. wallet_ok alive w s \<longrightarrow> m w s = Some (r, w1, s1) \<longrightarrow> comes_back r \<longrightarrow>
     \<not> m_devLock w1 \<and> handle_step alive w s w1 s1)"

lemma runsI:
  assumes "\<And>w s r w1 s1. wallet_ok alive w s \<Longrightarrow> m w s = Some (r, w1, s1) \<Longrightarrow> comes_back r \<Longrightarrow>
    \<not> m_devLock w1 \<and> handle_step alive w s w1 s1"
  shows "runs alive m"
  using assms by (simp add: runs_def)

lemma runsD:
  assumes "runs alive m" "wallet_ok alive w s" "m w s = Some (r, w1, s1)" "comes_back r"
  shows "wallet_ok alive w1 s1 \<and> handle_step alive w s w1 s1"
proof -
  have "\<not> m_devLock w1 \<and> handle_step alive w s w1 s1" using assms unfolding runs_def by blast
  then show ?thesis by (auto simp: wallet_ok_def dest: handle_step_ok)
qed

section \<open>Opening and closing\<close>

context hid_backend
begin

lemma wenumerate_Inr:
  assumes "env_api env = api" "wenumerate env v p w s = (Inr r, w1, s1)"
  shows "w1 = w \<and> alive s1 = alive s"
  using assms(2) unfolding wenumerate_def enumerate_devices_def assms(1)
  by (auto split: prod.splits sum.splits dest: enumerate_keeps)

lemma keeps_wenumerate: "env_api env = api \<Longrightarrow> keeps alive (wenumerate env v p)"
  by (rule keepsI, drule (1) wenumerate_Inr [rotated]) (simp add: framer_ok_def dev_ok_def handle_step_def)

lemma close_step:
  assumes "framer_ok alive w s" "wio (hidpp_close api) w s = (r, w1, s1)" "r = Inr () \<or> comes_back r"
  shows "r = Inr ()" "m_devLock w1 = m_devLock w" "m_valid w1 = m_valid w" "\<not> io_valid w1"
    "handle_step alive w s w1 s1"
    "alive s1 = (case m_dev (m_io (m_framer w)) of None \<Rightarrow> alive s | Some h \<Rightarrow> (alive s)(h := False))"
proof -
  obtain d where c: "hidpp_close api (m_io (m_framer w)) s = (r, d, s1)"
    "w1 = w\<lparr>m_framer := (m_framer w)\<lparr>m_io := d\<rparr>\<rparr>"
    using assms(2) by (auto simp: wio_def split: prod.splits)
  have d: "dev_ok alive (m_io (m_framer w)) s" using assms(1) by (simp add: framer_ok_def)
  show r: "r = Inr ()" using hidpp_close_back [OF d, of _ _ s1] c(1) assms(3) by (cases r) auto
  from hidpp_close_frees [OF d c(1) [unfolded r]]
  have *: "d = (m_io (m_framer w))\<lparr>m_dev := None\<rparr>"
    "alive s1 = (case m_dev (m_io (m_framer w)) of None \<Rightarrow> alive s | Some h \<Rightarrow> (alive s)(h := False))" by auto
  show "m_devLock w1 = m_devLock w" "m_valid w1 = m_valid w" "\<not> io_valid w1"
    "handle_step alive w s w1 s1"
    using * c(2) assms(1) by (auto simp: io_valid_def hidpp_valid_def framer_ok_def dev_ok_def handle_step_def
        split: option.splits)
  show "alive s1 = (case m_dev (m_io (m_framer w)) of None \<Rightarrow> alive s | Some h \<Rightarrow> (alive s)(h := False))"
    by (rule *(2))
qed

lemma open_step:
  assumes "framer_ok alive w s" "wio (hidpp_open api) w s = (r, w1, s1)" "comes_back r"
    and "r = Inr b \<or> m_dev (m_io (m_framer w)) = None"
  shows "m_devLock w1 = m_devLock w" "m_valid w1 = m_valid w" "handle_step alive w s w1 s1"
proof -
  obtain d where o: "hidpp_open api (m_io (m_framer w)) s = (r, d, s1)" "w1 = w\<lparr>m_framer := (m_framer w)\<lparr>m_io := d\<rparr>\<rparr>"
    using assms(2) by (auto simp: wio_def split: prod.splits)
  have d: "dev_ok alive (m_io (m_framer w)) s" using assms(1) by (simp add: framer_ok_def)
  show "m_devLock w1 = m_devLock w" "m_valid w1 = m_valid w" using o by simp_all
  show "handle_step alive w s w1 s1"
  proof (cases r)
    case (Inr x)
    then show ?thesis
      using hidpp_open_ok [OF d o(1) [unfolded Inr]] assms(1) o(2)
      by (fastforce simp: handle_step_def framer_ok_def)
  next
    case (Inl e)
    then show ?thesis
      using hidpp_open_thrown [OF d o(1) [unfolded Inl]] assms o(2)
      by (cases e) (auto simp: handle_step_def framer_ok_def dev_ok_def)
  qed
qed

lemma keeps_close: "env_api env = api \<Longrightarrow> keeps alive (wallet_close env)"
  by (rule keepsI)
    (auto simp: wallet_close_def wbind_Inr handle_step_refl dest: close_step(5) split: if_splits)

lemma keeps_open: "env_api env = api \<Longrightarrow> keeps alive (open_framer env failed opened)"
proof (rule keepsI)
  fix w s r w1 s1
  assume a: "env_api env = api" "framer_ok alive w s" "open_framer env failed opened w s = (Inr r, w1, s1)"
  then obtain b w2 s2 where o: "wio (hidpp_open api) w s = (Inr b, w2, s2)"
    by (auto simp: open_framer_def wbind_Inr)
  have st: "handle_step alive w s w2 s2" using open_step(3) [OF a(2) o, of b] by simp
  then have ok: "dev_ok alive (m_io (m_framer w2)) s2" by (simp add: handle_step_def framer_ok_def)
  have err: "wio (getError api lib) w2 s2 = (Inr e, w', s') \<Longrightarrow> w' = w2 \<and> s' = s2" for lib e w' s'
    using ok by (auto simp: wio_def getError_def get_dev_error_def lock_guard_def dev_ok_def Let_def
        split: sum.splits if_splits option.splits fault.splits)
  show "handle_step alive w s w1 s1"
    using a(3) o st unfolding open_framer_def a(1)
    by (auto simp: wbind_Inr wret_def split: if_splits dest!: err)
qed

lemma keeps_assign: "tb_laws (env_tb env) \<Longrightarrow> keeps alive (assign_framer env v p)"
  by (rule keepsI)
    (auto simp: assign_framer_def Let_def framer_ok_def dev_ok_def hidpp_assign_def handle_step_def
      frame_io_apdu_new_def hidpp_copy_def hidpp_device_ids_def tb_lawsD(1))

lemma preserves_close:
  assumes "env_api env = api"
  shows "preserves alive (wallet_close env)"
proof (rule preservesI)
  fix w s r w1 s1
  assume a: "wallet_ok alive w s" "wallet_close env w s = (Inr r, w1, s1)"
  have "m_devLock w1 = m_devLock w"
    using a(2) by (auto simp: wallet_close_def wbind_def wio_def split: if_splits prod.splits sum.splits)
  then show "\<not> m_devLock w1 \<and> handle_step alive w s w1 s1"
    using keepsD [OF keeps_close [OF assms] _ a(2)] a(1) by (simp add: wallet_ok_def)
qed

lemma wallet_ops_preserve:
  assumes "env_api env = api" "tb_laws (env_tb env)"
  shows "preserves alive (init_ext env pid)" "preserves alive (init_ext_root env)"
    "preserves alive (wallet_init env pid)" "preserves alive (init_root env)"
    "preserves alive (get_opened_app_pid env)" "preserves alive (reopen_with_app env pid)"
proof -
  note k = keeps_wbind keeps_if keeps_wret keeps_assign [OF assms(2)] keeps_choice [where c = m_valid]
    keeps_wenumerate [OF assms(1)] keeps_close [OF assms(1)] keeps_open [OF assms(1)]
  show ext: "preserves alive (init_ext env pid)"
    unfolding init_ext_def by (intro preserves_wlock k)
  show "preserves alive (init_ext_root env)"
    unfolding init_ext_root_def by (intro preserves_wlock k)
  show "preserves alive (wallet_init env pid)"
    unfolding wallet_init_def by (intro preserves_wlock k)
  show "preserves alive (init_root env)"
    unfolding init_root_def by (intro preserves_wlock k)
  show "preserves alive (get_opened_app_pid env)"
    unfolding get_opened_app_pid_def by (intro preserves_wlock k)
  show "preserves alive (reopen_with_app env pid)"
    unfolding reopen_with_app_def by (intro preserves_wbind preserves_close assms(1) ext)
qed

end

section \<open>Commands keep the wallet\<close>

text \<open>
  A call that does not block on its own lock, whether it returns or throws, leaves the handle as
  it was, alive, and the framer's buffer at 64 bytes.
\<close>

context hid_backend
begin

lemma hidpp_read_keeps:
  assumes "dev_ok alive d s" "m_dev d = Some h" "tb_laws tb"
    and "hidpp_read b tb api lib out n d s = (r, d', s')" "r \<noteq> Inl Deadlock"
  shows "d' = d \<and> alive s' = alive s \<and> (\<forall>k out'. r = Inr (k, out') \<longrightarrow> n \<le> length out \<longrightarrow> length out' = length out)"
proof -
  let ?n = "if b_msc b then n + 1 else n"
  have al: "alive s h" and lk: "\<not> m_dev_lock d" using assms(1,2) by (simp_all add: dev_ok_def)
  obtain rr s1 where rd: "api_read api (Some h) ?n s = (rr, s1)" by fastforce
  have rr_returns: "rr \<noteq> Inl Deadlock"
    using assms(2,4,5) lk rd by (auto simp: hidpp_read_def lock_guard_def)
  obtain k bs where rr: "rr = Inr (k, bs)" and l: "length bs \<le> ?n" and a1: "alive s1 = alive s"
    using read_safe [OF al rd] rr_returns by blast
  obtain e where er: "api_error api (Some h) s1 = Inr e" using error_safe a1 al by metis
  let ?buf = "overwrite (replicate ?n 0) 0 bs"
  have lb: "length ?buf = ?n" using l by simp
  show ?thesis
  proof (cases e)
    case (Some m)
    then have "r = Inl Deadlock" using assms(2,4) lk rd rr er
      by (auto simp: hidpp_read_def lock_guard_def get_dev_error_def)
    then show ?thesis using assms(5) by simp
  next
    case None
    have t: "tb_take_range tb ?buf 1 ?n = Inr (drop 1 ?buf)" if "b_msc b"
      using tb_lawsD(8) [OF assms(3), of 1 ?n ?buf] lb that by simp
    have w: "tb_write tb out 0 x = Inr (overwrite out 0 x, length x)" if "length x \<le> length out" for x
      using tb_lawsD(2) [OF assms(3), of 0 x out] that by simp
    show ?thesis
      using assms(2,4,5) lk rd rr er None a1 t w [of "if b_msc b then drop 1 ?buf else ?buf"] lb
      by (auto simp: hidpp_read_def lock_guard_def Let_def split: sum.splits fault.splits if_splits)
  qed
qed

lemma send_packets_keeps:
  assumes "env_api env = api" "tb_laws (env_tb env)" "dev_ok alive d s" "m_dev d = Some h" "[] \<notin> set ps"
  shows "\<exists>s'. send_packets env ps d s = (Inr (), d, s') \<and> alive s' = alive s"
  using assms(3,5)
proof (induction ps arbitrary: s)
  case (Cons p ps)
  have p: "p \<noteq> []" using Cons.prems(2) by auto
  let ?w = "if b_win32 (env_build env) then 0 # p else p"
  let ?b = "tb_new (env_tb env) (length p + 1)"
  have n: "length ?b = length p + 1" by (rule tb_lawsD(1) [OF assms(2)])
  then have "overwrite (overwrite ?b 0 [0]) 1 p = 0 # p" by (cases ?b) (auto simp: overwrite_def)
  then have "bind_res (tb_write (env_tb env) ?b 0 [0]) (\<lambda>(w, _). tb_write (env_tb env) w 1 p) = Inr (0 # p, length p)"
    using n tb_lawsD(2) [OF assms(2), of 0 "[0]" ?b] tb_lawsD(2) [OF assms(2), of 1 p "overwrite ?b 0 [0]"] by simp
  then have w: "hidpp_write (env_build env) (env_tb env) (env_api env) p d s = hidpp_write_raw api ?w d s"
    by (simp add: hidpp_write_def assms(1))
  have "?w \<noteq> []" using p by (cases "b_win32 (env_build env)") simp_all
  then obtain k s1 where s1: "hidpp_write_raw api ?w d s = (Inr k, d, s1)" "alive s1 = alive s"
    using hidpp_write_raw_ok [OF Cons.prems(1) assms(4), of ?w] by blast
  have "dev_ok alive d s1" using Cons.prems(1) s1(2) by (simp add: dev_ok_def)
  then show ?case using Cons.IH [of s1] Cons.prems(2) w s1 by auto
qed simp

lemma frame_write_keeps:
  assumes "env_api env = api" "tb_laws (env_tb env)" "apdu_wf a" "dev_ok alive (m_io fr) s" "m_dev (m_io fr) = Some h"
  shows "\<exists>s'. frame_write env a fr s = Some (Inr (5 + payload_size a), fr, s') \<and> alive s' = alive s"
proof -
  have "[] \<notin> set (wire_packets seq bs)" for seq bs
    by (induction seq bs rule: wire_packets.induct) (subst wire_packets.simps; auto simp: packet_header_def)
  then obtain s' where "send_packets env (wire_packets 0 (message (apdu_bytes a))) (m_io fr) s = (Inr (), m_io fr, s')"
    "alive s' = alive s" using send_packets_keeps [OF assms(1,2,4,5)] by blast
  then show ?thesis using frame_write_sends [OF assms(2,3), of fr s] by simp
qed

text \<open>The framer after a read: the same device, the buffer at its size.\<close>

definition fr_kept :: "frame_io_apdu \<Rightarrow> 's \<Rightarrow> frame_io_apdu \<Rightarrow> 's \<Rightarrow> bool" where
  "fr_kept fr s fr' s' \<longleftrightarrow> m_io fr' = m_io fr \<and> alive s' = alive s \<and>
     (length (m_buffer fr) = 64 \<longrightarrow> length (m_buffer fr') = 64)"

lemma fr_kept_refl [simp]: "fr_kept fr s fr s"
  by (simp add: fr_kept_def)

lemma fr_kept_trans: "fr_kept fr s fr1 s1 \<Longrightarrow> fr_kept fr1 s1 fr2 s2 \<Longrightarrow> fr_kept fr s fr2 s2"
  by (auto simp: fr_kept_def)

lemma fr_kept_counters:
  "fr_kept fr s (fr'\<lparr>rn := x\<rparr>) s' = fr_kept fr s fr' s'"
  "fr_kept fr s (fr'\<lparr>m_seq := q, m_offset := y, rn := x, apdu_buf := z\<rparr>) s' = fr_kept fr s fr' s'"
  "fr_kept (fr\<lparr>rn := x\<rparr>) s fr' s' = fr_kept fr s fr' s'"
  "fr_kept (frame_reset fr) s fr' s' = fr_kept fr s fr' s'"
  by (simp_all add: fr_kept_def frame_reset_def)

lemma frame_read_keeps:
  assumes "env_api env = api" "tb_laws (env_tb env)" "dev_ok alive (m_io fr) s" "m_dev (m_io fr) = Some h"
    and "frame_read env out fr s = (r, fr', s')" "r \<noteq> Inl Deadlock"
  shows "fr_kept fr s fr' s'"
proof -
  obtain r1 d1 s1 where h: "hidpp_read (env_build env) (env_tb env) api (env_lib env) (m_buffer fr) 64 (m_io fr) s =
    (r1, d1, s1)" by (metis prod_cases3)
  note keep = hidpp_read_keeps [OF assms(3,4,2) h]
  show ?thesis
  proof (cases r1)
    case (Inl e)
    then have "r = Inl e" "fr' = fr\<lparr>m_io := d1\<rparr>" "s' = s1" using assms(1,5) h by (auto simp: frame_read_def)
    then show ?thesis using keep assms(6) Inl by (simp add: fr_kept_def)
  next
    case (Inr x)
    obtain k b where x: "x = (k, b)" by (cases x)
    have "m_io fr' = d1 \<and> m_buffer fr' = b \<and> s' = s1"
      using assms(1,5) h Inr x by (auto simp: frame_read_def Let_def split: if_splits sum.splits prod.splits)
    then show ?thesis using keep Inr x by (auto simp: fr_kept_def)
  qed
qed

lemma read_loop_keeps:
  assumes "read_loop env respLen buffer fr s = Some y"
  shows "env_api env = api \<Longrightarrow> tb_laws (env_tb env) \<Longrightarrow> dev_ok alive (m_io fr) s \<Longrightarrow>
    m_dev (m_io fr) = Some h \<Longrightarrow> fst y \<noteq> Inl Deadlock \<Longrightarrow> fr_kept fr s (fst (snd y)) (snd (snd y))"
proof (induction rule: read_loop.raw_induct [OF _ assms, case_names step])
  case (step loop env respLen buffer fr s y)
  note IH = step(1) and eq = step(2) and e = step(3) and tb = step(4) and ok = step(5) and h = step(6)
    and nd = step(7)
  show ?case
  proof (cases "rn fr < ucast respLen")
    case False
    then show ?thesis using eq by auto
  next
    case True
    obtain r1 fr1 s1 where f: "frame_read env buffer fr s = (r1, fr1, s1)" by (metis prod_cases3)
    show ?thesis
    proof (cases r1)
      case (Inl x)
      then have "y = (Inl x, fr1, s1)" using eq True f by simp
      then show ?thesis using frame_read_keeps [OF e tb ok h f] nd Inl by simp
    next
      case (Inr x)
      obtain n b where x: "x = (n, b)" by (cases x)
      have k: "fr_kept fr s fr1 s1" using frame_read_keeps [OF e tb ok h f] Inr by simp
      have l: "loop env respLen b (fr1\<lparr>rn := rn fr1 + (n + 5)\<rparr>) s1 = Some y" using eq True f Inr x by simp
      have "dev_ok alive (m_io fr1) s1" "m_dev (m_io fr1) = Some h"
        using k ok h by (auto simp: fr_kept_def dev_ok_def)
      then have "fr_kept (fr1\<lparr>rn := rn fr1 + (n + 5)\<rparr>) s1 (fst (snd y)) (snd (snd y))"
        by (intro IH [OF l e tb _ _ nd]) simp_all
      then show ?thesis using fr_kept_trans [OF k] by (simp add: fr_kept_counters)
    qed
  qed
qed

lemma frame_exchange_keeps:
  assumes "env_api env = api" "tb_laws (env_tb env)" "apdu_wf a" "dev_ok alive (m_io fr) s" "m_dev (m_io fr) = Some h"
    and "frame_exchange env a fr s = Some (r, fr', s')" "r \<noteq> Inl Deadlock"
  shows "fr_kept fr s fr' s'"
proof -
  let ?fr = "frame_reset fr"
  have io: "m_io ?fr = m_io fr" by (simp add: frame_reset_def)
  obtain s1 where w: "frame_write env a ?fr s = Some (Inr (5 + payload_size a), ?fr, s1)" "alive s1 = alive s"
    using frame_write_keeps [OF assms(1-3), of ?fr s h] assms(4,5) io by auto
  have d1: "dev_ok alive (m_io ?fr) s1" "m_dev (m_io ?fr) = Some h" using assms(4,5) w(2) io by (simp_all add: dev_ok_def)
  obtain r2 fr2 s2 where rd: "frame_read env (tb_new (env_tb env) 255) ?fr s1 = (r2, fr2, s2)" by (metis prod_cases3)
  note k2 = frame_read_keeps [OF assms(1,2) d1 rd]
  have small: "\<not> payload_size a > 255" using assms(3) by (simp add: apdu_wf_def)
  have start: "fr_kept fr s fr' s'" if "fr_kept ?fr s1 fr' s'"
    using that w(2) by (simp add: fr_kept_def frame_reset_def)
  show ?thesis
  proof (cases r2)
    case (Inl e)
    then have "fr' = fr2" "s' = s2" "r = Inl e" using assms(6) small w rd by (simp_all add: frame_exchange_def)
    then show ?thesis using start k2 Inl assms(7) by simp
  next
    case (Inr x)
    obtain n b where x: "x = (n, b)" by (cases x)
    let ?fr3 = "fr2\<lparr>rn := rn fr2 + (n + 5)\<rparr>"
    have k: "fr_kept ?fr s1 ?fr3 s2" using k2 Inr by (simp add: fr_kept_counters)
    have d3: "dev_ok alive (m_io ?fr3) s2" "m_dev (m_io ?fr3) = Some h"
      using k d1 by (auto simp: fr_kept_def dev_ok_def)
    show ?thesis
    proof (cases "tb_num16 (env_tb env) b 0")
      case (Inl e)
      then have "fr' = ?fr3" "s' = s2" using assms(6) small w rd Inr x
        by (simp_all add: frame_exchange_def Let_def)
      then show ?thesis using start k by simp
    next
      case num: (Inr len16)
      then obtain r4 fr4 s4 where loop: "read_loop env (len16 + 2) b ?fr3 s2 = Some (r4, fr4, s4)"
        using assms(6) small w rd Inr x by (cases "read_loop env (len16 + 2) b ?fr3 s2")
          (auto simp: frame_exchange_def Let_def)
      show ?thesis
      proof (cases r4)
        case (Inl e)
        then have "fr' = fr4" "s' = s4" "r = Inl e" using assms(6) small w rd Inr x num loop
          by (simp_all add: frame_exchange_def Let_def)
        then show ?thesis
          using start fr_kept_trans [OF k] read_loop_keeps [OF loop assms(1,2) d3] Inl assms(7) by simp
      next
        case ok: (Inr b4)
        then have "fr_kept fr4 s4 fr' s'" using assms(6) small w rd Inr x num loop
          by (auto simp: frame_exchange_def Let_def fr_kept_def split: sum.splits)
        then show ?thesis
          using start fr_kept_trans [OF fr_kept_trans [OF k]] read_loop_keeps [OF loop assms(1,2) d3] ok by simp
      qed
    qed
  qed
qed

lemma exchange_step:
  assumes "serves api alive env" "framer_ok alive w s" "io_valid w" "length (payload a) = 255"
    and "frame_exchange env a (m_framer w) s = Some (r, fr, s1)" "comes_back r"
  shows "handle_step alive w s (w\<lparr>m_framer := fr\<rparr>) s1"
proof (cases "payload_size a > 255")
  case True
  then have "fr = m_framer w" "s1 = s" using assms(5) by (simp_all add: frame_exchange_def)
  then show ?thesis using assms(2) by (simp add: handle_step_refl)
next
  case False
  obtain h where h: "m_dev (m_io (m_framer w)) = Some h"
    using assms(3) by (auto simp: io_valid_def hidpp_valid_def)
  have d: "dev_ok alive (m_io (m_framer w)) s" using assms(2) by (simp add: framer_ok_def)
  have "apdu_wf a" using False assms(4) by (simp add: apdu_wf_def)
  then have "fr_kept (m_framer w) s fr s1"
    using frame_exchange_keeps [OF servesD(1,2) [OF assms(1)] _ d h assms(5)] assms(6) by (cases r; cases "projl r") auto
  then show ?thesis using assms(2) by (simp add: fr_kept_def handle_step_def framer_ok_def dev_ok_def)
qed

lemma exchange_loop_step:
  assumes "exchange_loop env a code w s = Some y"
  shows "serves api alive env \<Longrightarrow> length (payload a) = 255 \<Longrightarrow> framer_ok alive w s \<Longrightarrow> comes_back (fst y) \<Longrightarrow>
    m_devLock (fst (snd y)) = m_devLock w \<and> handle_step alive w s (fst (snd y)) (snd (snd y))"
proof (induction rule: exchange_loop.raw_induct [OF _ assms, case_names step])
  case (step loop env a code w s y)
  note IH = step(1) and eq = step(2) and env = step(3) and a = step(4) and ok = step(5) and cb = step(6)
  show ?case
  proof (cases "io_valid w")
    case False
    then have "y = (Inr ([], code), w\<lparr>m_valid := False\<rparr>, s)" using eq by simp
    then show ?thesis using ok by (simp add: handle_step_refl)
  next
    case True
    then obtain r fr s1 where f: "frame_exchange env a (m_framer w) s = Some (r, fr, s1)"
      using eq by (cases "frame_exchange env a (m_framer w) s") auto
    show ?thesis
    proof (cases "\<exists>e g. r = Inl (Wrong_Seqno e g)")
      case False
      then have y: "fst (snd y) = w\<lparr>m_framer := fr\<rparr>" "snd (snd y) = s1" "comes_back r"
        using eq True f cb by (auto split: sum.splits fault.splits)
      then show ?thesis using exchange_step [OF env ok True a f] by simp
    next
      case seqno: True
      then have st: "handle_step alive w s (w\<lparr>m_framer := fr\<rparr>) s1"
        using exchange_step [OF env ok True a f] by auto
      obtain r2 w2 s2 where c1: "wio (hidpp_close api) (w\<lparr>m_framer := fr\<rparr>) s1 = (r2, w2, s2)"
        by (metis prod_cases3)
      have "r2 = Inr () \<or> comes_back r2"
        using eq True f seqno c1 cb servesD(1) [OF env] by (cases r2) auto
      note c2 = close_step [OF handle_step_ok [OF st] c1 this]
      have c: "wio (hidpp_close api) (w\<lparr>m_framer := fr\<rparr>) s1 = (Inr (), w2, s2)"
        "m_devLock w2 = m_devLock w" "\<not> io_valid w2" "handle_step alive (w\<lparr>m_framer := fr\<rparr>) s1 w2 s2"
        using c1 c2(1,2,4,5) by simp_all
      let ?s2 = "env_sleep env 1000 s2"
      have st2: "handle_step alive w s w2 ?s2"
        using handle_step_trans [OF st c(4)] servesD(3) [OF env]
        by (simp add: handle_step_def framer_ok_def dev_ok_def)
      obtain r3 w3 s3 where o: "wio (hidpp_open api) w2 ?s2 = (r3, w3, s3)" by (metis prod_cases3)
      have "comes_back r3"
        using eq True f seqno c(1) o cb servesD(1) [OF env] by (cases r3) auto
      then have st3: "m_devLock w3 = m_devLock w" "handle_step alive w s w3 s3"
        using open_step [OF handle_step_ok [OF st2] o] c(2,3) handle_step_trans [OF st2]
        by (auto simp: io_valid_def hidpp_valid_def)
      show ?thesis
      proof (cases r3)
        case (Inl e)
        then have "y = (Inl e, w3, s3)" using eq True f seqno c(1) o servesD(1) [OF env] by auto
        then show ?thesis using st3 by simp
      next
        case (Inr b)
        then have l: "loop env a code w3 s3 = Some y" using eq True f seqno c(1) o servesD(1) [OF env] by auto
        show ?thesis
          using IH [OF l env a handle_step_ok [OF st3(2)] cb] st3 handle_step_trans [OF st3(2)] by simp
      qed
    qed
  qed
qed

lemma runs_exchange:
  assumes "serves api alive env" "length (payload a) = 255"
  shows "runs alive (wallet_exchange env a code)"
proof (rule runsI)
  fix w s r w1 s1
  assume ok: "wallet_ok alive w s" and x: "wallet_exchange env a code w s = Some (r, w1, s1)" and cb: "comes_back r"
  show "\<not> m_devLock w1 \<and> handle_step alive w s w1 s1"
  proof (cases "m_valid w")
    case False
    then show ?thesis using ok x by (auto simp: wallet_exchange_def wallet_ok_def handle_step_refl)
  next
    case True
    then obtain r2 w2 s2 where l: "exchange_loop env a code (w\<lparr>m_devLock := True\<rparr>) s = Some (r2, w2, s2)"
      using ok x by (cases "exchange_loop env a code (w\<lparr>m_devLock := True\<rparr>) s")
        (auto simp: wallet_exchange_def wallet_ok_def)
    then have "r = r2" "w1 = w2\<lparr>m_devLock := False\<rparr>" "s1 = s2"
      using ok x True cb by (auto simp: wallet_exchange_def wallet_ok_def split: sum.splits fault.splits)
    then show ?thesis
      using exchange_loop_step [OF l assms] ok cb by (simp add: wallet_ok_def)
  qed
qed

text \<open>Every command is an exchange between pure steps; \<^verbatim>\<open>run_app\<close> also waits for the device.\<close>

lemma runs_command:
  assumes "serves api alive env" "\<And>a. apdu = Inr a \<Longrightarrow> length (payload a) = 255"
  shows "runs alive (command env apdu failure decode)"
proof (rule runsI)
  fix w s r w1 s1
  assume ok: "wallet_ok alive w s" and x: "command env apdu failure decode w s = Some (r, w1, s1)"
    and cb: "comes_back r"
  show "\<not> m_devLock w1 \<and> handle_step alive w s w1 s1"
  proof (cases apdu)
    case (Inl e)
    then show ?thesis using ok x by (simp add: command_def wallet_ok_def handle_step_refl)
  next
    case (Inr a)
    then obtain r2 where e: "wallet_exchange env a CODE_SUCCESS w s = Some (r2, w1, s1)"
      and "comes_back r2"
      using x cb by (cases "wallet_exchange env a CODE_SUCCESS w s")
        (auto simp: command_def split: sum.splits if_splits)
    then show ?thesis
      using runsD [OF runs_exchange [OF assms(1) assms(2) [OF Inr]] ok e] by (simp add: wallet_ok_def)
  qed
qed

lemma device_apdu_payload: "device_apdu cmd param1 sz bytes = Inr a \<Longrightarrow> length (payload a) = 255"
  by (auto simp: device_apdu_def c_memcpy_def split: if_splits)

lemma wait_for_app_alive:
  "serves api alive env \<Longrightarrow> wait_for_app env n r s = (p, s1) \<Longrightarrow> alive s1 = alive s"
proof (induction env n r s rule: wait_for_app.induct)
  case (1 env n r s)
  obtain q s2 where e: "enumerate_devices (env_api env) LEDGER_VID 0 (env_sleep env 200 s) = (q, s2)" by fastforce
  then have al: "alive s2 = alive s"
    using enumerate_keeps servesD(1,3) [OF 1(2)] unfolding enumerate_devices_def
    by (auto split: prod.splits sum.splits)
  show ?case
  proof (cases q)
    case (Inl x)
    then show ?thesis using 1(3) e al by (subst (asm) wait_for_app.simps) simp
  next
    case (Inr devs)
    obtain found pid where f: "last_app_pid devs r = (found, pid)" by fastforce
    have "p = Inr pid \<and> s1 = s2 \<or> \<not> 300 \<le> n + 1 \<and> \<not> found \<and> wait_for_app env (n + 1) (found, pid) s2 = (p, s1)"
      using 1(3) e Inr f by (subst (asm) wait_for_app.simps) (auto split: if_splits)
    then show ?thesis using 1(1) [OF e [symmetric] Inr refl f [symmetric] _ _ 1(2)] al by auto
  qed
qed

lemma runs_then:
  assumes "runs alive m" and "\<And>w s r w1 s1. f w s = Some (r, w1, s1) \<Longrightarrow> comes_back r \<Longrightarrow>
    \<exists>r' s'. comes_back r' \<and> m w s = Some (r', w1, s') \<and> alive s1 = alive s'"
  shows "runs alive f"
proof (rule runsI)
  fix w s r w1 s1
  assume ok: "wallet_ok alive w s" and "f w s = Some (r, w1, s1)" "comes_back r"
  then obtain r' s' where m: "m w s = Some (r', w1, s')" "comes_back r'" and s1: "alive s1 = alive s'"
    using assms(2) by blast
  show "\<not> m_devLock w1 \<and> handle_step alive w s w1 s1"
    using runsD [OF assms(1) ok m] s1 by (simp add: wallet_ok_def handle_step_def framer_ok_def dev_ok_def)
qed

lemma wallet_commands_run:
  assumes "serves api alive env"
  shows "runs alive (get_address env i silent)" "runs alive (sign_tx env raw i)"
    "runs alive (get_app_version env)" "runs alive (get_app_list env)" "runs alive (run_app env name)"
proof -
  note cmd = runs_command [OF assms]
  show "runs alive (get_address env i silent)"
    unfolding get_address_def get_address_apdu_def by (intro cmd) (rule device_apdu_payload)
  show "runs alive (sign_tx env raw i)"
    unfolding sign_tx_def sign_tx_apdu_def
    by (intro cmd) (auto simp: bind_res_eq_Inr intro: device_apdu_payload)
  show "runs alive (get_app_version env)"
    unfolding get_app_version_def get_app_version_apdu_def by (intro cmd) (rule device_apdu_payload)
  have 1: "runs alive (command env get_app_list_apdu ''Unable to get app version: '' Inr)"
    unfolding get_app_list_apdu_def by (intro cmd) (rule device_apdu_payload)
  show "runs alive (get_app_list env)"
    by (rule runs_then [OF 1]) (auto simp: get_app_list_def split: option.splits sum.splits)
  have 2: "runs alive (command env (run_app_apdu (env_tb env) name) (''Unable to run app '' @ name @ '': '') Inr)"
    unfolding run_app_apdu_def by (intro cmd) (rule device_apdu_payload)
  show "runs alive (run_app env name)"
    by (rule runs_then [OF 2])
      (auto simp: run_app_def split: option.splits sum.splits prod.splits dest: wait_for_app_alive [OF assms, symmetric])
qed

end

end
