(* ===== verification/Wallet_Life.thy ===== *)
theory Wallet_Life
  imports Wallet_Steps
begin

text \<open>
  The life of a wallet: which handle it holds, how long its buffer is and which locks are free
  after any sequence of its operations, commands that throw included; that it can be closed
  when the backend closes the handle it holds, what \<^verbatim>\<open>init\<close> forgets, a flag that a failed \<^verbatim>\<open>init\<close> leaves set, and what \<^verbatim>\<open>close\<close> does
  while another thread is inside \<^verbatim>\<open>exchange\<close>.
\<close>

section \<open>Reachable wallets\<close>

text \<open>
  The states a program can bring a wallet to by its operations, called in any order, over a
  backend \<open>env\<close>; \<open>s0\<close> is the state of the backend when the wallet is made. A command may
  return or throw: the program catches the exception and goes on.
\<close>

inductive wallet_reach :: "'s env \<Rightarrow> 's \<Rightarrow> nanos_wallet \<Rightarrow> 's \<Rightarrow> bool" for env s0 where
  start: "wallet_reach env s0 (nanos_wallet_new (env_tb env)) s0"
| closing: "wallet_reach env s0 w s \<Longrightarrow> wallet_close env w s = (Inr u, w1, s1) \<Longrightarrow> wallet_reach env s0 w1 s1"
| ext: "wallet_reach env s0 w s \<Longrightarrow> init_ext env pid w s = (Inr c, w1, s1) \<Longrightarrow> wallet_reach env s0 w1 s1"
| ext_root: "wallet_reach env s0 w s \<Longrightarrow> init_ext_root env w s = (Inr c, w1, s1) \<Longrightarrow> wallet_reach env s0 w1 s1"
| reopen: "wallet_reach env s0 w s \<Longrightarrow> reopen_with_app env pid w s = (Inr c, w1, s1) \<Longrightarrow> wallet_reach env s0 w1 s1"
| init: "wallet_reach env s0 w s \<Longrightarrow> wallet_init env pid w s = (Inr b, w1, s1) \<Longrightarrow> wallet_reach env s0 w1 s1"
| root: "wallet_reach env s0 w s \<Longrightarrow> init_root env w s = (Inr b, w1, s1) \<Longrightarrow> wallet_reach env s0 w1 s1"
| pid: "wallet_reach env s0 w s \<Longrightarrow> get_opened_app_pid env w s = (Inr p, w1, s1) \<Longrightarrow> wallet_reach env s0 w1 s1"
| exchange: "wallet_reach env s0 w s \<Longrightarrow> length (payload a) = 255 \<Longrightarrow>
    wallet_exchange env a code w s = Some (x, w1, s1) \<Longrightarrow> comes_back x \<Longrightarrow> wallet_reach env s0 w1 s1"
| address: "wallet_reach env s0 w s \<Longrightarrow> get_address env i silent w s = Some (ad, w1, s1) \<Longrightarrow> comes_back ad \<Longrightarrow>
    wallet_reach env s0 w1 s1"
| sign: "wallet_reach env s0 w s \<Longrightarrow> sign_tx env raw i w s = Some (sg, w1, s1) \<Longrightarrow> comes_back sg \<Longrightarrow>
    wallet_reach env s0 w1 s1"
| version: "wallet_reach env s0 w s \<Longrightarrow> get_app_version env w s = Some (vr, w1, s1) \<Longrightarrow> comes_back vr \<Longrightarrow>
    wallet_reach env s0 w1 s1"
| apps: "wallet_reach env s0 w s \<Longrightarrow> get_app_list env w s = Some (al, w1, s1) \<Longrightarrow> comes_back al \<Longrightarrow>
    wallet_reach env s0 w1 s1"
| run: "wallet_reach env s0 w s \<Longrightarrow> run_app env name w s = Some (ra, w1, s1) \<Longrightarrow> comes_back ra \<Longrightarrow>
    wallet_reach env s0 w1 s1"

lemma wallet_new_ok: "tb_laws tb \<Longrightarrow> wallet_ok alive (nanos_wallet_new tb) s"
  by (simp add: wallet_ok_def framer_ok_def nanos_wallet_new_def frame_io_apdu_new_def dev_ok_def hidpp_copy_def
      hidpp_device_ids_def tb_lawsD(1))

context hid_backend
begin

lemma wallet_reach_ok:
  assumes "wallet_reach env s0 w s" "serves api alive env"
  shows "wallet_ok alive w s"
  using assms(1)
proof (induction rule: wallet_reach.induct)
  note ops = wallet_ops_preserve [OF servesD(1,2) [OF assms(2)]]
  note cmd = wallet_commands_run [OF assms(2)]
  {
    case start
    show ?case by (rule wallet_new_ok [OF servesD(2) [OF assms(2)]])
  next
    case closing
    then show ?case using preservesD [OF preserves_close [OF servesD(1) [OF assms(2)]]] by blast
  next
    case ext
    then show ?case using preservesD [OF ops(1)] by blast
  next
    case ext_root
    then show ?case using preservesD [OF ops(2)] by blast
  next
    case reopen
    then show ?case using preservesD [OF ops(6)] by blast
  next
    case init
    then show ?case using preservesD [OF ops(3)] by blast
  next
    case root
    then show ?case using preservesD [OF ops(4)] by blast
  next
    case pid
    then show ?case using preservesD [OF ops(5)] by blast
  next
    case exchange
    then show ?case using runsD [OF runs_exchange [OF assms(2)]] by blast
  next
    case address
    then show ?case using runsD [OF cmd(1)] by blast
  next
    case sign
    then show ?case using runsD [OF cmd(2)] by blast
  next
    case version
    then show ?case using runsD [OF cmd(3)] by blast
  next
    case apps
    then show ?case using runsD [OF cmd(4)] by blast
  next
    case run
    then show ?case using runsD [OF cmd(5)] by blast
  }
qed

lemma wallet_init_forgets:
  assumes e: "env_api env = api" and ok: "wallet_ok alive w s"
    and h: "m_dev (m_io (m_framer w)) = Some h" and i: "wallet_init env pid w s = (Inr True, w1, s1)"
  shows "\<exists>h1. m_dev (m_io (m_framer w1)) = Some h1 \<and> h1 \<noteq> h \<and> alive s1 h1 \<and> alive s1 h"
proof -
  have a: "alive s h" using ok h by (simp add: wallet_ok_def framer_ok_def dev_ok_def)
  from i obtain w2 roots w3 s3 apps w4 s4 where
    1: "wenumerate env LEDGER_VID NANOS_PID_ROOT (w\<lparr>m_devLock := True\<rparr>) s = (Inr roots, w3, s3)" and
    2: "wenumerate env LEDGER_VID pid w3 s3 = (Inr apps, w4, s4)" and
    3: "(if roots = [] \<and> apps = [] then wret False else if roots \<noteq> [] then wret False
       else wbind (assign_framer env (di_vendor_id (hd apps)) pid)
         (\<lambda>_. open_framer env False (\<lambda>valid. valid))) w4 s4 = (Inr True, w2, s1)" and
    w1: "w1 = w2\<lparr>m_devLock := False\<rparr>"
    unfolding wallet_init_def wlock_Inr wbind_Inr by blast
  have w4: "w4 = w\<lparr>m_devLock := True\<rparr>" "alive s4 = alive s"
    using wenumerate_Inr [OF e 1] wenumerate_Inr [OF e 2] by simp_all
  from 3 obtain u w5 s5 where 5: "assign_framer env (di_vendor_id (hd apps)) pid w4 s4 = (Inr u, w5, s5)"
    and 6: "open_framer env False (\<lambda>valid. valid) w5 s5 = (Inr True, w2, s1)"
    by (auto simp: wbind_Inr wret_def split: if_splits)
  have w5: "dev_ok alive (m_io (m_framer w5)) s5" "s5 = s4"
    using 5 ok w4 by (auto simp: assign_framer_def Let_def wallet_ok_def framer_ok_def dev_ok_def hidpp_assign_def
        frame_io_apdu_new_def hidpp_copy_def hidpp_device_ids_def)
  from 6 obtain d where d: "hidpp_open api (m_io (m_framer w5)) s5 = (Inr True, d, s1)"
    "m_io (m_framer w2) = d"
    unfolding open_framer_def e by (auto simp: wbind_Inr wio_def wret_def split: if_splits prod.splits)
  obtain h1 where h1: "m_dev d = Some h1" using hidpp_open_ok(2) [OF w5(1) d(1)] by auto
  have "\<not> alive s5 h1" "alive s1 h" "alive s1 h1"
    using hidpp_open_ok(3) [OF w5(1) d(1) h1] hidpp_open_ok(4) [OF w5(1) d(1), of h]
      hidpp_open_ok(1) [OF w5(1) d(1)] a w5(2) w4(2) h1 by (auto simp: dev_ok_def)
  then show ?thesis using a h1 d(2) w1 w5(2) w4(2) by auto
qed

end

context closing_backend
begin

lemma wallet_reach_close:
  assumes "wallet_reach env s0 w s" "serves api alive env"
    and "\<forall>h. m_dev (m_io (m_framer w)) = Some h \<longrightarrow> closable s h"
  shows "\<exists>w1 s1. wallet_close env w s = (Inr (), w1, s1) \<and> \<not> m_valid w1 \<and> \<not> io_valid w1 \<and>
    alive s1 = (case m_dev (m_io (m_framer w)) of None \<Rightarrow> alive s | Some h \<Rightarrow> (alive s)(h := False))"
proof -
  have "dev_ok alive (m_io (m_framer w)) s"
    using wallet_reach_ok [OF assms(1,2)] by (simp add: wallet_ok_def framer_ok_def)
  from hidpp_close_ok [OF this assms(3)] show ?thesis
    unfolding wallet_close_def servesD(1) [OF assms(2)]
    by (auto simp: wbind_def wio_def io_valid_def hidpp_valid_def split: option.splits)
qed

end

text \<open>The wallet on the demonstration machine, before and after an \<^verbatim>\<open>init\<close>.\<close>

definition linux_env :: "(int \<times> int list) linux_state env" where
  "linux_env = \<lparr>env_build = \<lparr>b_win32 = False, b_msc = False\<rparr>, env_tb = tb_vec,
     env_api = linux_api demo_os, env_lib = \<lparr>narrow = (\<lambda>_. None), tl_strerror = (\<lambda>_. [])\<rparr>,
     env_sleep = (\<lambda>_ s. s)\<rparr>"

lemma linux_env_sel [simp]: "env_api linux_env = linux_api demo_os" "env_tb linux_env = tb_vec"
  by (simp_all add: linux_env_def)

lemma linux_env_serves: "serves (linux_api demo_os) lx_alive linux_env"
  by (simp add: serves_def linux_env_def tb_vec_laws)

definition opened_wallet :: "nat \<Rightarrow> nanos_wallet" where
  "opened_wallet h = \<lparr>m_framer = (frame_io_apdu_new tb_vec (hidpp_device_ids LEDGER_VID NANOS_PID))
     \<lparr>m_io := (hidpp_device_ids LEDGER_VID NANOS_PID)\<lparr>m_dev := Some h\<rparr>\<rparr>,
     m_valid = True, m_devLock = False\<rparr>"

lemma demo_wallet_init:
  assumes "w = nanos_wallet_new tb_vec \<or> w = opened_wallet k" "lx_world s = (3, [])"
    "last_global_error_str s = None"
  shows "wallet_init linux_env NANOS_PID w s =
    (Inr True, opened_wallet (length (lx_heap s)), s\<lparr>lx_heap := lx_heap s @ [Some demo_device]\<rparr>)"
proof -
  have o: "hidpp_open (linux_api demo_os) (hidpp_device_ids LEDGER_VID NANOS_PID) s =
    (Inr True, (hidpp_device_ids LEDGER_VID NANOS_PID)\<lparr>m_dev := Some (length (lx_heap s))\<rparr>,
     s\<lparr>lx_heap := lx_heap s @ [Some demo_device]\<rparr>)"
    using assms(2,3) demo_open_ids [OF assms(2)]
    by (simp add: hidpp_open_def lock_guard_def hidpp_device_ids_def linux_api_def LEDGER_VID_def
        NANOS_PID_def lx_set_nonblocking_def lx_deref_def lx_put_def demo_device_def)
  have e: "wenumerate linux_env LEDGER_VID NANOS_PID_ROOT w s = (Inr [], w, s)"
    "wenumerate linux_env LEDGER_VID NANOS_PID w s = (Inr [demo_nano], w, s)" for w
    by (simp_all add: wenumerate_def enumerate_devices_def linux_api_def demo_enumerate
        id_matches_def LEDGER_VID_def NANOS_PID_def NANOS_PID_ROOT_def)
  have d: "hidpp_assign (m_io (m_framer w)) (hidpp_copy (hidpp_device_ids LEDGER_VID NANOS_PID)) =
      hidpp_device_ids LEDGER_VID NANOS_PID" "m_devLock w = False"
    using assms(1) by (auto simp: nanos_wallet_new_def opened_wallet_def hidpp_assign_def hidpp_copy_def
        hidpp_device_ids_def frame_io_apdu_new_def)
  have v: "di_vendor_id demo_nano = LEDGER_VID" by (simp add: demo_nano_def LEDGER_VID_def)
  show ?thesis
    using o d v
    by (simp add: wallet_init_def wlock_def wbind_def e assign_framer_def open_framer_def wio_def
        opened_wallet_def io_valid_def hidpp_valid_def frame_io_apdu_new_def Let_def)
qed

lemma demo_wallet_reach:
  "wallet_reach linux_env (demo_state 3) (opened_wallet 0) ((demo_state 3)\<lparr>lx_heap := [Some demo_device]\<rparr>)"
proof (rule wallet_reach.init [OF wallet_reach.start])
  show "wallet_init linux_env NANOS_PID (nanos_wallet_new (env_tb linux_env)) (demo_state 3) =
      (Inr True, opened_wallet 0, (demo_state 3)\<lparr>lx_heap := [Some demo_device]\<rparr>)"
    using demo_wallet_init [of "nanos_wallet_new tb_vec" 0 "demo_state 3"] by (simp add: demo_state_def)
qed

text \<open>
  C35. \<^verbatim>\<open>init\<close> (and \<^verbatim>\<open>init_root\<close>, which ends the same way) forgets the device that is already
  open: it assigns a new framer over the old one without closing it. After a second successful
  \<^verbatim>\<open>init\<close> the first handle is still open and no longer reachable from the wallet.
\<close>

theorem wallet_init_leaks:
  assumes "wallet_reach env s0 w s" and "serves (linux_api os) lx_alive env"
    and "m_dev (m_io (m_framer w)) = Some h" and "wallet_init env pid w s = (Inr True, w1, s1)"
  shows "\<exists>h1. m_dev (m_io (m_framer w1)) = Some h1 \<and> h1 \<noteq> h \<and> lx_alive s1 h1 \<and> lx_alive s1 h"
  using lx.wallet_init_forgets [OF servesD(1) [OF assms(2)] lx.wallet_reach_ok [OF assms(1,2)] assms(3,4)] .

theorem wallet_init_leaks_witness:
  "\<exists>w1 s1. wallet_init linux_env NANOS_PID (opened_wallet 0) ((demo_state 3)\<lparr>lx_heap := [Some demo_device]\<rparr>) =
     (Inr True, w1, s1) \<and> m_dev (m_io (m_framer w1)) \<noteq> Some 0 \<and> lx_alive s1 0"
proof -
  let ?s = "(demo_state 3)\<lparr>lx_heap := [Some demo_device]\<rparr>"
  have i: "wallet_init linux_env NANOS_PID (opened_wallet 0) ?s =
      (Inr True, opened_wallet 1, ?s\<lparr>lx_heap := [Some demo_device, Some demo_device]\<rparr>)"
    using demo_wallet_init [of "opened_wallet 0" 0 ?s] by (simp add: demo_state_def)
  show ?thesis
    using wallet_init_leaks [OF demo_wallet_reach linux_env_serves _ i, of 0] i
    by (auto simp: opened_wallet_def)
qed

section \<open>A stale flag\<close>

lemma hidpp_open_valid: "hidpp_open api d s = (Inr True, d', s') \<Longrightarrow> hidpp_valid d'"
  by (auto simp: hidpp_open_def lock_guard_def hidpp_valid_def
      split: if_splits sum.splits option.splits prod.splits fault.splits)

lemma wallet_init_False:
  assumes "wallet_init env pid w s = (Inr False, w1, s1)"
  shows "m_valid w1 = m_valid w" "\<not> m_devLock w1"
  using assms
  by (auto simp: wallet_init_def wlock_Inr wbind_Inr wret_def wenumerate_def assign_framer_def Let_def
      open_framer_def wio_def io_valid_def split: if_splits prod.splits dest: hidpp_open_valid)

text \<open>
  C32. \<^verbatim>\<open>init\<close> on a wallet that is in use replaces the framer before it opens the new device. When
  that fails, \<^verbatim>\<open>init\<close> returns false but \<^verbatim>\<open>m_valid\<close> is still set, with no device behind it: with an
  application of the device in the list, \<^verbatim>\<open>init_ext\<close> then reports \<^verbatim>\<open>APP_OPENED\<close> and opens nothing,
  and the first exchange returns no bytes as a success.
\<close>

theorem wallet_valid_stale:
  assumes "m_valid w" and "wallet_init env pid w s = (Inr False, w1, s1)"
    and "m_dev (m_io (m_framer w1)) = None"
    and "enumerate_devices (env_api env) LEDGER_VID pid' s1 = (Inr devs, s2)" and "devs \<noteq> []"
  shows "m_valid w1 \<and> init_ext env pid' w1 s1 = (Inr APP_OPENED, w1, s2) \<and>
    wallet_exchange env a CODE_SUCCESS w1 s2 = Some (Inr ([], CODE_SUCCESS), w1\<lparr>m_valid := False\<rparr>, s2)"
proof -
  note w1 = wallet_init_False [OF assms(2)]
  then have "w1\<lparr>m_devLock := False\<rparr> = w1" by (cases w1) simp
  then show ?thesis
    using w1 assms
    by (simp add: init_ext_def wlock_def wbind_def wenumerate_def wret_def wallet_exchange_def
        exchange_loop.simps io_valid_def hidpp_valid_def)
qed

text \<open>The machine on which the node is listed but can no longer be opened.\<close>

lemma demo_open_path_fails:
  "lx_world s = (-1, cl) \<Longrightarrow> \<exists>s1. lx_open_path demo_os p s = (Inr None, s1)"
  by (cases s) (simp add: lx_open_path_def demo_os_def hid_init_def register_global_error_def utf8_to_wchar_t_def)

lemma demo_open_fails:
  assumes "lx_world s = (-1, cl)"
  shows "\<exists>s1. hidpp_open (linux_api demo_os) (hidpp_device_ids LEDGER_VID NANOS_PID) s =
    (Inr False, hidpp_device_ids LEDGER_VID NANOS_PID, s1)"
proof -
  have "lx_world (register_global_error demo_os None s) = (-1, cl)"
    using assms by (simp add: register_global_error_def utf8_to_wchar_t_def)
  then obtain s1 where "lx_open demo_os LEDGER_VID NANOS_PID None s = (Inr None, s1)"
    using demo_open_path_fails [of "register_global_error demo_os None s" cl "Some ''hidraw0''"]
    by (auto simp: lx_open_def Let_def demo_enumerate id_matches_def LEDGER_VID_def NANOS_PID_def demo_nano_def)
  then show ?thesis
    by (simp add: hidpp_open_def lock_guard_def hidpp_device_ids_def linux_api_def LEDGER_VID_def NANOS_PID_def)
qed

theorem wallet_valid_stale_witness:
  "\<exists>w1 s1. wallet_init linux_env NANOS_PID (opened_wallet 0)
        \<lparr>lx_world = (-1, []), lx_heap = [Some demo_device], last_global_error_str = None\<rparr> = (Inr False, w1, s1) \<and>
     m_valid w1 \<and> init_ext linux_env NANOS_PID w1 s1 = (Inr APP_OPENED, w1, s1)"
proof -
  let ?s = "\<lparr>lx_world = (-1, []), lx_heap = [Some demo_device], last_global_error_str = None\<rparr> :: (int \<times> int list) linux_state"
  let ?d = "hidpp_device_ids LEDGER_VID NANOS_PID"
  obtain s1 where o: "hidpp_open (linux_api demo_os) ?d ?s = (Inr False, ?d, s1)"
    using demo_open_fails [of ?s] by auto
  have e: "enumerate_devices (linux_api demo_os) LEDGER_VID NANOS_PID s = (Inr [demo_nano], s)"
    "enumerate_devices (linux_api demo_os) LEDGER_VID NANOS_PID_ROOT s = (Inr [], s)" for s
    by (simp_all add: enumerate_devices_def linux_api_def demo_enumerate id_matches_def LEDGER_VID_def
        NANOS_PID_def NANOS_PID_ROOT_def)
  have d: "hidpp_assign (m_io (m_framer (opened_wallet 0))) (hidpp_copy ?d) = ?d"
    by (simp add: opened_wallet_def hidpp_assign_def hidpp_copy_def hidpp_device_ids_def)
  have v: "di_vendor_id demo_nano = LEDGER_VID" and n: "m_dev ?d = None"
    by (simp_all add: demo_nano_def LEDGER_VID_def hidpp_device_ids_def)
  obtain m where g: "getError (linux_api demo_os) (env_lib linux_env) ?d s1 = (Inr m, ?d, s1)"
    by (simp add: getError_def get_dev_error_def lock_guard_def hidpp_device_ids_def Let_def)
  obtain w1 where i: "wallet_init linux_env NANOS_PID (opened_wallet 0) ?s = (Inr False, w1, s1)"
    and "m_dev (m_io (m_framer w1)) = None"
    using o d g v n by (simp add: wallet_init_def wlock_def wbind_def wenumerate_def e assign_framer_def open_framer_def
        wio_def wret_def opened_wallet_def frame_io_apdu_new_def Let_def)
  moreover have "m_valid (opened_wallet 0)" by (simp add: opened_wallet_def)
  ultimately show ?thesis
    using wallet_valid_stale [OF _ i, of NANOS_PID "[demo_nano]" s1] e by auto
qed

section \<open>Two threads on one wallet\<close>

text \<open>
  C34. \<^verbatim>\<open>close()\<close> uses the device without taking \<^verbatim>\<open>m_devLock\<close>. Called by one thread while
  another is inside \<^verbatim>\<open>exchange\<close>, between two packets, it takes the device away: the next packet
  written and the next one read go to a null device, which the linux backend dereferences.
  \<^verbatim>\<open>reopen_with_app\<close> does the same, since it calls \<^verbatim>\<open>close()\<close> before it comes to a lock, where it
  waits. \<^verbatim>\<open>init_ext\<close>, \<^verbatim>\<open>init_ext_root\<close>, \<^verbatim>\<open>init\<close>, \<^verbatim>\<open>init_root\<close>, \<^verbatim>\<open>get_opened_app_pid\<close> and another
  \<^verbatim>\<open>exchange\<close>, with which each command begins, wait for the exchange to end and change nothing.
\<close>

theorem close_during_exchange:
  assumes "serves (linux_api os) lx_alive env" and "m_devLock w" and "framer_ok lx_alive w s" and "io_valid w"
  shows "(\<exists>w1 s1. wallet_close env w s = (Inr (), w1, s1) \<and> m_devLock w1 \<and>
      fst (hidpp_write (env_build env) (env_tb env) (env_api env) packet (m_io (m_framer w1)) s1) =
        Inl (UB Null_Pointer) \<and>
      fst (frame_read env out (m_framer w1) s1) = Inl (UB Null_Pointer) \<and>
      reopen_with_app env pid w s = (Inl Deadlock, w1, s1)) \<and>
    init_ext env pid w s = (Inl Deadlock, w, s) \<and> init_ext_root env w s = (Inl Deadlock, w, s) \<and>
    wallet_init env pid w s = (Inl Deadlock, w, s) \<and> init_root env w s = (Inl Deadlock, w, s) \<and>
    get_opened_app_pid env w s = (Inl Deadlock, w, s) \<and>
    wallet_exchange env a code w s = Some (Inl Deadlock, w, s)"
proof -
  have e: "env_api env = linux_api os" "tb_laws (env_tb env)" using servesD [OF assms(1)] by simp_all
  have l: "\<not> m_dev_lock (m_io (m_framer w))" using assms(3) by (simp add: framer_ok_def dev_ok_def)
  have "dev_ok lx_alive (m_io (m_framer w)) s" using assms(3) by (simp add: framer_ok_def)
  then obtain d' s1 where "hidpp_close (linux_api os) (m_io (m_framer w)) s = (Inr (), d', s1)"
    using lxc.hidpp_close_ok by blast
  then obtain w1 where w0: "wio (hidpp_close (linux_api os)) w s = (Inr (), w1, s1)" by (simp add: wio_def)
  note c0 = lx.close_step [OF assms(3) w0]
  have w1: "wio (hidpp_close (linux_api os)) w s = (Inr (), w1, s1)" "m_devLock w1"
    "\<not> io_valid w1" "handle_step lx_alive w s w1 s1"
    using w0 c0(2,4,5) assms(2) by simp_all
  then have c: "wallet_close env w s = (Inr (), w1\<lparr>m_valid := False\<rparr>, s1)" "m_devLock w1"
    "\<not> io_valid w1" "framer_ok lx_alive w1 s1"
    using assms(4) handle_step_ok [OF w1(4)] by (simp_all add: wallet_close_def wbind_def e(1))
  let ?d = "m_io (m_framer w1)"
  have d: "m_dev ?d = None" "\<not> m_dev_lock ?d"
    using c(3,4) by (simp_all add: io_valid_def hidpp_valid_def framer_ok_def dev_ok_def)
  have null: "lx_read os None n s1 = (Inl (UB Null_Pointer), s1)" "lx_write os None p s1 = (Inl (UB Null_Pointer), s1)" for n p
    by (simp_all add: lx_read_def lx_write_def lx_deref_def)
  have raw: "fst (hidpp_write_raw (linux_api os) p ?d s1) = Inl (UB Null_Pointer)" for p
    using d null(2) by (simp add: hidpp_write_raw_def lock_guard_def linux_api_def)
  have n: "length (tb_new (env_tb env) (length packet + 1)) = length packet + 1" by (rule tb_lawsD(1) [OF e(2)])
  then have "\<exists>y. bind_res (tb_write (env_tb env) (tb_new (env_tb env) (length packet + 1)) 0 [0])
      (\<lambda>(w, _). tb_write (env_tb env) w 1 packet) = Inr y"
    using tb_lawsD(2) [OF e(2), of 0 "[0]" "tb_new (env_tb env) (length packet + 1)"]
      tb_lawsD(2) [OF e(2), of 1 packet "overwrite (tb_new (env_tb env) (length packet + 1)) 0 [0]"] by simp
  then have wr: "fst (hidpp_write (env_build env) (env_tb env) (env_api env) packet ?d s1) = Inl (UB Null_Pointer)"
    using raw by (auto simp: hidpp_write_def e(1))
  have "\<exists>io s2. hidpp_read (env_build env) (env_tb env) (linux_api os) (env_lib env) (m_buffer (m_framer w1)) 64 ?d s1 =
      (Inl (UB Null_Pointer), io, s2)"
    using d null(1) by (simp add: hidpp_read_def lock_guard_def linux_api_def Let_def)
  then have rd: "fst (frame_read env out (m_framer w1) s1) = Inl (UB Null_Pointer)"
    by (auto simp: frame_read_def e(1))
  show ?thesis
    using c(1,2) wr rd assms(2)
    by (auto simp: init_ext_def init_ext_root_def wallet_init_def init_root_def get_opened_app_pid_def
        reopen_with_app_def wbind_def wlock_def wallet_exchange_def)
qed

theorem close_during_exchange_witness:
  "\<exists>w1 s1. wallet_close linux_env ((opened_wallet 0)\<lparr>m_devLock := True\<rparr>)
        ((demo_state 3)\<lparr>lx_heap := [Some demo_device]\<rparr>) = (Inr (), w1, s1) \<and>
     fst (frame_read linux_env [] (m_framer w1) s1) = Inl (UB Null_Pointer)"
proof -
  let ?s = "(demo_state 3)\<lparr>lx_heap := [Some demo_device]\<rparr>" and ?w = "(opened_wallet 0)\<lparr>m_devLock := True\<rparr>"
  have "wallet_ok lx_alive (opened_wallet 0) ?s"
    by (rule lx.wallet_reach_ok [OF demo_wallet_reach linux_env_serves])
  then have "framer_ok lx_alive ?w ?s" by (simp add: wallet_ok_def)
  moreover have "io_valid ?w" by (simp add: io_valid_def hidpp_valid_def opened_wallet_def)
  ultimately show ?thesis
    using close_during_exchange [OF linux_env_serves, of ?w ?s "[]" "[]" 0 undefined 0] by auto
qed

end
