(* ===== verification/Libusb_Lang.thy ===== *)
theory Libusb_Lang
  imports Prelude
begin

text \<open>
  The language table of the libusb backend and \<^verbatim>\<open>get_usb_code_for_current_locale\<close>
  (\<^verbatim>\<open>src/src/hid/libusb/hid.c\<close>, 1305-1510). The name of an entry is never read and is left out;
  the terminating entry is the end of the list.
\<close>

section \<open>The table\<close>

definition lang_map :: "(string \<times> u16) list" where
  "lang_map =
    [(''af'', 0x0436), (''sq'', 0x041c), (''ar_ae'', 0x3801), (''ar_bh'', 0x3c01), (''ar_dz'', 0x1401),
     (''ar_eg'', 0x0c01), (''ar_iq'', 0x0801), (''ar_jo'', 0x2c01), (''ar_kw'', 0x3401), (''ar_lb'', 0x3001),
     (''ar_ly'', 0x1001), (''ar_ma'', 0x1801), (''ar_om'', 0x2001), (''ar_qa'', 0x4001), (''ar_sa'', 0x0401),
     (''ar_sy'', 0x2801), (''ar_tn'', 0x1c01), (''ar_ye'', 0x2401), (''hy'', 0x042b), (''az_az'', 0x042c),
     (''az_az'', 0x082c), (''eu'', 0x042d), (''be'', 0x0423), (''bg'', 0x0402), (''ca'', 0x0403),
     (''zh_cn'', 0x0804), (''zh_hk'', 0x0c04), (''zh_mo'', 0x1404), (''zh_sg'', 0x1004), (''zh_tw'', 0x0404),
     (''hr'', 0x041a), (''cs'', 0x0405), (''da'', 0x0406), (''nl_nl'', 0x0413), (''nl_be'', 0x0813),
     (''en_au'', 0x0c09), (''en_bz'', 0x2809), (''en_ca'', 0x1009), (''en_cb'', 0x2409), (''en_ie'', 0x1809),
     (''en_jm'', 0x2009), (''en_nz'', 0x1409), (''en_ph'', 0x3409), (''en_za'', 0x1c09), (''en_tt'', 0x2c09),
     (''en_gb'', 0x0809), (''en_us'', 0x0409), (''et'', 0x0425), (''fa'', 0x0429), (''fi'', 0x040b),
     (''fo'', 0x0438), (''fr_fr'', 0x040c), (''fr_be'', 0x080c), (''fr_ca'', 0x0c0c), (''fr_lu'', 0x140c),
     (''fr_ch'', 0x100c), (''gd_ie'', 0x083c), (''gd'', 0x043c), (''de_de'', 0x0407), (''de_at'', 0x0c07),
     (''de_li'', 0x1407), (''de_lu'', 0x1007), (''de_ch'', 0x0807), (''el'', 0x0408), (''he'', 0x040d),
     (''hi'', 0x0439), (''hu'', 0x040e), (''is'', 0x040f), (''id'', 0x0421), (''it_it'', 0x0410),
     (''it_ch'', 0x0810), (''ja'', 0x0411), (''ko'', 0x0412), (''lv'', 0x0426), (''lt'', 0x0427),
     (''mk'', 0x042f), (''ms_my'', 0x043e), (''ms_bn'', 0x083e), (''mt'', 0x043a), (''mr'', 0x044e),
     (''no_no'', 0x0414), (''no_no'', 0x0814), (''pl'', 0x0415), (''pt_pt'', 0x0816), (''pt_br'', 0x0416),
     (''rm'', 0x0417), (''ro'', 0x0418), (''ro_mo'', 0x0818), (''ru'', 0x0419), (''ru_mo'', 0x0819),
     (''sa'', 0x044f), (''sr_sp'', 0x0c1a), (''sr_sp'', 0x081a), (''tn'', 0x0432), (''sl'', 0x0424),
     (''sk'', 0x041b), (''sb'', 0x042e), (''es_es'', 0x040a), (''es_ar'', 0x2c0a), (''es_bo'', 0x400a),
     (''es_cl'', 0x340a), (''es_co'', 0x240a), (''es_cr'', 0x140a), (''es_do'', 0x1c0a), (''es_ec'', 0x300a),
     (''es_gt'', 0x100a), (''es_hn'', 0x480a), (''es_mx'', 0x080a), (''es_ni'', 0x4c0a), (''es_pa'', 0x180a),
     (''es_pe'', 0x280a), (''es_pr'', 0x500a), (''es_py'', 0x3c0a), (''es_sv'', 0x440a), (''es_uy'', 0x380a),
     (''es_ve'', 0x200a), (''st'', 0x0430), (''sw'', 0x0441), (''sv_se'', 0x041d), (''sv_fi'', 0x081d),
     (''ta'', 0x0449), (''tt'', 0x0444), (''th'', 0x041e), (''tr'', 0x041f), (''ts'', 0x0431),
     (''uk'', 0x0422), (''ur'', 0x0420), (''uz_uz'', 0x0843), (''uz_uz'', 0x0443), (''vi'', 0x042a),
     (''xh'', 0x0434), (''yi'', 0x043d), (''zu'', 0x0435)]"

section \<open>The lookup\<close>

text \<open>\<^verbatim>\<open>tolower\<close> in the C locale.\<close>

definition to_lower :: "char \<Rightarrow> char" where
  "to_lower c = (let n = of_char c :: nat in if 65 \<le> n \<and> n \<le> 90 then char_of (n + 32) else c)"

text \<open>The loop that lowers the string in place up to the character it cuts at.\<close>

fun lower_until :: "char \<Rightarrow> string \<Rightarrow> string" where
  "lower_until stop [] = []"
| "lower_until stop (c # cs) =
     (if to_lower c = stop then [] else to_lower c # lower_until stop cs)"

fun find_lang :: "(string \<times> u16) list \<Rightarrow> string \<Rightarrow> u16 option" where
  "find_lang [] search_string = None"
| "find_lang ((string_code, usb_code) # langs) search_string =
     (if string_code = search_string then Some usb_code else find_lang langs search_string)"

text \<open>
  \<open>locale\<close> is what \<^verbatim>\<open>setlocale(0, NULL)\<close> returns; its copy has at most 63 characters. The
  second cut, at the underscore, changes a string that is not used any more: the search for
  the language alone is disabled.
\<close>

definition get_usb_code :: "string option \<Rightarrow> u16" where
  "get_usb_code locale =
     (case locale of
        None \<Rightarrow> 0
      | Some l \<Rightarrow>
          (case find_lang lang_map (lower_until (CHR ''.'') (take 63 l)) of
             Some usb_code \<Rightarrow> usb_code
           | None \<Rightarrow> 0))"

section \<open>Property\<close>

lemma find_lang_map_of: "find_lang m k = map_of m k"
  by (induction m k rule: find_lang.induct) auto

lemma lang_map_shadowed:
  "list_all (\<lambda>(k, c). (c = 0x082C \<longrightarrow> k = ''az_az'') \<and> (c = 0x0814 \<longrightarrow> k = ''no_no'') \<and>
     (c = 0x081A \<longrightarrow> k = ''sr_sp'') \<and> (c = 0x0443 \<longrightarrow> k = ''uz_uz'') \<and> c \<noteq> 0) lang_map"
  unfolding lang_map_def by simp

lemma lang_map_first:
  "map_of lang_map ''az_az'' = Some 0x042C" "map_of lang_map ''no_no'' = Some 0x0414"
  "map_of lang_map ''sr_sp'' = Some 0x0C1A" "map_of lang_map ''uz_uz'' = Some 0x0843"
  unfolding lang_map_def by simp_all

lemma get_usb_code_correct_facts:
  "get_usb_code None = 0"
  "get_usb_code (Some l) =
     (case map_of lang_map (lower_until (CHR ''.'') (take 63 l)) of None \<Rightarrow> 0 | Some c \<Rightarrow> c)"
  "get_usb_code loc \<notin> {0x082C, 0x0814, 0x081A, 0x0443}"
  "get_usb_code (Some ''PL_pl.UTF-8'') = 0 \<and> get_usb_code (Some ''PL.UTF-8'') = 0x0415"
proof -
  show "get_usb_code None = 0"
    "get_usb_code (Some l) =
       (case map_of lang_map (lower_until (CHR ''.'') (take 63 l)) of None \<Rightarrow> 0 | Some c \<Rightarrow> c)"
    by (simp_all add: get_usb_code_def find_lang_map_of split: option.split)
  have "c \<noteq> 0x082C \<and> c \<noteq> 0x0814 \<and> c \<noteq> 0x081A \<and> c \<noteq> 0x0443" if m: "map_of lang_map k = Some c" for k c
  proof -
    have "(k, c) \<in> set lang_map" using m by (rule map_of_SomeD)
    then have "(c = 0x082C \<longrightarrow> k = ''az_az'') \<and> (c = 0x0814 \<longrightarrow> k = ''no_no'') \<and>
        (c = 0x081A \<longrightarrow> k = ''sr_sp'') \<and> (c = 0x0443 \<longrightarrow> k = ''uz_uz'')"
      using lang_map_shadowed unfolding list_all_iff by blast
    then show ?thesis using m lang_map_first by auto
  qed
  then show "get_usb_code loc \<notin> {0x082C, 0x0814, 0x081A, 0x0443}"
    by (auto simp: get_usb_code_def find_lang_map_of split: option.splits)
  have "lower_until (CHR ''.'') (take 63 ''PL_pl.UTF-8'') = ''pl_pl''"
    "lower_until (CHR ''.'') (take 63 ''PL.UTF-8'') = ''pl''" by code_simp+
  moreover have "map_of lang_map ''pl_pl'' = None" "map_of lang_map ''pl'' = Some 0x0415"
    unfolding lang_map_def by simp_all
  ultimately show "get_usb_code (Some ''PL_pl.UTF-8'') = 0 \<and> get_usb_code (Some ''PL.UTF-8'') = 0x0415"
    unfolding get_usb_code_def find_lang_map_of by (simp del: lower_until.simps take_Cons_numeral)
qed

text \<open>
  The language code of a locale depends only on its part before the dot, in any case; it is
  the code of the first entry with that name, and 0 when there is no entry or no locale.
  Hence the second entry of a name that is listed twice is never returned: Azeri in Cyrillic,
  Nynorsk, Serbian in Latin and Uzbek in Latin cannot be asked for, and the code of a language
  listed without a country, such as Polish, is not found for a locale like \<^verbatim>\<open>pl_PL\<close>, although
  the comment announces a search for the language alone.
\<close>

theorem get_usb_code_correct:
  "get_usb_code None = 0 \<and>
   get_usb_code (Some l) =
     (case map_of lang_map (lower_until (CHR ''.'') (take 63 l)) of None \<Rightarrow> 0 | Some c \<Rightarrow> c) \<and>
   get_usb_code loc \<notin> {0x082C, 0x0814, 0x081A, 0x0443} \<and>
   get_usb_code (Some ''PL_pl.UTF-8'') = 0 \<and> get_usb_code (Some ''PL.UTF-8'') = 0x0415"
  using get_usb_code_correct_facts by blast

end
