(* ===== verification/Report_Queue.thy ===== *)
theory Report_Queue
  imports Prelude
begin

text \<open>
  The queue of input reports of the libusb and the mac backend: the linked list of
  \<^verbatim>\<open>struct input_report\<close> that hangs off \<^verbatim>\<open>dev->input_reports\<close>, on an explicit heap. The read
  thread attaches reports at the end (\<^verbatim>\<open>read_callback\<close>, \<^verbatim>\<open>hid_report_callback\<close>), the reader
  takes them from the front (\<^verbatim>\<open>return_data\<close>), \<^verbatim>\<open>hid_close\<close> empties the list. The locale
  \<open>report_queue\<close> is the contract the readers rely on; both backends interpret it.
\<close>

section \<open>The heap\<close>

text \<open>\<^verbatim>\<open>struct input_report\<close>; the node owns its data block.\<close>

record input_report =
  ir_data :: "u8 list"
  ir_len :: nat
  ir_next :: ptr

type_synonym report_heap = "nat \<Rightarrow> input_report option"

text \<open>
  \<open>rq_root\<close> is \<^verbatim>\<open>dev->input_reports\<close>; \<open>rq_brk\<close> is the next address \<^verbatim>\<open>malloc\<close> gives, so that
  a freed address is not given again and an access to it shows.
\<close>

record report_list =
  rq_heap :: report_heap
  rq_root :: ptr
  rq_brk :: nat

definition rq_empty :: report_list where
  "rq_empty = \<lparr>rq_heap = Map.empty, rq_root = None, rq_brk = 0\<rparr>"

definition set_next :: "report_heap \<Rightarrow> nat \<Rightarrow> ptr \<Rightarrow> report_heap res" where
  "set_next h a p =
     (case h a of None \<Rightarrow> Inl (UB Use_After_Free) | Some r \<Rightarrow> Inr (h(a \<mapsto> r\<lparr>ir_next := p\<rparr>)))"

text \<open>The allocation and filling of a new report.\<close>

definition new_report :: "u8 list \<Rightarrow> report_list \<Rightarrow> nat \<times> report_list" where
  "new_report d q =
     (rq_brk q,
      q\<lparr>rq_heap := (rq_heap q)(rq_brk q \<mapsto> \<lparr>ir_data = d, ir_len = length d, ir_next = None\<rparr>),
        rq_brk := Suc (rq_brk q)\<rparr>)"

section \<open>libusb\<close>

text \<open>
  \<^verbatim>\<open>return_data\<close>: the bytes copied to the caller and the list without its first node. The
  block of the node holds \<open>ir_data\<close>; a longer \<open>ir_len\<close> would be read past its end.
\<close>

definition lu_return_data :: "nat \<Rightarrow> report_list \<Rightarrow> (u8 list \<times> report_list) res" where
  "lu_return_data n q =
     (case rq_root q of
        None \<Rightarrow> Inl (UB Null_Pointer)
      | Some a \<Rightarrow>
          (case rq_heap q a of
             None \<Rightarrow> Inl (UB Use_After_Free)
           | Some rpt \<Rightarrow>
               (let len = (if n < ir_len rpt then n else ir_len rpt) in
                if len > 0 \<and> len > length (ir_data rpt) then Inl (UB Out_Of_Bounds)
                else Inr (take len (ir_data rpt),
                          q\<lparr>rq_root := ir_next rpt, rq_heap := (rq_heap q)(a := None)\<rparr>))))"

text \<open>The walk to the last node, counting the steps.\<close>

partial_function (option) lu_find_end :: "report_heap \<Rightarrow> nat \<Rightarrow> nat \<Rightarrow> (nat \<times> nat) res option" where
  "lu_find_end h cur num_queued =
     (case h cur of
        None \<Rightarrow> Some (Inl (UB Use_After_Free))
      | Some r \<Rightarrow>
          (case ir_next r of
             None \<Rightarrow> Some (Inr (cur, num_queued))
           | Some nx \<Rightarrow> lu_find_end h nx (num_queued + 1)))"

text \<open>
  The critical section of \<^verbatim>\<open>read_callback\<close>; the flag says whether the condition is signalled.
\<close>

definition lu_attach :: "u8 list \<Rightarrow> report_list \<Rightarrow> (bool \<times> report_list) res option" where
  "lu_attach d q =
     (let (rpt, q1) = new_report d q in
      case rq_root q1 of
        None \<Rightarrow> Some (Inr (True, q1\<lparr>rq_root := Some rpt\<rparr>))
      | Some root \<Rightarrow>
          (case lu_find_end (rq_heap q1) root 0 of
             None \<Rightarrow> None
           | Some (Inl e) \<Rightarrow> Some (Inl e)
           | Some (Inr (cur, num_queued)) \<Rightarrow>
               (case set_next (rq_heap q1) cur (Some rpt) of
                  Inl e \<Rightarrow> Some (Inl e)
                | Inr h \<Rightarrow>
                    if num_queued > 30 then
                      Some (bind_res (lu_return_data 0 (q1\<lparr>rq_heap := h\<rparr>)) (\<lambda>(_, q2). Inr (False, q2)))
                    else Some (Inr (False, q1\<lparr>rq_heap := h\<rparr>)))))"

text \<open>The loop of \<^verbatim>\<open>hid_close\<close> that clears the queue.\<close>

partial_function (option) lu_drain :: "report_list \<Rightarrow> report_list res option" where
  "lu_drain q =
     (case rq_root q of
        None \<Rightarrow> Some (Inr q)
      | Some _ \<Rightarrow>
          (case lu_return_data 0 q of
             Inl e \<Rightarrow> Some (Inl e)
           | Inr (_, q') \<Rightarrow> lu_drain q'))"

section \<open>mac\<close>

definition mc_return_data :: "nat \<Rightarrow> report_list \<Rightarrow> (u8 list \<times> report_list) res" where
  "mc_return_data n q =
     (case rq_root q of
        None \<Rightarrow> Inl (UB Null_Pointer)
      | Some a \<Rightarrow>
          (case rq_heap q a of
             None \<Rightarrow> Inl (UB Use_After_Free)
           | Some rpt \<Rightarrow>
               (let len = (if n < ir_len rpt then n else ir_len rpt) in
                if len > length (ir_data rpt) then Inl (UB Out_Of_Bounds)
                else Inr (take len (ir_data rpt),
                          q\<lparr>rq_root := ir_next rpt, rq_heap := (rq_heap q)(a := None)\<rparr>))))"

partial_function (option) mc_find_end :: "report_heap \<Rightarrow> nat \<Rightarrow> nat \<Rightarrow> (nat \<times> nat) res option" where
  "mc_find_end h cur num_queued =
     (case h cur of
        None \<Rightarrow> Some (Inl (UB Use_After_Free))
      | Some r \<Rightarrow>
          (case ir_next r of
             None \<Rightarrow> Some (Inr (cur, num_queued))
           | Some nx \<Rightarrow> mc_find_end h nx (num_queued + 1)))"

text \<open>\<^verbatim>\<open>hid_report_callback\<close>: signals whether or not the list was empty.\<close>

definition mc_attach :: "u8 list \<Rightarrow> report_list \<Rightarrow> (bool \<times> report_list) res option" where
  "mc_attach d q =
     (let (rpt, q1) = new_report d q in
      case rq_root q1 of
        None \<Rightarrow> Some (Inr (True, q1\<lparr>rq_root := Some rpt\<rparr>))
      | Some root \<Rightarrow>
          (case mc_find_end (rq_heap q1) root 0 of
             None \<Rightarrow> None
           | Some (Inl e) \<Rightarrow> Some (Inl e)
           | Some (Inr (cur, num_queued)) \<Rightarrow>
               (case set_next (rq_heap q1) cur (Some rpt) of
                  Inl e \<Rightarrow> Some (Inl e)
                | Inr h \<Rightarrow>
                    if num_queued > 30 then
                      Some (bind_res (mc_return_data 0 (q1\<lparr>rq_heap := h\<rparr>)) (\<lambda>(_, q2). Inr (True, q2)))
                    else Some (Inr (True, q1\<lparr>rq_heap := h\<rparr>)))))"

partial_function (option) mc_drain :: "report_list \<Rightarrow> report_list res option" where
  "mc_drain q =
     (case rq_root q of
        None \<Rightarrow> Some (Inr q)
      | Some _ \<Rightarrow>
          (case mc_return_data 0 q of
             Inl e \<Rightarrow> Some (Inl e)
           | Inr (_, q') \<Rightarrow> mc_drain q'))"

text \<open>The loop of \<^verbatim>\<open>free_hid_device\<close> over the reports still left.\<close>

partial_function (option) mc_free_reports :: "report_heap \<Rightarrow> ptr \<Rightarrow> report_heap res option" where
  "mc_free_reports h rpt =
     (case rpt of
        None \<Rightarrow> Some (Inr h)
      | Some a \<Rightarrow>
          (case h a of
             None \<Rightarrow> Some (Inl (UB Use_After_Free))
           | Some r \<Rightarrow> mc_free_reports (h(a := None)) (ir_next r)))"

section \<open>The list a root stands for\<close>

fun chain :: "report_heap \<Rightarrow> ptr \<Rightarrow> nat list \<Rightarrow> bool" where
  "chain h p [] \<longleftrightarrow> p = None"
| "chain h p (a # as) \<longleftrightarrow> p = Some a \<and> (\<exists>r. h a = Some r \<and> chain h (ir_next r) as)"

fun walk :: "nat \<Rightarrow> report_heap \<Rightarrow> ptr \<Rightarrow> u8 list list" where
  "walk (Suc n) h (Some a) =
     (case h a of None \<Rightarrow> [] | Some r \<Rightarrow> ir_data r # walk n h (ir_next r))"
| "walk _ _ _ = []"

definition rq_view :: "report_list \<Rightarrow> u8 list list" where
  "rq_view q = walk (rq_brk q) (rq_heap q) (rq_root q)"

text \<open>
  The invariant: the root leads through distinct nodes to a null pointer, the nodes on the way
  are all the nodes there are (nothing leaks), and every length field is the length of its
  block.
\<close>

definition rq_inv :: "report_list \<Rightarrow> bool" where
  "rq_inv q \<longleftrightarrow>
     (\<exists>as. chain (rq_heap q) (rq_root q) as \<and> distinct as \<and> set as = dom (rq_heap q)
        \<and> (\<forall>a \<in> set as. a < rq_brk q))
     \<and> (\<forall>a r. rq_heap q a = Some r \<longrightarrow> ir_len r = length (ir_data r))"

lemma chain_cong: "(\<And>a. a \<in> set as \<Longrightarrow> h a = h' a) \<Longrightarrow> chain h p as = chain h' p as"
  by (induction as arbitrary: p) auto

lemma chain_upd [queue_simps]: "a \<notin> set as \<Longrightarrow> chain (h(a := r)) p as = chain h p as"
  by (rule chain_cong) auto

lemma walk_chain:
  "chain h p as \<Longrightarrow> length as \<le> n \<Longrightarrow> walk n h p = map (\<lambda>a. ir_data (the (h a))) as"
proof (induction as arbitrary: n p)
  case Nil then show ?case by (cases n) auto
next
  case (Cons a as) then show ?case by (cases n) auto
qed

lemma distinct_bound: "distinct as \<Longrightarrow> (\<forall>a \<in> set as. a < n) \<Longrightarrow> length as \<le> (n :: nat)"
  using card_mono [of "{..<n}" "set as"] by (auto simp: distinct_card [symmetric])

lemma rq_invE:
  assumes "rq_inv q"
  obtains as where "chain (rq_heap q) (rq_root q) as" "distinct as" "set as = dom (rq_heap q)"
    "\<forall>a \<in> set as. a < rq_brk q" "rq_view q = map (\<lambda>a. ir_data (the (rq_heap q a))) as"
    "\<And>a r. rq_heap q a = Some r \<Longrightarrow> ir_len r = length (ir_data r)"
  using assms unfolding rq_inv_def rq_view_def
  by (metis distinct_bound walk_chain)

lemma rq_invI:
  assumes "chain (rq_heap q) (rq_root q) as" "distinct as" "set as = dom (rq_heap q)"
    "\<forall>a \<in> set as. a < rq_brk q" "\<And>a r. rq_heap q a = Some r \<Longrightarrow> ir_len r = length (ir_data r)"
  shows "rq_inv q \<and> rq_view q = map (\<lambda>a. ir_data (the (rq_heap q a))) as"
  using assms unfolding rq_inv_def rq_view_def
  by (metis distinct_bound walk_chain)

section \<open>Contract\<close>

text \<open>
  What the readers rely on: attaching appends, and drops the oldest report when the queue
  already held 32; taking gives the front, cut to the size asked for; both keep the invariant
  and have no undefined behaviour.
\<close>

definition bounded_snoc :: "u8 list list \<Rightarrow> u8 list \<Rightarrow> u8 list list" where
  "bounded_snoc xs d = (if length xs \<ge> 32 then tl (xs @ [d]) else xs @ [d])"

locale report_queue =
  fixes attach :: "u8 list \<Rightarrow> 'q \<Rightarrow> (bool \<times> 'q) res option"
    and return_data :: "nat \<Rightarrow> 'q \<Rightarrow> (u8 list \<times> 'q) res"
    and drain :: "'q \<Rightarrow> 'q res option"
    and view :: "'q \<Rightarrow> u8 list list"
    and inv :: "'q \<Rightarrow> bool"
  assumes attach_ok: "inv q \<Longrightarrow>
      \<exists>sig q'. attach d q = Some (Inr (sig, q')) \<and> inv q' \<and> view q' = bounded_snoc (view q) d
        \<and> (view q = [] \<longrightarrow> sig)"
    and take_ok: "inv q \<Longrightarrow> view q = x # xs \<Longrightarrow>
      \<exists>q'. return_data n q = Inr (take n x, q') \<and> inv q' \<and> view q' = xs"
    and take_none: "inv q \<Longrightarrow> view q = [] \<Longrightarrow> return_data n q = Inl (UB Null_Pointer)"
    and drain_step: "inv q \<Longrightarrow> view q = x # xs \<Longrightarrow>
      drain q = (case return_data 0 q of Inl e \<Rightarrow> Some (Inl e) | Inr (_, q') \<Rightarrow> drain q')"
    and drain_none: "inv q \<Longrightarrow> view q = [] \<Longrightarrow> drain q = Some (Inr q)"
begin

text \<open>A run of the producer and the consumer, one critical section after the other.\<close>

lemma drain_empties: "inv q \<Longrightarrow> \<exists>q'. drain q = Some (Inr q') \<and> inv q' \<and> view q' = []"
proof (induction "view q" arbitrary: q)
  case Nil
  then show ?case by (metis drain_none)
next
  case (Cons x xs)
  then obtain q1 where "return_data 0 q = Inr (take 0 x, q1)" "inv q1" "view q1 = xs"
    using take_ok [of q x xs 0] by metis
  then show ?case using Cons drain_step [of q x xs] by auto
qed

fun attach_all :: "u8 list list \<Rightarrow> 'q \<Rightarrow> 'q res option" where
  "attach_all [] q = Some (Inr q)"
| "attach_all (d # ds) q =
     (case attach d q of
        None \<Rightarrow> None | Some (Inl e) \<Rightarrow> Some (Inl e) | Some (Inr (_, q')) \<Rightarrow> attach_all ds q')"

lemma attach_all_view:
  "inv q \<Longrightarrow> length (view q) \<le> 32 \<Longrightarrow>
   \<exists>q'. attach_all ds q = Some (Inr q') \<and> inv q' \<and>
     view q' = drop (length (view q) + length ds - 32) (view q @ ds)"
proof (induction ds arbitrary: q)
  case Nil
  then show ?case by simp
next
  case (Cons d ds)
  obtain sig q1 where q1: "attach d q = Some (Inr (sig, q1))" "inv q1"
    "view q1 = bounded_snoc (view q) d" using attach_ok [OF Cons.prems(1)] by metis
  then have "length (view q1) \<le> 32" using Cons.prems(2) by (auto simp: bounded_snoc_def)
  then obtain q' where q': "attach_all ds q1 = Some (Inr q')" "inv q'"
    "view q' = drop (length (view q1) + length ds - 32) (view q1 @ ds)"
    using Cons.IH [OF q1(2)] by metis
  have "view q' = drop (length (view q) + length (d # ds) - 32) (view q @ d # ds)"
  proof (cases "length (view q) = 32")
    case True
    then obtain x xs where v: "view q = x # xs" by (cases "view q") auto
    then have "view q1 = xs @ [d]" "length xs = 31" using q1(3) True by (auto simp: bounded_snoc_def)
    then show ?thesis using q'(3) v by simp
  next
    case False
    then have "view q1 = view q @ [d]" using q1(3) Cons.prems(2) by (simp add: bounded_snoc_def)
    then show ?thesis using q'(3) by simp
  qed
  then show ?case using q1 q' by auto
qed

end

section \<open>libusb provides the contract\<close>

lemma lu_find_end_chain:
  "chain h (Some a) (a # as) \<Longrightarrow> lu_find_end h a k = Some (Inr (last (a # as), k + length as))"
proof (induction as arbitrary: a k)
  case Nil
  then show ?case by (subst lu_find_end.simps) auto
next
  case (Cons b bs)
  then obtain r where r: "h a = Some r" "ir_next r = Some b" "chain h (Some b) (b # bs)" by auto
  then show ?case using Cons.IH [OF r(3)] by (subst lu_find_end.simps) simp
qed

lemma chain_snoc:
  "chain h p as \<Longrightarrow> as \<noteq> [] \<Longrightarrow> distinct as \<Longrightarrow> b \<notin> set as \<Longrightarrow> h b = Some rb \<Longrightarrow> ir_next rb = None
   \<Longrightarrow> h (last as) = Some r \<Longrightarrow> chain (h(last as \<mapsto> r\<lparr>ir_next := Some b\<rparr>)) p (as @ [b])"
proof (induction as arbitrary: p)
  case (Cons a as)
  show ?case
  proof (cases "as = []")
    case True
    then show ?thesis using Cons.prems by auto
  next
    case False
    moreover have "a \<noteq> last as" using Cons.prems(3) False by auto
    ultimately show ?thesis using Cons by auto
  qed
qed simp

lemma lu_return_data_ok:
  assumes "rq_inv q" "rq_view q = x # xs"
  shows "\<exists>q'. lu_return_data n q = Inr (take n x, q') \<and> rq_inv q' \<and> rq_view q' = xs"
proof -
  obtain as where as: "chain (rq_heap q) (rq_root q) as" "distinct as" "set as = dom (rq_heap q)"
    "\<forall>a \<in> set as. a < rq_brk q" "rq_view q = map (\<lambda>a. ir_data (the (rq_heap q a))) as"
    and len: "\<And>a r. rq_heap q a = Some r \<Longrightarrow> ir_len r = length (ir_data r)"
    using rq_invE [OF assms(1)] by metis
  then obtain a as' where a: "as = a # as'" using assms(2) by (cases as) auto
  obtain r where r: "rq_root q = Some a" "rq_heap q a = Some r" "chain (rq_heap q) (ir_next r) as'"
    using as(1) a by auto
  let ?q = "q\<lparr>rq_root := ir_next r, rq_heap := (rq_heap q)(a := None)\<rparr>"
  have "lu_return_data n q = Inr (take (if n < length (ir_data r) then n else length (ir_data r)) (ir_data r), ?q)"
    using r len [OF r(2)] by (simp add: lu_return_data_def Let_def)
  moreover have "take (if n < length (ir_data r) then n else length (ir_data r)) (ir_data r) = take n x"
    using as(5) a r assms(2) by simp
  moreover have "rq_inv ?q \<and> rq_view ?q = map (\<lambda>a. ir_data (the (rq_heap ?q a))) as'"
  proof (rule rq_invI)
    show "set as' = dom (rq_heap ?q)" using as(2,3) a by auto
  qed (use as a r len in \<open>auto simp: chain_upd split: if_splits\<close>)
  moreover have "map (\<lambda>a. ir_data (the (rq_heap ?q a))) as' = xs"
    using as(2,5) a assms(2) by auto
  ultimately show ?thesis by metis
qed

lemma rq_view_Nil: "rq_inv q \<Longrightarrow> rq_view q = [] \<longleftrightarrow> rq_root q = None"
  by (erule rq_invE) (metis chain.elims(2) chain.simps(1) list.map_disc_iff option.distinct(1))

text \<open>Linking a new node into the empty list, and behind the last node of another.\<close>

lemma append_first:
  assumes inv: "rq_inv q" and root: "rq_root q = None" and new: "new_report d q = (b, q1)"
  shows "rq_root q1 = None" "rq_inv (q1\<lparr>rq_root := Some b\<rparr>)" "rq_view (q1\<lparr>rq_root := Some b\<rparr>) = [d]"
proof -
  obtain as where as: "chain (rq_heap q) (rq_root q) as" "set as = dom (rq_heap q)"
    using rq_invE [OF inv] by metis
  then have e: "rq_heap q = Map.empty" using root by (cases as) auto
  have q1: "b = rq_brk q" "q1 = q\<lparr>rq_heap := [b \<mapsto> \<lparr>ir_data = d, ir_len = length d, ir_next = None\<rparr>], rq_brk := Suc b\<rparr>"
    using new e by (auto simp: new_report_def)
  have "rq_inv (q1\<lparr>rq_root := Some b\<rparr>) \<and>
      rq_view (q1\<lparr>rq_root := Some b\<rparr>) = map (\<lambda>a. ir_data (the (rq_heap (q1\<lparr>rq_root := Some b\<rparr>) a))) [b]"
    by (rule rq_invI [where as = "[b]"]) (auto simp: q1 split: if_splits)
  then show "rq_root q1 = None" "rq_inv (q1\<lparr>rq_root := Some b\<rparr>)" "rq_view (q1\<lparr>rq_root := Some b\<rparr>) = [d]"
    using q1 root by auto
qed

lemma append_last:
  assumes inv: "rq_inv q" and root: "rq_root q = Some a" and new: "new_report d q = (b, q1)"
  obtains as h where "rq_root q1 = Some a" "chain (rq_heap q1) (Some a) (a # as)"
    "length (rq_view q) = Suc (length as)"
    "set_next (rq_heap q1) (last (a # as)) (Some b) = Inr h"
    "rq_inv (q1\<lparr>rq_heap := h\<rparr>)" "rq_view (q1\<lparr>rq_heap := h\<rparr>) = rq_view q @ [d]"
proof -
  obtain as0 where as0: "chain (rq_heap q) (rq_root q) as0" "distinct as0" "set as0 = dom (rq_heap q)"
    "\<forall>a \<in> set as0. a < rq_brk q" "rq_view q = map (\<lambda>a. ir_data (the (rq_heap q a))) as0"
    and len: "\<And>a r. rq_heap q a = Some r \<Longrightarrow> ir_len r = length (ir_data r)"
    using rq_invE [OF inv] by metis
  then obtain as where Cons: "as0 = a # as" using root by (cases as0) auto
  have q1: "b = rq_brk q" "q1 = q\<lparr>rq_heap := (rq_heap q)(b \<mapsto> \<lparr>ir_data = d, ir_len = length d, ir_next = None\<rparr>), rq_brk := Suc b\<rparr>"
    using new by (auto simp: new_report_def)
  have b: "b \<notin> set as0" using as0(4) q1 by auto
  have ch1: "chain (rq_heap q1) (Some a) (a # as)"
    using as0(1) b root unfolding Cons q1(2) by (auto simp: chain_upd)
  obtain r where r: "rq_heap q1 (last as0) = Some r" "rq_heap q (last as0) = Some r"
    using as0(3) b Cons q1 by (metis (no_types, lifting) domD fun_upd_apply last_in_set list.distinct(1)
        report_list.select_convs(1) report_list.surjective report_list.update_convs(1,3))
  let ?h2 = "(rq_heap q1)(last as0 \<mapsto> r\<lparr>ir_next := Some b\<rparr>)"
  let ?q2 = "q1\<lparr>rq_heap := ?h2\<rparr>"
  have ch2: "chain ?h2 (rq_root q) (as0 @ [b])"
    using ch1 as0(2) b Cons r(1) root q1 by (intro chain_snoc) auto
  have q2: "rq_inv ?q2 \<and> rq_view ?q2 = map (\<lambda>a. ir_data (the (rq_heap ?q2 a))) (as0 @ [b])"
  proof (rule rq_invI)
    have "last as0 \<in> set as0" using Cons by simp
    then show "set (as0 @ [b]) = dom (rq_heap ?q2)" using as0(3) q1 by auto
    show "\<forall>x \<in> set (as0 @ [b]). x < rq_brk ?q2" using as0(4) q1 by (auto intro: less_SucI)
  qed (use as0(2) b ch2 len r q1 in \<open>auto split: if_splits\<close>)
  moreover have "rq_view ?q2 = rq_view q @ [d]"
    unfolding q2 [THEN conjunct2] using as0(5) b r q1 by auto
  ultimately show thesis
    using that [of as ?h2] ch1 as0(5) Cons r(1) root q1 by (simp add: set_next_def)
qed

text \<open>Dropping the oldest report of a list that is not empty.\<close>

lemma drop_oldest:
  assumes "rq_inv q" "rq_view q = xs @ [d]"
  obtains ds q' where "lu_return_data 0 q = Inr (ds, q')" "rq_inv q'" "rq_view q' = tl (xs @ [d])"
proof -
  have "rq_view q = hd (xs @ [d]) # tl (xs @ [d])" using assms(2) by simp
  then show thesis using lu_return_data_ok [OF assms(1), of _ _ 0] that by metis
qed

lemma lu_attach_ok:
  assumes inv: "rq_inv q"
  shows "\<exists>q'. lu_attach d q = Some (Inr (rq_view q = [], q')) \<and> rq_inv q' \<and>
    rq_view q' = bounded_snoc (rq_view q) d"
proof (cases "rq_root q")
  case None
  obtain b q1 where new: "new_report d q = (b, q1)" by (cases "new_report d q")
  show ?thesis
    using append_first [OF inv None new] rq_view_Nil [OF inv] None new
    by (simp add: lu_attach_def bounded_snoc_def)
next
  case (Some a)
  obtain b q1 where new: "new_report d q = (b, q1)" by (cases "new_report d q")
  from append_last [OF inv Some new] obtain as h where q1: "rq_root q1 = Some a"
    "chain (rq_heap q1) (Some a) (a # as)" "length (rq_view q) = Suc (length as)"
    "set_next (rq_heap q1) (last (a # as)) (Some b) = Inr h" "rq_inv (q1\<lparr>rq_heap := h\<rparr>)"
    "rq_view (q1\<lparr>rq_heap := h\<rparr>) = rq_view q @ [d]" .
  obtain ds q3 where q3: "lu_return_data 0 (q1\<lparr>rq_heap := h\<rparr>) = Inr (ds, q3)" "rq_inv q3"
    "rq_view q3 = tl (rq_view q @ [d])" using drop_oldest [OF q1(5,6)] .
  show ?thesis
    using new q1 q3 lu_find_end_chain [OF q1(2), of 0] rq_view_Nil [OF inv] Some
    by (auto simp: lu_attach_def bounded_snoc_def)
qed

interpretation lu_queue: report_queue lu_attach lu_return_data lu_drain rq_view rq_inv
proof
  fix q :: report_list and d
  assume "rq_inv q"
  then show "\<exists>sig q'. lu_attach d q = Some (Inr (sig, q')) \<and> rq_inv q' \<and>
      rq_view q' = bounded_snoc (rq_view q) d \<and> (rq_view q = [] \<longrightarrow> sig)"
    using lu_attach_ok [of q d] by metis
next
  fix q :: report_list and x xs n
  assume "rq_inv q" "rq_view q = x # xs"
  then show "\<exists>q'. lu_return_data n q = Inr (take n x, q') \<and> rq_inv q' \<and> rq_view q' = xs"
    by (rule lu_return_data_ok)
next
  fix q :: report_list and n
  assume "rq_inv q" "rq_view q = []"
  then show "lu_return_data n q = Inl (UB Null_Pointer)"
    by (simp add: rq_view_Nil lu_return_data_def)
next
  fix q :: report_list and x xs
  assume "rq_inv q" "rq_view q = x # xs"
  then show "lu_drain q =
      (case lu_return_data 0 q of Inl e \<Rightarrow> Some (Inl e) | Inr (_, q') \<Rightarrow> lu_drain q')"
    using rq_view_Nil [of q] by (subst lu_drain.simps) (auto split: option.split)
next
  fix q :: report_list
  assume "rq_inv q" "rq_view q = []"
  then show "lu_drain q = Some (Inr q)"
    by (subst lu_drain.simps) (simp add: rq_view_Nil)
qed

section \<open>mac provides the contract\<close>

lemma mc_return_data_eq: "mc_return_data = lu_return_data"
  by (intro ext) (auto simp: mc_return_data_def lu_return_data_def Let_def split: option.splits)

lemma mc_find_end_chain:
  "chain h (Some a) (a # as) \<Longrightarrow> mc_find_end h a k = Some (Inr (last (a # as), k + length as))"
proof (induction as arbitrary: a k)
  case Nil
  then show ?case by (subst mc_find_end.simps) auto
next
  case (Cons b bs)
  then obtain r where r: "h a = Some r" "ir_next r = Some b" "chain h (Some b) (b # bs)" by auto
  then show ?case using Cons.IH [OF r(3)] by (subst mc_find_end.simps) simp
qed

lemma mc_attach_ok:
  assumes inv: "rq_inv q"
  shows "\<exists>q'. mc_attach d q = Some (Inr (True, q')) \<and> rq_inv q' \<and>
    rq_view q' = bounded_snoc (rq_view q) d"
proof (cases "rq_root q")
  case None
  obtain b q1 where new: "new_report d q = (b, q1)" by (cases "new_report d q")
  show ?thesis
    using append_first [OF inv None new] rq_view_Nil [OF inv] None new
    by (simp add: mc_attach_def bounded_snoc_def)
next
  case (Some a)
  obtain b q1 where new: "new_report d q = (b, q1)" by (cases "new_report d q")
  from append_last [OF inv Some new] obtain as h where q1: "rq_root q1 = Some a"
    "chain (rq_heap q1) (Some a) (a # as)" "length (rq_view q) = Suc (length as)"
    "set_next (rq_heap q1) (last (a # as)) (Some b) = Inr h" "rq_inv (q1\<lparr>rq_heap := h\<rparr>)"
    "rq_view (q1\<lparr>rq_heap := h\<rparr>) = rq_view q @ [d]" .
  obtain ds q3 where q3: "lu_return_data 0 (q1\<lparr>rq_heap := h\<rparr>) = Inr (ds, q3)" "rq_inv q3"
    "rq_view q3 = tl (rq_view q @ [d])" using drop_oldest [OF q1(5,6)] .
  show ?thesis
    using new q1 q3 mc_find_end_chain [OF q1(2), of 0] rq_view_Nil [OF inv] Some
    by (auto simp: mc_attach_def mc_return_data_eq bounded_snoc_def)
qed

interpretation mc_queue: report_queue mc_attach mc_return_data mc_drain rq_view rq_inv
proof
  fix q :: report_list and d
  assume "rq_inv q"
  then show "\<exists>sig q'. mc_attach d q = Some (Inr (sig, q')) \<and> rq_inv q' \<and>
      rq_view q' = bounded_snoc (rq_view q) d \<and> (rq_view q = [] \<longrightarrow> sig)"
    using mc_attach_ok [of q d] by metis
next
  fix q :: report_list and x xs
  assume "rq_inv q" "rq_view q = x # xs"
  then show "mc_drain q =
      (case mc_return_data 0 q of Inl e \<Rightarrow> Some (Inl e) | Inr (_, q') \<Rightarrow> mc_drain q')"
    using rq_view_Nil [of q] by (subst mc_drain.simps) (auto split: option.split)
next
  fix q :: report_list
  assume "rq_inv q" "rq_view q = []"
  then show "mc_drain q = Some (Inr q)"
    by (subst mc_drain.simps) (simp add: rq_view_Nil)
qed (auto simp: mc_return_data_eq lu_queue.take_ok lu_queue.take_none)

text \<open>\<^verbatim>\<open>free_hid_device\<close> frees every report that is still queued.\<close>

lemma mc_free_reports_all:
  "chain h p as \<Longrightarrow> distinct as \<Longrightarrow> mc_free_reports h p = Some (Inr (h |` (- set as)))"
proof (induction as arbitrary: h p)
  case Nil
  then show ?case by (subst mc_free_reports.simps) (auto simp: restrict_map_def)
next
  case (Cons a as)
  then obtain r where r: "p = Some a" "h a = Some r" "chain h (ir_next r) as" by auto
  have "mc_free_reports h p = mc_free_reports (h(a := None)) (ir_next r)"
    using r by (subst mc_free_reports.simps) simp
  also have "\<dots> = Some (Inr ((h(a := None)) |` (- set as)))"
    using Cons.IH [of "h(a := None)"] Cons.prems(2) r(3) chain_upd [of a as h None "ir_next r"]
    by (simp only: distinct.simps simp_thms)
  also have "(h(a := None)) |` (- set as) = h |` (- set (a # as))"
    by (auto simp: restrict_map_def)
  finally show ?case .
qed

section \<open>What the reader gets\<close>

text \<open>
  A run of the read thread: the reports of a list, each attached in its own critical section.
\<close>

fun lu_attach_all :: "u8 list list \<Rightarrow> report_list \<Rightarrow> report_list res option" where
  "lu_attach_all [] q = Some (Inr q)"
| "lu_attach_all (d # ds) q =
     (case lu_attach d q of
        None \<Rightarrow> None | Some (Inl e) \<Rightarrow> Some (Inl e) | Some (Inr (_, q')) \<Rightarrow> lu_attach_all ds q')"

fun lu_take_all :: "nat \<Rightarrow> nat \<Rightarrow> report_list \<Rightarrow> (u8 list list \<times> report_list) res" where
  "lu_take_all 0 n q = Inr ([], q)"
| "lu_take_all (Suc k) n q =
     bind_res (lu_return_data n q) (\<lambda>(d, q1).
     bind_res (lu_take_all k n q1) (\<lambda>(ds, q2). Inr (d # ds, q2)))"

fun mc_attach_all :: "u8 list list \<Rightarrow> report_list \<Rightarrow> report_list res option" where
  "mc_attach_all [] q = Some (Inr q)"
| "mc_attach_all (d # ds) q =
     (case mc_attach d q of
        None \<Rightarrow> None | Some (Inl e) \<Rightarrow> Some (Inl e) | Some (Inr (_, q')) \<Rightarrow> mc_attach_all ds q')"

lemma lu_attach_all_eq: "lu_attach_all ds q = lu_queue.attach_all ds q"
  by (induction ds arbitrary: q) (auto split: option.split sum.split)

lemma mc_attach_all_eq: "mc_attach_all ds q = mc_queue.attach_all ds q"
  by (induction ds arbitrary: q) (auto split: option.split sum.split)

lemma lu_take_all_view:
  "rq_inv q \<Longrightarrow> k \<le> length (rq_view q) \<Longrightarrow>
   \<exists>q'. lu_take_all k n q = Inr (map (take n) (take k (rq_view q)), q') \<and> rq_inv q'
     \<and> rq_view q' = drop k (rq_view q)"
proof (induction k arbitrary: q)
  case (Suc k)
  then obtain x xs where v: "rq_view q = x # xs" by (cases "rq_view q") auto
  then obtain q1 where "lu_return_data n q = Inr (take n x, q1)" "rq_inv q1" "rq_view q1 = xs"
    using lu_queue.take_ok [OF Suc.prems(1)] by metis
  moreover then obtain q2 where "lu_take_all k n q1 = Inr (map (take n) (take k xs), q2)"
    "rq_inv q2" "rq_view q2 = drop k xs" using Suc.IH [of q1] Suc.prems(2) v by auto
  ultimately show ?case using v by simp
qed simp

lemma rq_empty_inv [queue_simps, simp]: "rq_inv rq_empty" "rq_view rq_empty = []"
  by (auto simp: rq_inv_def rq_view_def rq_empty_def intro: exI [of _ "[]"])

text \<open>
  The libusb report queue is a bounded FIFO. When the read thread attaches the reports
  \<open>ds\<close> one after the other to an empty queue, no step has undefined behaviour or runs forever,
  the queue ends up well formed with the newest 32 of them, and a reader that then takes all
  the queue holds gets exactly these, oldest first, each cut to the size of its buffer.
\<close>

theorem lu_queue_fifo:
  "\<exists>q q'. lu_attach_all ds rq_empty = Some (Inr q) \<and> rq_inv q \<and>
     lu_take_all (min 32 (length ds)) n q =
       Inr (map (take n) (drop (length ds - 32) ds), q') \<and> rq_view q' = []"
proof -
  obtain q where q: "lu_attach_all ds rq_empty = Some (Inr q)" "rq_inv q"
    "rq_view q = drop (length ds - 32) ds"
    using lu_queue.attach_all_view [of rq_empty ds] by (auto simp: lu_attach_all_eq)
  moreover have "min 32 (length ds) = length (rq_view q)" using q(3) by simp
  ultimately show ?thesis using lu_take_all_view [OF q(2), of "min 32 (length ds)" n] by auto
qed

text \<open>
  Closing leaks no report, and neither does the mac report queue: after any run of
  \<^verbatim>\<open>hid_report_callback\<close> on an empty queue the loop of \<^verbatim>\<open>hid_close\<close> comes to an end without
  undefined behaviour and leaves no report allocated; the loop of \<^verbatim>\<open>free_hid_device\<close> on the
  same queue frees the same reports.
\<close>

theorem mc_close_frees_all:
  "\<exists>q q'. mc_attach_all ds rq_empty = Some (Inr q) \<and> rq_view q = drop (length ds - 32) ds \<and>
     mc_drain q = Some (Inr q') \<and> rq_heap q' = Map.empty \<and>
     mc_free_reports (rq_heap q) (rq_root q) = Some (Inr Map.empty)"
proof -
  obtain q where q: "mc_attach_all ds rq_empty = Some (Inr q)" "rq_inv q"
    "rq_view q = drop (length ds - 32) ds"
    using mc_queue.attach_all_view [of rq_empty ds] by (auto simp: mc_attach_all_eq)
  obtain q' where q': "mc_drain q = Some (Inr q')" "rq_inv q'" "rq_view q' = []"
    using mc_queue.drain_empties [OF q(2)] by metis
  obtain as where as: "chain (rq_heap q) (rq_root q) as" "distinct as" "set as = dom (rq_heap q)"
    using rq_invE [OF q(2)] by metis
  have "rq_heap q |` (- set as) = Map.empty" using as(3) by (auto simp: restrict_map_def)
  moreover have "rq_heap q' = Map.empty"
    using q'(2,3) by (metis dom_empty rq_invE map_is_Nil_conv dom_eq_empty_conv set_empty)
  ultimately show ?thesis using q q' mc_free_reports_all [OF as(1,2)] by auto
qed

end
