(* ===== verification/Libusb_Hid.thy ===== *)
theory Libusb_Hid
  imports Hidapi Report_Queue Libusb_Lang
begin

text \<open>
  The libusb backend (\<^verbatim>\<open>src/src/hid/libusb/hid.c\<close>) without its threads: strings, paths,
  enumeration, the search for the interface to open, output and feature reports, and the end
  of a device. libusb, \<^verbatim>\<open>iconv\<close> and the locale are the record \<open>libusb_os\<close> over a world
  \<open>'w\<close>. Allocation succeeds. The code for Android, for old FreeBSD and for
  \<^verbatim>\<open>INVASIVE_GET_USAGE\<close> is not compiled in this configuration; \<^verbatim>\<open>DETACH_KERNEL_DRIVER\<close> is.
\<close>

section \<open>libusb\<close>

record usb_device_descriptor =
  idVendor :: u16
  idProduct :: u16
  bcdDevice :: u16
  iManufacturer :: u8
  iProduct :: u8
  iSerialNumber :: u8

record usb_endpoint =
  bEndpointAddress :: u8
  bmAttributes :: u8
  wMaxPacketSize :: u16

record usb_interface_descriptor =
  bInterfaceNumber :: u8
  bInterfaceClass :: u8
  endpoints :: "usb_endpoint list"

text \<open>A configuration is its interfaces, an interface its alternate settings.\<close>

type_synonym usb_config = "usb_interface_descriptor list list"

text \<open>
  A negative result of libusb is an error. A string descriptor or a report comes with its
  length: \<open>None\<close> is a negative result.
\<close>

record 'w libusb_os =
  us_init :: "'w \<Rightarrow> int \<times> 'w"
  us_exit :: "'w \<Rightarrow> 'w"
  us_locale :: "'w \<Rightarrow> string option"
  us_setlocale :: "'w \<Rightarrow> 'w"
  us_device_list :: "'w \<Rightarrow> nat list option"
  us_descriptor :: "'w \<Rightarrow> nat \<Rightarrow> usb_device_descriptor"
  us_active_config :: "'w \<Rightarrow> nat \<Rightarrow> usb_config option"
  us_first_config :: "'w \<Rightarrow> nat \<Rightarrow> usb_config option"
  us_bus :: "'w \<Rightarrow> nat \<Rightarrow> u8"
  us_address :: "'w \<Rightarrow> nat \<Rightarrow> u8"
  us_open :: "nat \<Rightarrow> 'w \<Rightarrow> nat option \<times> 'w"
  us_close :: "nat \<Rightarrow> 'w \<Rightarrow> 'w"
  us_driver_active :: "nat \<Rightarrow> u8 \<Rightarrow> 'w \<Rightarrow> int \<times> 'w"
  us_detach :: "nat \<Rightarrow> u8 \<Rightarrow> 'w \<Rightarrow> int \<times> 'w"
  us_claim :: "nat \<Rightarrow> u8 \<Rightarrow> 'w \<Rightarrow> int \<times> 'w"
  us_release :: "nat \<Rightarrow> u8 \<Rightarrow> 'w \<Rightarrow> 'w"
  us_string :: "nat \<Rightarrow> u8 \<Rightarrow> u16 \<Rightarrow> nat \<Rightarrow> 'w \<Rightarrow> u8 list option \<times> 'w"
  us_control_out :: "nat \<Rightarrow> u16 \<Rightarrow> u16 \<Rightarrow> u8 list \<Rightarrow> 'w \<Rightarrow> int \<times> 'w"
  us_control_in :: "nat \<Rightarrow> u16 \<Rightarrow> u16 \<Rightarrow> nat \<Rightarrow> 'w \<Rightarrow> u8 list option \<times> 'w"
  us_interrupt_out :: "nat \<Rightarrow> u8 \<Rightarrow> u8 list \<Rightarrow> 'w \<Rightarrow> nat option \<times> 'w"
  us_start_reading :: "nat \<Rightarrow> u8 \<Rightarrow> u16 \<Rightarrow> 'w \<Rightarrow> int \<times> 'w"
  us_stop_reading :: "nat \<Rightarrow> 'w \<Rightarrow> 'w"
  us_iconv :: "u8 list \<Rightarrow> wstr option"

section \<open>State\<close>

text \<open>
  \<^verbatim>\<open>struct hid_device_\<close>; \<open>lu_readers\<close> counts the threads started for the device, and \<open>lu_submit\<close> is the
  result of the first \<^verbatim>\<open>libusb_submit_transfer\<close> of the one started last, which \<^verbatim>\<open>read_thread\<close> ignores.
  The queue of reports is a component of its own.
\<close>

record lu_device =
  lu_handle :: nat
  input_endpoint :: u8
  output_endpoint :: u8
  input_ep_max_packet_size :: u16
  lu_interface :: u8
  manufacturer_index :: u8
  product_index :: u8
  serial_index :: u8
  lu_blocking :: bool
  lu_readers :: nat
  lu_submit :: int
  lu_reports :: report_list

record 'w libusb_state =
  lu_world :: 'w
  usb_context :: bool

definition lu_new_hid_device :: lu_device where
  "lu_new_hid_device = \<lparr>lu_handle = 0, input_endpoint = 0, output_endpoint = 0,
     input_ep_max_packet_size = 0, lu_interface = 0, manufacturer_index = 0, product_index = 0,
     serial_index = 0, lu_blocking = True, lu_readers = 0, lu_submit = 0, lu_reports = rq_empty\<rparr>"

section \<open>Strings\<close>

text \<open>The string descriptor as 16-bit units, in the byte order of the host and of USB.\<close>

fun le16_units :: "u8 list \<Rightarrow> u16 list" where
  "le16_units (a # b # bs) = (push_bit 8 (ucast b) OR ucast a) # le16_units bs"
| "le16_units _ = []"

text \<open>The buffer of 32 units is not initialised before the call stores \<open>bs\<close> in it.\<close>

definition get_first_language :: "'w libusb_os \<Rightarrow> nat \<Rightarrow> 'w \<Rightarrow> u16 \<times> 'w" where
  "get_first_language os h w =
     (case us_string os h 0 0 64 w of
        (None, w1) \<Rightarrow> (0, w1)
      | (Some bs, w1) \<Rightarrow> (if length bs < 4 then 0 else le16_units bs ! 1, w1))"

definition is_language_supported :: "'w libusb_os \<Rightarrow> nat \<Rightarrow> u16 \<Rightarrow> 'w \<Rightarrow> bool \<times> 'w" where
  "is_language_supported os h lang w =
     (case us_string os h 0 0 64 w of
        (None, w1) \<Rightarrow> (False, w1)
      | (Some bs, w1) \<Rightarrow>
          (if length bs < 4 then False
           else list_ex (\<lambda>i. le16_units bs ! i = lang) [1..<length bs div 2], w1))"

text \<open>
  \<^verbatim>\<open>get_usb_string\<close>: \<^verbatim>\<open>inbytes = len - 2\<close> is a \<^verbatim>\<open>size_t\<close>, which wraps for a descriptor of less
  than two bytes and makes \<^verbatim>\<open>iconv\<close> read past the buffer. The wide string ends at its first
  null character, and after 255 characters.
\<close>

definition get_usb_string :: "'w libusb_os \<Rightarrow> nat \<Rightarrow> u8 \<Rightarrow> 'w \<Rightarrow> wstr option res \<times> 'w" where
  "get_usb_string os h idx w =
     (let lang = get_usb_code (us_locale os w);
          (ok, w1) = is_language_supported os h lang w;
          (lang, w2) = (if ok then (lang, w1) else get_first_language os h w1);
          (r, w3) = us_string os h idx lang 512 w2
      in (case r of
            None \<Rightarrow> Inr None
          | Some bs \<Rightarrow>
              if length bs < 2 then Inl (UB Out_Of_Bounds)
              else Inr (map_option (\<lambda>ws. takeWhile (\<lambda>c. c \<noteq> 0) (take 255 ws)) (us_iconv os (drop 2 bs))),
          w3))"

section \<open>Paths\<close>

fun lower_hex :: "nat \<Rightarrow> string" where
  "lower_hex n =
     (if n < 16 then [''0123456789abcdef'' ! n]
      else lower_hex (n div 16) @ [''0123456789abcdef'' ! (n mod 16)])"

declare lower_hex.simps [simp del]

text \<open>\<^verbatim>\<open>%0<k>x\<close>.\<close>

definition fmt_hex :: "nat \<Rightarrow> nat \<Rightarrow> string" where
  "fmt_hex k n = (let ds = lower_hex n in replicate (k - length ds) (CHR ''0'') @ ds)"

text \<open>The text has 12 characters and fits the buffer of 64.\<close>

definition make_path :: "'w libusb_os \<Rightarrow> 'w \<Rightarrow> nat \<Rightarrow> u8 \<Rightarrow> string" where
  "make_path os w dev interface_number =
     take 63 (fmt_hex 4 (unat (us_bus os w dev)) @ '':'' @ fmt_hex 4 (unat (us_address os w dev)) @
       '':'' @ fmt_hex 2 (unat interface_number))"

section \<open>Library state\<close>

definition lu_hid_init :: "'w libusb_os \<Rightarrow> 'w libusb_state \<Rightarrow> int \<times> 'w libusb_state" where
  "lu_hid_init os s =
     (if usb_context s then (0, s)
      else
        (let (r, w) = us_init os (lu_world s) in
         if r \<noteq> 0 then (- 1, s\<lparr>lu_world := w\<rparr>)
         else (0, s\<lparr>lu_world := (if us_locale os w = None then us_setlocale os w else w),
                    usb_context := True\<rparr>)))"

definition lu_hid_exit :: "'w libusb_os \<Rightarrow> 'w libusb_state \<Rightarrow> int \<times> 'w libusb_state" where
  "lu_hid_exit os s =
     (if usb_context s then (0, s\<lparr>lu_world := us_exit os (lu_world s), usb_context := False\<rparr>)
      else (0, s))"

section \<open>Enumeration\<close>

definition LIBUSB_CLASS_HID :: u8 where "LIBUSB_CLASS_HID = 3"

text \<open>A string of the descriptor, when its index is not 0.\<close>

definition lu_opt_string :: "'w libusb_os \<Rightarrow> nat \<Rightarrow> u8 \<Rightarrow> 'w \<Rightarrow> wstr option res \<times> 'w" where
  "lu_opt_string os h idx w = (if idx > 0 then get_usb_string os h idx w else (Inr None, w))"

text \<open>The record of one HID interface; its strings only if the device opens.\<close>

definition lu_record ::
    "'w libusb_os \<Rightarrow> nat \<Rightarrow> usb_device_descriptor \<Rightarrow> u8 \<Rightarrow> 'w \<Rightarrow> dev_info res \<times> 'w" where
  "lu_record os dev desc interface_num w =
     (let d = calloc_dev_info\<lparr>di_path := Some (make_path os w dev interface_num),
                di_vendor_id := idVendor desc, di_product_id := idProduct desc,
                di_release_number := bcdDevice desc,
                di_interface_number := int (unat interface_num)\<rparr>
      in case us_open os dev w of
           (None, w1) \<Rightarrow> (Inr d, w1)
         | (Some h, w1) \<Rightarrow>
             (case lu_opt_string os h (iSerialNumber desc) w1 of
                (Inl e, w2) \<Rightarrow> (Inl e, w2)
              | (Inr serial, w2) \<Rightarrow>
                  (case lu_opt_string os h (iManufacturer desc) w2 of
                     (Inl e, w3) \<Rightarrow> (Inl e, w3)
                   | (Inr manufacturer, w3) \<Rightarrow>
                       (case lu_opt_string os h (iProduct desc) w3 of
                          (Inl e, w4) \<Rightarrow> (Inl e, w4)
                        | (Inr product, w4) \<Rightarrow>
                            (Inr (d\<lparr>di_serial_number := serial, di_manufacturer_string := manufacturer,
                                    di_product_string := product\<rparr>), us_close os h w4)))))"

fun lu_enum_settings ::
    "'w libusb_os \<Rightarrow> u16 \<Rightarrow> u16 \<Rightarrow> nat \<Rightarrow> usb_device_descriptor \<Rightarrow> usb_interface_descriptor list \<Rightarrow>
     dev_info list \<Rightarrow> 'w \<Rightarrow> dev_info list res \<times> 'w" where
  "lu_enum_settings os vid pid dev desc [] root w = (Inr root, w)"
| "lu_enum_settings os vid pid dev desc (intf_desc # rest) root w =
     (if bInterfaceClass intf_desc = LIBUSB_CLASS_HID \<and> id_matches vid pid (idVendor desc) (idProduct desc)
      then (case lu_record os dev desc (bInterfaceNumber intf_desc) w of
              (Inl e, w1) \<Rightarrow> (Inl e, w1)
            | (Inr d, w1) \<Rightarrow> lu_enum_settings os vid pid dev desc rest (root @ [d]) w1)
      else lu_enum_settings os vid pid dev desc rest root w)"

text \<open>The loops over the interfaces and over the devices.\<close>

fun lu_enum_devs ::
    "'w libusb_os \<Rightarrow> u16 \<Rightarrow> u16 \<Rightarrow> nat list \<Rightarrow> dev_info list \<Rightarrow> 'w \<Rightarrow> dev_info list res \<times> 'w" where
  "lu_enum_devs os vid pid [] root w = (Inr root, w)"
| "lu_enum_devs os vid pid (dev # devs) root w =
     (let conf_desc = (case us_active_config os w dev of
                         None \<Rightarrow> us_first_config os w dev | Some c \<Rightarrow> Some c);
          settings = (case conf_desc of None \<Rightarrow> [] | Some c \<Rightarrow> concat c)
      in case lu_enum_settings os vid pid dev (us_descriptor os w dev) settings root w of
           (Inl e, w1) \<Rightarrow> (Inl e, w1)
         | (Inr root', w1) \<Rightarrow> lu_enum_devs os vid pid devs root' w1)"

definition lu_enumerate ::
    "'w libusb_os \<Rightarrow> u16 \<Rightarrow> u16 \<Rightarrow> 'w libusb_state \<Rightarrow> dev_info list res \<times> 'w libusb_state" where
  "lu_enumerate os vendor_id product_id s =
     (let (r, s) = lu_hid_init os s in
      if r < 0 then (Inr [], s)
      else case us_device_list os (lu_world s) of
             None \<Rightarrow> (Inr [], s)
           | Some devs \<Rightarrow>
               (case lu_enum_devs os vendor_id product_id devs [] (lu_world s) of
                  (res, w) \<Rightarrow> (res, s\<lparr>lu_world := w\<rparr>)))"

section \<open>Opening\<close>

text \<open>The choice of the endpoints: the first interrupt endpoint of each direction.\<close>

definition pick_endpoint :: "usb_endpoint \<Rightarrow> lu_device \<Rightarrow> lu_device" where
  "pick_endpoint ep dev =
     (let is_interrupt = (bmAttributes ep AND 0x03 = 0x03);
          is_output = (bEndpointAddress ep AND 0x80 = 0x00);
          is_input = (bEndpointAddress ep AND 0x80 = 0x80);
          dev = (if input_endpoint dev = 0 \<and> is_interrupt \<and> is_input
                 then dev\<lparr>input_endpoint := bEndpointAddress ep,
                          input_ep_max_packet_size := wMaxPacketSize ep\<rparr>
                 else dev)
      in if output_endpoint dev = 0 \<and> is_interrupt \<and> is_output
         then dev\<lparr>output_endpoint := bEndpointAddress ep\<rparr> else dev)"

text \<open>
  The loop over the alternate settings of an interface: the device so far and \<^verbatim>\<open>good_open\<close>.
  A failure leaves the loop (\<^verbatim>\<open>break\<close>); a success goes on with the next setting.
\<close>

fun lu_open_settings ::
    "'w libusb_os \<Rightarrow> string \<Rightarrow> nat \<Rightarrow> usb_interface_descriptor list \<Rightarrow> lu_device \<times> bool \<Rightarrow> 'w \<Rightarrow>
     (lu_device \<times> bool) \<times> 'w" where
  "lu_open_settings os path usb_dev [] r w = (r, w)"
| "lu_open_settings os path usb_dev (intf_desc # rest) (dev, good_open) w =
     (let n = bInterfaceNumber intf_desc in
      if bInterfaceClass intf_desc = LIBUSB_CLASS_HID \<and> make_path os w usb_dev n = path then
        (case us_open os usb_dev w of
           (None, w1) \<Rightarrow> ((dev, good_open), w1)
         | (Some h, w1) \<Rightarrow>
             (let dev = dev\<lparr>lu_handle := h\<rparr>;
                  (active, w2) = us_driver_active os h n w1;
                  (det, w3) = (if active = 1 then us_detach os h n w2 else (0, w2))
              in if det < 0 then ((dev, False), us_close os h w3)
                 else
                   (let (res, w4) = us_claim os h n w3 in
                    if res < 0 then ((dev, False), us_close os h w4)
                    else
                      (let desc = us_descriptor os w4 usb_dev;
                           dev = dev\<lparr>manufacturer_index := iManufacturer desc,
                                     product_index := iProduct desc,
                                     serial_index := iSerialNumber desc, lu_interface := n\<rparr>;
                           dev = fold pick_endpoint (endpoints intf_desc) dev;
                           (submit, w5) = us_start_reading os h (input_endpoint dev) (input_ep_max_packet_size dev) w4;
                           dev = dev\<lparr>lu_readers := lu_readers dev + 1, lu_submit := submit\<rparr>
                       in lu_open_settings os path usb_dev rest (dev, True) w5))))
      else lu_open_settings os path usb_dev rest (dev, good_open) w)"

fun lu_open_interfaces ::
    "'w libusb_os \<Rightarrow> string \<Rightarrow> nat \<Rightarrow> usb_config \<Rightarrow> lu_device \<times> bool \<Rightarrow> 'w \<Rightarrow> (lu_device \<times> bool) \<times> 'w" where
  "lu_open_interfaces os path usb_dev [] r w = (r, w)"
| "lu_open_interfaces os path usb_dev (intf # rest) r w =
     (case lu_open_settings os path usb_dev intf r w of
        (r', w') \<Rightarrow> lu_open_interfaces os path usb_dev rest r' w')"

fun lu_open_devs ::
    "'w libusb_os \<Rightarrow> string \<Rightarrow> nat list \<Rightarrow> lu_device \<times> bool \<Rightarrow> 'w \<Rightarrow> (lu_device \<times> bool) \<times> 'w" where
  "lu_open_devs os path [] r w = (r, w)"
| "lu_open_devs os path (d # ds) r w =
     (case us_active_config os w d of
        None \<Rightarrow> lu_open_devs os path ds r w
      | Some conf_desc \<Rightarrow>
          (case lu_open_interfaces os path d conf_desc r w of
             (r', w') \<Rightarrow> lu_open_devs os path ds r' w'))"

text \<open>
  The device or null. The result of \<^verbatim>\<open>libusb_get_device_list\<close> is not tested: if it fails, the
  loop reads the uninitialised list. A null path is passed to \<^verbatim>\<open>strcmp\<close>. When a later alternate
  setting fails to open, the device is freed although the thread of an earlier one runs on it.
\<close>

definition lu_open_path ::
    "'w libusb_os \<Rightarrow> string \<Rightarrow> 'w libusb_state \<Rightarrow> lu_device option res \<times> 'w libusb_state" where
  "lu_open_path os path s =
     (let (r, s) = lu_hid_init os s in
      if r < 0 then (Inr None, s)
      else case us_device_list os (lu_world s) of
             None \<Rightarrow> (Inl (UB Uninitialised), s)
           | Some devs \<Rightarrow>
               (case lu_open_devs os path devs (lu_new_hid_device, False) (lu_world s) of
                  ((dev, good_open), w) \<Rightarrow>
                    (if good_open then Inr (Some dev)
                     else if lu_readers dev > 0 then Inl (UB Use_After_Free) else Inr None,
                     s\<lparr>lu_world := w\<rparr>)))"

definition lu_open ::
    "'w libusb_os \<Rightarrow> u16 \<Rightarrow> u16 \<Rightarrow> wstr option \<Rightarrow> 'w libusb_state \<Rightarrow> lu_device option res \<times> 'w libusb_state" where
  "lu_open os vendor_id product_id serial_number s =
     (case lu_enumerate os vendor_id product_id s of
        (Inl e, s) \<Rightarrow> (Inl e, s)
      | (Inr devs, s) \<Rightarrow>
          (case lu_find_path vendor_id product_id serial_number devs of
             Inl e \<Rightarrow> (Inl e, s)
           | Inr (Some path_to_open) \<Rightarrow> lu_open_path os path_to_open s
           | Inr None \<Rightarrow> (Inr None, s)))"

section \<open>Reports\<close>

text \<open>A report without a number is sent without its first byte, which is counted all the same.\<close>

definition strip_report_id :: "u8 list \<Rightarrow> (u8 \<times> bool \<times> u8 list) res" where
  "strip_report_id data =
     bind_res (c_index data 0) (\<lambda>report_number.
       Inr (if report_number = 0 then (report_number, True, drop 1 data)
            else (report_number, False, data)))"

definition lu_write :: "'w libusb_os \<Rightarrow> lu_device \<Rightarrow> u8 list \<Rightarrow> 'w \<Rightarrow> int res \<times> 'w" where
  "lu_write os dev data w =
     (case strip_report_id data of
        Inl e \<Rightarrow> (Inl e, w)
      | Inr (report_number, skipped, payload) \<Rightarrow>
          if output_endpoint dev = 0 then
            (let (res, w1) = us_control_out os (lu_handle dev) (push_bit 8 2 OR ucast report_number)
                               (ucast (lu_interface dev)) payload w
             in (Inr (if res < 0 then - 1
                      else int (length payload) + (if skipped then 1 else 0)), w1))
          else
            (let (res, w1) = us_interrupt_out os (lu_handle dev) (output_endpoint dev) payload w
             in (Inr (case res of None \<Rightarrow> - 1 | Some n \<Rightarrow> int n + (if skipped then 1 else 0)), w1)))"

definition lu_send_feature_report :: "'w libusb_os \<Rightarrow> lu_device \<Rightarrow> u8 list \<Rightarrow> 'w \<Rightarrow> int res \<times> 'w" where
  "lu_send_feature_report os dev data w =
     (case strip_report_id data of
        Inl e \<Rightarrow> (Inl e, w)
      | Inr (report_number, skipped, payload) \<Rightarrow>
          (let (res, w1) = us_control_out os (lu_handle dev) (push_bit 8 3 OR ucast report_number)
                             (ucast (lu_interface dev)) payload w
           in (Inr (if res < 0 then - 1
                    else int (length payload) + (if skipped then 1 else 0)), w1)))"

text \<open>The count returned and the caller's buffer after the call.\<close>

definition lu_get_feature_report ::
    "'w libusb_os \<Rightarrow> lu_device \<Rightarrow> u8 list \<Rightarrow> 'w \<Rightarrow> (int \<times> u8 list) res \<times> 'w" where
  "lu_get_feature_report os dev data w =
     (case strip_report_id data of
        Inl e \<Rightarrow> (Inl e, w)
      | Inr (report_number, skipped, rest) \<Rightarrow>
          (let (res, w1) = us_control_in os (lu_handle dev) (push_bit 8 3 OR ucast report_number)
                             (ucast (lu_interface dev)) (length rest) w
           in case res of
                None \<Rightarrow> (Inr (- 1, data), w1)
              | Some bs \<Rightarrow>
                  (let got = take (length rest) bs; k = (if skipped then 1 else 0) in
                   (Inr (int (length got + k), overwrite data k got), w1))))"

definition lu_set_nonblocking :: "int \<Rightarrow> lu_device \<Rightarrow> int \<times> lu_device" where
  "lu_set_nonblocking nonblock dev = (0, dev\<lparr>lu_blocking := (nonblock = 0)\<rparr>)"

text \<open>
  \<^verbatim>\<open>hid_get_indexed_string\<close>: 0 or -1 with the caller's string of \<open>maxlen\<close> characters. The last
  character is overwritten by the terminator, one before the string for \<open>maxlen\<close> 0.
\<close>

definition lu_get_indexed_string ::
    "'w libusb_os \<Rightarrow> lu_device \<Rightarrow> u8 \<Rightarrow> nat \<Rightarrow> 'w \<Rightarrow> (int \<times> u32 list) res \<times> 'w" where
  "lu_get_indexed_string os dev idx maxlen w =
     (case get_usb_string os (lu_handle dev) idx w of
        (Inl e, w1) \<Rightarrow> (Inl e, w1)
      | (Inr None, w1) \<Rightarrow> (Inr (- 1, []), w1)
      | (Inr (Some str), w1) \<Rightarrow>
          (if maxlen = 0 then Inl (UB Out_Of_Bounds)
           else Inr (0, (take maxlen (str @ replicate maxlen 0))[maxlen - 1 := 0]), w1))"

definition lu_get_manufacturer_string ::
    "'w libusb_os \<Rightarrow> lu_device \<Rightarrow> nat \<Rightarrow> 'w \<Rightarrow> (int \<times> u32 list) res \<times> 'w" where
  "lu_get_manufacturer_string os dev = lu_get_indexed_string os dev (manufacturer_index dev)"

definition lu_get_product_string ::
    "'w libusb_os \<Rightarrow> lu_device \<Rightarrow> nat \<Rightarrow> 'w \<Rightarrow> (int \<times> u32 list) res \<times> 'w" where
  "lu_get_product_string os dev = lu_get_indexed_string os dev (product_index dev)"

definition lu_get_serial_number_string ::
    "'w libusb_os \<Rightarrow> lu_device \<Rightarrow> nat \<Rightarrow> 'w \<Rightarrow> (int \<times> u32 list) res \<times> 'w" where
  "lu_get_serial_number_string os dev = lu_get_indexed_string os dev (serial_index dev)"

definition lu_error :: "lu_device option \<Rightarrow> wstr option" where
  "lu_error dev = None"

text \<open>
  \<^verbatim>\<open>hid_close\<close> once the read thread has ended: the interface is released, the handle closed
  and the queue emptied.
\<close>

definition lu_close ::
    "'w libusb_os \<Rightarrow> lu_device option \<Rightarrow> 'w \<Rightarrow> (report_list option res \<times> 'w) option" where
  "lu_close os dev w =
     (case dev of
        None \<Rightarrow> Some (Inr None, w)
      | Some d \<Rightarrow>
          (let w1 = us_close os (lu_handle d)
                      (us_release os (lu_handle d) (lu_interface d) (us_stop_reading os (lu_handle d) w))
           in map_option (\<lambda>r. (bind_res r (\<lambda>q. Inr (Some q)), w1)) (lu_drain (lu_reports d))))"

end
