(* ===== verification/Libusb_Correct.thy ===== *)
theory Libusb_Correct
  imports Libusb_Hid
begin

text \<open>
  Properties of the libusb backend that need no threads: its paths identify an interface, and
  what \<^verbatim>\<open>hid_open_path\<close> does with several alternate settings.
\<close>

section \<open>Paths\<close>

definition hex_digit :: "nat \<Rightarrow> char" where
  "hex_digit n = ''0123456789abcdef'' ! n"

lemma hex_digit_inj: "m < 16 \<Longrightarrow> n < 16 \<Longrightarrow> hex_digit m = hex_digit n \<longleftrightarrow> m = n"
  unfolding hex_digit_def by (subst nth_eq_iff_index_eq) simp_all

lemma fmt_hex_byte:
  assumes "n < 256" "2 \<le> k"
  shows "fmt_hex k n = replicate (k - 2) (CHR ''0'') @ [hex_digit (n div 16), hex_digit (n mod 16)]"
proof (cases "n < 16")
  case True
  then have "fmt_hex k n = replicate (k - 1) (CHR ''0'') @ [hex_digit n]"
    using assms by (simp add: fmt_hex_def lower_hex.simps hex_digit_def Let_def)
  moreover have "replicate (k - 1) (CHR ''0'') = replicate (k - 2) (CHR ''0'') @ [hex_digit 0]"
    using assms(2) replicate_append_same [of "k - 2" "CHR ''0''"]
    by (simp add: hex_digit_def flip: replicate_Suc)
  ultimately show ?thesis using True by simp
next
  case False
  then show ?thesis
    using assms lower_hex.simps [of n] lower_hex.simps [of "n div 16"]
    by (simp add: fmt_hex_def hex_digit_def Let_def less_mult_imp_div_less)
qed

lemma fmt_hex_byte_length: "n < 256 \<Longrightarrow> 2 \<le> k \<Longrightarrow> length (fmt_hex k n) = k"
  by (simp add: fmt_hex_byte)

lemma fmt_hex_byte_inj:
  assumes "m < 256" "n < 256" "2 \<le> k"
  shows "fmt_hex k m = fmt_hex k n \<longleftrightarrow> m = n"
proof
  assume "fmt_hex k m = fmt_hex k n"
  then have "m div 16 = n div 16" "m mod 16 = n mod 16"
    using assms hex_digit_inj [of "m div 16" "n div 16"] hex_digit_inj [of "m mod 16" "n mod 16"]
    by (auto simp: fmt_hex_byte less_mult_imp_div_less)
  then show "m = n" by (metis div_mod_decomp)
qed simp

lemma make_path_text:
  "make_path os w dev n = fmt_hex 4 (unat (us_bus os w dev)) @ '':'' @
     fmt_hex 4 (unat (us_address os w dev)) @ '':'' @ fmt_hex 2 (unat n)"
  by (simp add: make_path_def fmt_hex_byte_length unat_u8_less)

section \<open>Alternate settings\<close>

text \<open>A bus on which opening a device and claiming an interface always succeed.\<close>

definition always_opens :: "'w libusb_os \<Rightarrow> bool" where
  "always_opens os \<longleftrightarrow>
     (\<forall>dev w. fst (us_open os dev w) \<noteq> None) \<and>
     (\<forall>h n w. fst (us_detach os h n w) \<ge> 0) \<and> (\<forall>h n w. fst (us_claim os h n w) \<ge> 0)"

definition matches_path :: "'w libusb_os \<Rightarrow> string \<Rightarrow> nat \<Rightarrow> 'w \<Rightarrow> usb_interface_descriptor \<Rightarrow> bool" where
  "matches_path os path usb_dev w i \<longleftrightarrow>
     bInterfaceClass i = LIBUSB_CLASS_HID \<and> make_path os w usb_dev (bInterfaceNumber i) = path"

lemma pick_endpoint_readers [simp]: "lu_readers (fold pick_endpoint eps dev) = lu_readers dev"
proof -
  have "lu_readers (pick_endpoint ep d) = lu_readers d" for ep d
    by (simp add: pick_endpoint_def Let_def)
  then show ?thesis by (induction eps arbitrary: dev) simp_all
qed

lemma lu_open_settings_readers:
  assumes "always_opens os" "\<And>w w' i. matches_path os path usb_dev w i = matches_path os path usb_dev w' i"
  shows "lu_readers (fst (fst (lu_open_settings os path usb_dev settings (dev, good) w))) =
    lu_readers dev + length (filter (matches_path os path usb_dev w0) settings)"
proof (induction settings arbitrary: dev good w)
  case (Cons i rest)
  show ?case
  proof (cases "matches_path os path usb_dev w i")
    case False
    then have "\<not> matches_path os path usb_dev w0 i" using assms(2) by blast
    moreover have "\<not> (bInterfaceClass i = LIBUSB_CLASS_HID \<and>
        make_path os w usb_dev (bInterfaceNumber i) = path)"
      using False by (simp add: matches_path_def)
    ultimately show ?thesis using Cons.IH by (auto simp: Let_def)
  next
    case True
    then have m: "matches_path os path usb_dev w0 i" using assms(2) by blast
    obtain h w1 where o: "us_open os usb_dev w = (Some h, w1)"
      using assms(1) unfolding always_opens_def by (metis option.exhaust prod.collapse)
    obtain a w2 where a: "us_driver_active os h (bInterfaceNumber i) w1 = (a, w2)" by fastforce
    obtain r w3 where d: "(if a = 1 then us_detach os h (bInterfaceNumber i) w2 else (0, w2)) = (r, w3)"
      by fastforce
    have r: "\<not> r < 0" using assms(1) d unfolding always_opens_def
      by (metis fst_conv linorder_not_less order.refl)
    obtain c w4 where c: "us_claim os h (bInterfaceNumber i) w3 = (c, w4)" by fastforce
    have c0: "\<not> c < 0" using assms(1) c unfolding always_opens_def by (metis fst_conv linorder_not_less)
    show ?thesis
      using True m o a d r c c0 Cons.IH by (simp add: matches_path_def Let_def split: prod.split)
  qed
qed simp

section \<open>Properties\<close>

text \<open>
  The path of a HID interface identifies its bus, its device and its interface number, and
  fits the buffer it is printed to.
\<close>

theorem make_path_identifies:
  "(make_path os w dev n = make_path os w dev' n' \<longleftrightarrow>
      us_bus os w dev = us_bus os w dev' \<and> us_address os w dev = us_address os w dev' \<and> n = n') \<and>
   length (make_path os w dev n) = 12"
proof -
  have l: "length (fmt_hex 4 (unat (b :: u8))) = 4" "length (fmt_hex 2 (unat b)) = 2" for b
    by (simp_all add: fmt_hex_byte_length unat_u8_less)
  have i: "fmt_hex 4 (unat (a :: u8)) = fmt_hex 4 (unat b) \<longleftrightarrow> a = b"
    "fmt_hex 2 (unat a) = fmt_hex 2 (unat b) \<longleftrightarrow> a = b" for a b
    by (simp_all add: fmt_hex_byte_inj unat_u8_less word_unat_eq_iff)
  show ?thesis by (auto simp: make_path_text l i)
qed

text \<open>
  \<^verbatim>\<open>hid_open_path\<close> opens the device, claims the interface and starts a read thread once for
  every alternate setting of the interface of class HID: with two of them the first handle and
  the first thread are overwritten, never closed and never joined.
\<close>

theorem lu_opens_every_setting:
  assumes "always_opens os"
    and "\<And>w w' i. matches_path os path usb_dev w i = matches_path os path usb_dev w' i"
  shows "lu_readers (fst (fst (lu_open_settings os path usb_dev settings (lu_new_hid_device, False) w))) =
    length (filter (matches_path os path usb_dev w) settings)"
  using lu_open_settings_readers [OF assms, of settings lu_new_hid_device False w w]
  by (simp add: lu_new_hid_device_def)

text \<open>A bus with one device, for the example: nothing fails, and nothing is remembered.\<close>

definition demo_usb :: "unit libusb_os" where
  "demo_usb =
     \<lparr>us_init = (\<lambda>w. (0, w)), us_exit = (\<lambda>w. w), us_locale = (\<lambda>w. None), us_setlocale = (\<lambda>w. w),
      us_device_list = (\<lambda>w. Some [0]),
      us_descriptor = (\<lambda>w d. \<lparr>idVendor = 0x2c97, idProduct = 1, bcdDevice = 0, iManufacturer = 1,
        iProduct = 2, iSerialNumber = 3\<rparr>),
      us_active_config = (\<lambda>w d. None), us_first_config = (\<lambda>w d. None),
      us_bus = (\<lambda>w d. 1), us_address = (\<lambda>w d. 2), us_open = (\<lambda>d w. (Some 0, w)),
      us_close = (\<lambda>h w. w), us_driver_active = (\<lambda>h n w. (0, w)), us_detach = (\<lambda>h n w. (0, w)),
      us_claim = (\<lambda>h n w. (0, w)), us_release = (\<lambda>h n w. w), us_string = (\<lambda>h i l n w. (None, w)),
      us_control_out = (\<lambda>h a b bs w. (0, w)), us_control_in = (\<lambda>h a b n w. (None, w)),
      us_interrupt_out = (\<lambda>h e bs w. (None, w)), us_start_reading = (\<lambda>h e n w. (0, w)),
      us_stop_reading = (\<lambda>h w. w), us_iconv = (\<lambda>bs. None)\<rparr>"

theorem lu_opens_every_setting_witness:
  "lu_readers (fst (fst (lu_open_settings demo_usb (make_path demo_usb () 0 5) 0
     [\<lparr>bInterfaceNumber = 5, bInterfaceClass = 3, endpoints = []\<rparr>,
      \<lparr>bInterfaceNumber = 5, bInterfaceClass = 3, endpoints = []\<rparr>] (lu_new_hid_device, False) ()))) = 2"
  by (subst lu_opens_every_setting)
    (simp_all add: always_opens_def matches_path_def demo_usb_def LIBUSB_CLASS_HID_def make_path_def)

end
