(* ===== verification/Reader_Order.thy ===== *)
theory Reader_Order
  imports Report_Queue "HOL-Library.Sublist"
begin

text \<open>
  A device with a thread that queues its reports and a caller that reads them, as the libusb and
  the mac backend have it. The steps of both carry a label for what passes the queue; from what a
  step of each label does to the queue follows, once for both, which reports the caller gets and
  in which order.
\<close>

section \<open>The caller of a blocking read\<close>

text \<open>
  Where the reader is: outside, asleep in \<^verbatim>\<open>pthread_cond_wait\<close>, awake and about to take the
  mutex again, or back with its result.
\<close>

datatype reader_pc = R_Out | R_Wait | R_Woken | R_Back "(int \<times> u8 list) res"

text \<open>A signal or a broadcast wakes the reader if it sleeps.\<close>

definition wake_reader :: "bool \<Rightarrow> reader_pc \<Rightarrow> reader_pc" where
  "wake_reader signal r = (if signal \<and> r = R_Wait then R_Woken else r)"

text \<open>
  A report was attached, the reader looked at the queue for a report of up to that many bytes, or
  something else happened.
\<close>

datatype reader_event = Report "u8 list" | Check nat | Quiet

section \<open>Histories\<close>

fun delivered :: "reader_event \<Rightarrow> u8 list list" where
  "delivered (Report d) = [d]"
| "delivered e = []"

text \<open>What the caller got from a look at the queue: nothing, as long as it sleeps or has an error.\<close>

fun handed_out :: "reader_event \<Rightarrow> reader_pc \<Rightarrow> u8 list list" where
  "handed_out (Check n) (R_Back (Inr (k, bs))) = (if 0 \<le> k then [bs] else [])"
| "handed_out e pc = []"

fun dropped :: "reader_event \<Rightarrow> u8 list list \<Rightarrow> nat" where
  "dropped (Report d) queue = (if length queue < 32 then 0 else 1)"
| "dropped e queue = 0"

text \<open>
  A run from \<open>s0\<close> with reads of \<open>n\<close> bytes: the reports that arrived, the results the caller got
  and the number of reports that found the queue full.
\<close>

inductive reader_history ::
    "(reader_event \<Rightarrow> 's \<Rightarrow> 's \<Rightarrow> bool) \<Rightarrow> ('s \<Rightarrow> reader_pc) \<Rightarrow> ('s \<Rightarrow> u8 list list) \<Rightarrow> nat \<Rightarrow> 's \<Rightarrow> 's \<Rightarrow>
     u8 list list \<Rightarrow> u8 list list \<Rightarrow> nat \<Rightarrow> bool"
  for step pc queue n s0 where
  start: "reader_history step pc queue n s0 s0 [] [] 0"
| step: "reader_history step pc queue n s0 s arrived got lost \<Longrightarrow> step e s s' \<Longrightarrow> (\<forall>m. e = Check m \<longrightarrow> m = n) \<Longrightarrow>
    reader_history step pc queue n s0 s' (arrived @ delivered e) (got @ handed_out e (pc s'))
      (lost + dropped e (queue s))"

section \<open>Contract\<close>

locale ordered_reader =
  fixes step :: "reader_event \<Rightarrow> 's \<Rightarrow> 's \<Rightarrow> bool"
    and pc :: "'s \<Rightarrow> reader_pc"
    and queue :: "'s \<Rightarrow> u8 list list"
    and ok :: "'s \<Rightarrow> bool"
  assumes step_ok: "step e s s' \<Longrightarrow> ok s \<Longrightarrow> ok s'"
    and bounded: "ok s \<Longrightarrow> length (queue s) \<le> 32"
    and quiet: "step Quiet s s' \<Longrightarrow> ok s \<Longrightarrow> queue s' = queue s"
    and report: "step (Report d) s s' \<Longrightarrow> ok s \<Longrightarrow> queue s' = bounded_snoc (queue s) d"
    and check: "step (Check n) s s' \<Longrightarrow> ok s \<Longrightarrow>
      queue s' = queue s \<and> handed_out (Check n) (pc s') = [] \<or>
      (\<exists>x. queue s = x # queue s' \<and> handed_out (Check n) (pc s') = [take n x])"
begin

lemma history_ok: "reader_history step pc queue n s0 s arrived got lost \<Longrightarrow> ok s0 \<Longrightarrow> ok s"
  by (induction rule: reader_history.induct) (auto intro: step_ok)

lemma history_step:
  assumes "ok s" "step e s s'" "\<forall>m. e = Check m \<longrightarrow> m = n"
    and "subseq (ks @ queue s) arrived" "got = map (take n) ks" "length arrived = length (ks @ queue s) + lost"
  shows "\<exists>ks'. subseq (ks' @ queue s') (arrived @ delivered e) \<and> got @ handed_out e (pc s') = map (take n) ks' \<and>
    length (arrived @ delivered e) = length (ks' @ queue s') + (lost + dropped e (queue s))"
proof (cases e)
  case (Report d)
  have q: "queue s' = bounded_snoc (queue s) d" using report assms(1,2) Report by blast
  show ?thesis
  proof (cases "length (queue s) < 32")
    case True
    then show ?thesis using assms q Report
      by (intro exI [of _ ks]) (simp add: bounded_snoc_def list_emb_append_mono flip: append_assoc)
  next
    case False
    then obtain v vs where v: "queue s = v # vs" by (cases "queue s") auto
    have "subseq (ks @ vs) arrived" using assms(4) unfolding v by (meson subseq_order.trans subseq_append' list_emb_Cons subseq_order.refl)
    then show ?thesis using assms q Report False v
      by (intro exI [of _ ks]) (simp add: bounded_snoc_def list_emb_append_mono flip: append_assoc)
  qed
next
  case (Check m)
  then have "queue s' = queue s \<and> handed_out e (pc s') = [] \<or>
      (\<exists>x. queue s = x # queue s' \<and> handed_out e (pc s') = [take n x])"
    using check assms(1-3) by simp
  then consider "queue s' = queue s" "handed_out e (pc s') = []"
    | x where "queue s = x # queue s'" "handed_out e (pc s') = [take n x]" by blast
  then show ?thesis
  proof cases
    case 1
    then show ?thesis using assms(4-6) Check by (intro exI [of _ ks]) simp
  next
    case 2
    then show ?thesis using assms(4-6) Check by (intro exI [of _ "ks @ [x]"]) simp
  qed
next
  case Quiet
  then show ?thesis using quiet assms by (intro exI [of _ ks]) simp
qed

text \<open>
  The caller gets a selection of the reports in the order they arrived, each cut to the size asked
  for; what is queued comes next, and only the reports counted as lost are missing.
\<close>

lemma reports_in_order:
  assumes "reader_history step pc queue n s0 s arrived got lost" "ok s0" "queue s0 = []"
  shows "\<exists>ks. subseq (ks @ queue s) arrived \<and> got = map (take n) ks \<and>
    length arrived = length got + length (queue s) + lost"
proof -
  have "\<exists>ks. subseq (ks @ queue s) arrived \<and> got = map (take n) ks \<and>
      length arrived = length (ks @ queue s) + lost"
    using assms(1)
  proof (induction rule: reader_history.induct)
    case start
    then show ?case using assms(3) by simp
  next
    case (step s arrived got lost e s')
    then show ?case using history_step [OF history_ok [OF step.hyps(1) assms(2)] step.hyps(2,3)] by metis
  qed
  then show ?thesis by auto
qed

text \<open>
  Sharper: reports leave the queue in the order in which they arrived, each either handed to the
  caller (\<open>True\<close>) or dropped (\<open>False\<close>). So it is the oldest of the waiting reports that is dropped
  when one arrives at a full queue, and the arrived reports are those that left and those that
  wait, in this order.
\<close>

lemma fifo_step:
  assumes "ok s" "step e s s'" "\<forall>m. e = Check m \<longrightarrow> m = n"
    and "arrived = map snd xs @ queue s" "got = map (take n \<circ> snd) (filter fst xs)"
    and "lost = length (filter (Not \<circ> fst) xs)"
  shows "\<exists>ys. arrived @ delivered e = map snd ys @ queue s' \<and>
    got @ handed_out e (pc s') = map (take n \<circ> snd) (filter fst ys) \<and>
    lost + dropped e (queue s) = length (filter (Not \<circ> fst) ys)"
proof (cases e)
  case (Report d)
  have q: "queue s' = bounded_snoc (queue s) d" using report assms(1,2) Report by blast
  show ?thesis
  proof (cases "length (queue s) < 32")
    case True
    then show ?thesis using assms q Report by (intro exI [of _ xs]) (simp add: bounded_snoc_def)
  next
    case False
    then obtain v vs where "queue s = v # vs" by (cases "queue s") auto
    then show ?thesis using assms q Report False
      by (intro exI [of _ "xs @ [(False, v)]"]) (simp add: bounded_snoc_def)
  qed
next
  case (Check m)
  then have "queue s' = queue s \<and> handed_out e (pc s') = [] \<or>
      (\<exists>x. queue s = x # queue s' \<and> handed_out e (pc s') = [take n x])"
    using check assms(1-3) by simp
  then consider "queue s' = queue s" "handed_out e (pc s') = []"
    | x where "queue s = x # queue s'" "handed_out e (pc s') = [take n x]" by blast
  then show ?thesis
  proof cases
    case 1
    then show ?thesis using assms(4-6) Check by (intro exI [of _ xs]) simp
  next
    case 2
    then show ?thesis using assms(4-6) Check by (intro exI [of _ "xs @ [(True, x)]"]) simp
  qed
next
  case Quiet
  then show ?thesis using quiet assms by (intro exI [of _ xs]) simp
qed

lemma reports_fifo:
  assumes "reader_history step pc queue n s0 s arrived got lost" "ok s0" "queue s0 = []"
  shows "\<exists>xs. arrived = map snd xs @ queue s \<and> got = map (take n \<circ> snd) (filter fst xs) \<and>
    lost = length (filter (Not \<circ> fst) xs)"
  using assms(1)
proof (induction rule: reader_history.induct)
  case start
  then show ?case using assms(3) by (intro exI [of _ "[]"]) simp
next
  case (step s arrived got lost e s')
  then show ?case using fifo_step [OF history_ok [OF step.hyps(1) assms(2)] step.hyps(2,3)] by metis
qed

lemma all_reports_in_order:
  assumes "reader_history step pc queue n s0 s arrived got 0" "ok s0" "queue s0 = []"
    and "\<forall>d \<in> set arrived. length d \<le> n"
  shows "got @ queue s = arrived"
proof -
  obtain ks where ks: "subseq (ks @ queue s) arrived" "got = map (take n) ks"
    "length arrived = length got + length (queue s)"
    using reports_in_order [OF assms(1-3)] by auto
  then have eq: "ks @ queue s = arrived" by (metis length_append length_map subseq_same_length)
  then have "map (take n) ks = ks" using assms(4) by (intro map_idI) auto
  then show ?thesis using ks(2) eq by simp
qed

end

end
