(* ===== verification/Libusb_Thread.thy ===== *)
theory Libusb_Thread
  imports Libusb_Hid Reader_Order
begin

text \<open>
  The threads of the libusb backend: \<^verbatim>\<open>read_callback\<close> and \<^verbatim>\<open>read_thread\<close> on one side,
  \<^verbatim>\<open>hid_read_timeout\<close> on the other (\<^verbatim>\<open>src/src/hid/libusb/hid.c\<close>, 732-867 and 1076-1164).
  First the reader as a function of what it finds when it wakes up, with its deadline; then
  both threads as a step relation in which every critical section is one step, for the
  questions whether a reader can sleep for ever and which reports it gets.
\<close>

section \<open>The callback\<close>

datatype transfer_status =
    TRANSFER_COMPLETED | TRANSFER_ERROR | TRANSFER_TIMED_OUT | TRANSFER_CANCELLED
  | TRANSFER_STALL | TRANSFER_NO_DEVICE | TRANSFER_OVERFLOW

text \<open>What the two threads share; the queue is protected by \<^verbatim>\<open>dev->mutex\<close>.\<close>

record lu_shared =
  shutdown_thread :: bool
  cancelled :: bool
  input_reports :: report_list

text \<open>
  \<^verbatim>\<open>read_callback\<close>: the shared state, whether the condition was signalled and whether the
  transfer is submitted again; \<open>submit\<close> is the result of that submission.
\<close>

definition read_callback ::
    "transfer_status \<Rightarrow> u8 list \<Rightarrow> int \<Rightarrow> lu_shared \<Rightarrow> (bool \<times> bool \<times> lu_shared) res option" where
  "read_callback status buffer submit sh =
     (if status = TRANSFER_CANCELLED \<or> status = TRANSFER_NO_DEVICE
      then Some (Inr (False, False, sh\<lparr>shutdown_thread := True, cancelled := True\<rparr>))
      else
        (case (if status = TRANSFER_COMPLETED then lu_attach buffer (input_reports sh)
               else Some (Inr (False, input_reports sh))) of
           None \<Rightarrow> None
         | Some (Inl e) \<Rightarrow> Some (Inl e)
         | Some (Inr (signal, q)) \<Rightarrow>
             (let sh = sh\<lparr>input_reports := q\<rparr> in
              Some (Inr (signal, True,
                if submit \<noteq> 0 then sh\<lparr>shutdown_thread := True, cancelled := True\<rparr> else sh)))))"

section \<open>hid_read_timeout as a function\<close>

text \<open>
  The absolute time the wait ends: \<^verbatim>\<open>tv_sec\<close> and \<^verbatim>\<open>tv_nsec\<close> plus \<^verbatim>\<open>milliseconds\<close>, with one
  carry.
\<close>

definition lu_deadline :: "int \<Rightarrow> int \<Rightarrow> int \<Rightarrow> int \<times> int" where
  "lu_deadline tv_sec tv_nsec milliseconds =
     (let tv_sec = tv_sec + milliseconds div 1000;
          tv_nsec = tv_nsec + (milliseconds mod 1000) * 1000000
      in if tv_nsec \<ge> 1000000000 then (tv_sec + 1, tv_nsec - 1000000000) else (tv_sec, tv_nsec))"

definition ETIMEDOUT :: int where "ETIMEDOUT = 110"

text \<open>One return from the condition: its result, and the shared state found under the mutex.\<close>

record lu_wakeup =
  wk_res :: int
  wk_shared :: lu_shared

type_synonym lu_read_result = "(int \<times> u8 list) res \<times> report_list"

text \<open>\<^verbatim>\<open>return_data(dev, data, length)\<close>: the count with the bytes, and the queue left.\<close>

definition lu_take :: "nat \<Rightarrow> report_list \<Rightarrow> lu_read_result" where
  "lu_take n q =
     (case lu_return_data n q of
        Inl e \<Rightarrow> (Inl e, q)
      | Inr (bs, q') \<Rightarrow> (Inr (int (length bs), bs), q'))"

text \<open>The loop of a blocking read; \<open>None\<close>: still asleep after the wake-ups of the list.\<close>

fun lu_wait :: "nat \<Rightarrow> lu_shared \<Rightarrow> lu_wakeup list \<Rightarrow> lu_read_result option" where
  "lu_wait n sh wks =
     (if rq_root (input_reports sh) = None \<and> \<not> shutdown_thread sh then
        (case wks of [] \<Rightarrow> None | wk # wks' \<Rightarrow> lu_wait n (wk_shared wk) wks')
      else Some (if rq_root (input_reports sh) \<noteq> None then lu_take n (input_reports sh)
                 else (Inr (- 1, []), input_reports sh)))"

declare lu_wait.simps [simp del]

text \<open>The loop of a read with a timeout.\<close>

fun lu_timedwait :: "nat \<Rightarrow> lu_shared \<Rightarrow> lu_wakeup list \<Rightarrow> lu_read_result option" where
  "lu_timedwait n sh wks =
     (if rq_root (input_reports sh) = None \<and> \<not> shutdown_thread sh then
        (case wks of
           [] \<Rightarrow> None
         | wk # wks' \<Rightarrow>
             (let sh' = wk_shared wk in
              if wk_res wk = 0 then
                (if rq_root (input_reports sh') \<noteq> None then Some (lu_take n (input_reports sh'))
                 else lu_timedwait n sh' wks')
              else if wk_res wk = ETIMEDOUT then Some (Inr (0, []), input_reports sh')
              else Some (Inr (- 1, []), input_reports sh')))
      else Some (Inr (- 1, []), input_reports sh))"

declare lu_timedwait.simps [simp del]

definition lu_read_timeout ::
    "nat \<Rightarrow> int \<Rightarrow> lu_shared \<Rightarrow> lu_wakeup list \<Rightarrow> lu_read_result option" where
  "lu_read_timeout n milliseconds sh wks =
     (if rq_root (input_reports sh) \<noteq> None then Some (lu_take n (input_reports sh))
      else if shutdown_thread sh then Some (Inr (- 1, []), input_reports sh)
      else if milliseconds = - 1 then lu_wait n sh wks
      else if milliseconds > 0 then lu_timedwait n sh wks
      else Some (Inr (0, []), input_reports sh))"

definition lu_read :: "lu_device \<Rightarrow> nat \<Rightarrow> lu_shared \<Rightarrow> lu_wakeup list \<Rightarrow> lu_read_result option" where
  "lu_read dev n sh wks = lu_read_timeout n (if lu_blocking dev then - 1 else 0) sh wks"

section \<open>Both threads\<close>

text \<open>
  Where the read thread is: in its event loop, cancelling the transfer, about to wake the
  sleepers, or gone.
\<close>

datatype thread_pc = T_Events | T_Cancel | T_Wake | T_End

text \<open>
  \<^verbatim>\<open>sys_pending\<close>: libusb holds the transfer and will call back. The first submission, made by
  \<^verbatim>\<open>read_thread\<close>, is not checked; the later ones are made by the callback.
\<close>

record lu_system =
  sys_shared :: lu_shared
  sys_reader :: reader_pc
  sys_thread :: thread_pc
  sys_pending :: bool

text \<open>The test of the blocking loop, made with the mutex held.\<close>

definition reader_check :: "nat \<Rightarrow> lu_system \<Rightarrow> lu_system" where
  "reader_check n s =
     (let sh = sys_shared s in
      if rq_root (input_reports sh) \<noteq> None then
        (case lu_take n (input_reports sh) of
           (r, q) \<Rightarrow> s\<lparr>sys_shared := sh\<lparr>input_reports := q\<rparr>, sys_reader := R_Back r\<rparr>)
      else if shutdown_thread sh then s\<lparr>sys_reader := R_Back (Inr (- 1, []))\<rparr>
      else s\<lparr>sys_reader := R_Wait\<rparr>)"

text \<open>A step, labelled by what it does to the queue.\<close>

inductive lu_step :: "reader_event \<Rightarrow> lu_system \<Rightarrow> lu_system \<Rightarrow> bool" where
  read: "sys_reader s = R_Out \<Longrightarrow> lu_step (Check n) s (reader_check n s)"
| spurious: "sys_reader s = R_Wait \<Longrightarrow> lu_step Quiet s (s\<lparr>sys_reader := R_Woken\<rparr>)"
| resume: "sys_reader s = R_Woken \<Longrightarrow> lu_step (Check n) s (reader_check n s)"
| leave: "sys_reader s = R_Back r \<Longrightarrow> lu_step Quiet s (s\<lparr>sys_reader := R_Out\<rparr>)"
| callback:
    "sys_thread s = T_Events \<or> sys_thread s = T_Cancel \<Longrightarrow> sys_pending s \<Longrightarrow>
     read_callback status buffer submit (sys_shared s) = Some (Inr (signal, again, sh)) \<Longrightarrow>
     lu_step (if status = TRANSFER_COMPLETED then Report buffer else Quiet) s
       (s\<lparr>sys_shared := sh, sys_reader := wake_reader signal (sys_reader s), sys_pending := again \<and> submit = 0\<rparr>)"
| closing: "lu_step Quiet s (s\<lparr>sys_shared := (sys_shared s)\<lparr>shutdown_thread := True\<rparr>\<rparr>)"
| stop: "sys_thread s = T_Events \<Longrightarrow> lu_step Quiet s (s\<lparr>sys_thread := T_Cancel\<rparr>)"
| drained: "sys_thread s = T_Cancel \<Longrightarrow> cancelled (sys_shared s) \<Longrightarrow> lu_step Quiet s (s\<lparr>sys_thread := T_Wake\<rparr>)"
| finish:
    "sys_thread s = T_Wake \<Longrightarrow>
     lu_step Quiet s (s\<lparr>sys_thread := T_End, sys_reader := wake_reader True (sys_reader s)\<rparr>)"

definition lu_move :: "lu_system \<Rightarrow> lu_system \<Rightarrow> bool" where
  "lu_move s s' \<longleftrightarrow> (\<exists>e. lu_step e s s')"

lemma lu_stepI [intro]: "lu_step e s s' \<Longrightarrow> lu_move s s'"
  by (auto simp: lu_move_def)

text \<open>The state after the first submission returned \<^verbatim>\<open>submit\<close>.\<close>

definition lu_start :: "int \<Rightarrow> lu_system" where
  "lu_start submit = \<lparr>sys_shared = \<lparr>shutdown_thread = False, cancelled = False, input_reports = rq_empty\<rparr>,
     sys_reader = R_Out, sys_thread = T_Events, sys_pending = (submit = 0)\<rparr>"

inductive lu_reach :: "int \<Rightarrow> lu_system \<Rightarrow> bool" for submit :: int where
  init: "lu_reach submit (lu_start submit)"
| step: "lu_reach submit s \<Longrightarrow> lu_step e s s' \<Longrightarrow> lu_reach submit s'"

section \<open>Invariant\<close>

text \<open>The part about the shared state, kept by every critical section.\<close>

definition lu_shared_ok :: "lu_shared \<Rightarrow> bool" where
  "lu_shared_ok sh \<longleftrightarrow>
     rq_inv (input_reports sh) \<and> length (rq_view (input_reports sh)) \<le> 32 \<and>
     (cancelled sh \<longrightarrow> shutdown_thread sh)"

definition lu_inv :: "lu_system \<Rightarrow> bool" where
  "lu_inv s \<longleftrightarrow>
     lu_shared_ok (sys_shared s) \<and>
     (sys_thread s = T_Wake \<or> sys_thread s = T_End \<longrightarrow> cancelled (sys_shared s)) \<and>
     (sys_reader s = R_Wait \<longrightarrow>
        rq_view (input_reports (sys_shared s)) = [] \<and> sys_thread s \<noteq> T_End) \<and>
     (\<forall>r. sys_reader s = R_Back r \<longrightarrow> (\<exists>k bs. r = Inr (k, bs)))"

lemma lu_take_ok:
  assumes "rq_inv q" "rq_root q \<noteq> None"
  shows "\<exists>bs q'. lu_take n q = (Inr (int (length bs), bs), q') \<and> rq_inv q' \<and>
    length (rq_view q') < length (rq_view q)"
proof -
  obtain x xs where v: "rq_view q = x # xs"
    using rq_view_Nil [OF assms(1)] assms(2) by (cases "rq_view q") auto
  then obtain q' where "lu_return_data n q = Inr (take n x, q')" "rq_inv q'" "rq_view q' = xs"
    using lu_queue.take_ok [OF assms(1) v] by blast
  then show ?thesis using v by (simp add: lu_take_def)
qed

lemma reader_check_inv:
  assumes "lu_inv s"
  shows "lu_inv (reader_check n s)"
proof (cases "rq_root (input_reports (sys_shared s)) = None")
  case True
  then have "rq_view (input_reports (sys_shared s)) = []"
    using rq_view_Nil assms unfolding lu_inv_def lu_shared_ok_def by blast
  then show ?thesis using assms True
    by (auto simp: lu_inv_def lu_shared_ok_def reader_check_def Let_def)
next
  case False
  then obtain bs q' where "lu_take n (input_reports (sys_shared s)) = (Inr (int (length bs), bs), q')"
    "rq_inv q'" "length (rq_view q') < length (rq_view (input_reports (sys_shared s)))"
    using lu_take_ok [of "input_reports (sys_shared s)" n] assms
    unfolding lu_inv_def lu_shared_ok_def by blast
  then show ?thesis using assms False
    by (simp add: lu_inv_def lu_shared_ok_def reader_check_def Let_def)
qed

text \<open>
  The callback keeps the shared state well-formed, and a report it attaches to an empty queue
  is signalled.
\<close>

lemma read_callback_ok:
  assumes ok: "lu_shared_ok sh" and
    r: "read_callback status buffer submit sh = Some (Inr (signal, again, sh'))"
  shows "lu_shared_ok sh'" "cancelled sh \<Longrightarrow> cancelled sh'"
    "rq_view (input_reports sh) = [] \<Longrightarrow> signal \<or> rq_view (input_reports sh') = []"
proof -
  have q: "rq_inv (input_reports sh)" "length (rq_view (input_reports sh)) \<le> 32"
    using ok by (simp_all add: lu_shared_ok_def)
  obtain q' where q': "lu_attach buffer (input_reports sh) = Some (Inr (rq_view (input_reports sh) = [], q'))"
    "rq_inv q'" "rq_view q' = bounded_snoc (rq_view (input_reports sh)) buffer"
    using lu_attach_ok [OF q(1)] by blast
  have l: "length (rq_view q') \<le> 32" using q(2) q'(3) by (auto simp: bounded_snoc_def)
  show "lu_shared_ok sh'" using r ok q' l
    by (cases status) (auto simp: read_callback_def lu_shared_ok_def Let_def)
  show "cancelled sh \<Longrightarrow> cancelled sh'" using r q'
    by (cases status) (auto simp: read_callback_def Let_def)
  show "rq_view (input_reports sh) = [] \<Longrightarrow> signal \<or> rq_view (input_reports sh') = []" using r q'
    by (cases status) (auto simp: read_callback_def Let_def)
qed

lemma lu_step_inv:
  assumes "lu_step e s s'" "lu_inv s"
  shows "lu_inv s'"
  using assms
proof (cases rule: lu_step.cases)
  case (callback status buffer submit signal again sh)
  have ok: "lu_shared_ok (sys_shared s)" using assms(2) by (simp add: lu_inv_def)
  show ?thesis using assms(2) callback read_callback_ok [OF ok callback(5)]
    by (auto simp: lu_inv_def wake_reader_def split: if_splits)
next
  case (read n)
  then show ?thesis using reader_check_inv [OF assms(2)] by simp
next
  case (resume n)
  then show ?thesis using reader_check_inv [OF assms(2)] by simp
qed (auto simp: lu_inv_def lu_shared_ok_def wake_reader_def)

lemma lu_reach_inv: "lu_reach submit s \<Longrightarrow> lu_inv s"
proof (induction rule: lu_reach.induct)
  case init
  show ?case by (simp add: lu_inv_def lu_shared_ok_def lu_start_def)
next
  case (step s e s')
  then show ?case by (blast intro: lu_step_inv)
qed

section \<open>The order of the reports\<close>

definition lu_queue_of :: "lu_system \<Rightarrow> u8 list list" where
  "lu_queue_of s = rq_view (input_reports (sys_shared s))"

text \<open>A look at the queue leaves it as it was or hands out its front.\<close>

lemma reader_check_hands_out:
  assumes "lu_inv s"
  shows "lu_queue_of (reader_check n s) = lu_queue_of s \<and> handed_out (Check n) (sys_reader (reader_check n s)) = [] \<or>
    (\<exists>x. lu_queue_of s = x # lu_queue_of (reader_check n s) \<and>
       handed_out (Check n) (sys_reader (reader_check n s)) = [take n x])"
proof -
  let ?q = "input_reports (sys_shared s)"
  have inv: "rq_inv ?q" using assms by (simp add: lu_inv_def lu_shared_ok_def)
  show ?thesis
  proof (cases "rq_view ?q")
    case Nil
    then show ?thesis using rq_view_Nil [OF inv]
      by (simp add: reader_check_def lu_queue_of_def Let_def)
  next
    case (Cons x xs)
    obtain q' where "lu_return_data n ?q = Inr (take n x, q')" "rq_view q' = xs"
      using lu_queue.take_ok [OF inv Cons] by blast
    then show ?thesis using Cons rq_view_Nil [OF inv]
      by (simp add: reader_check_def lu_queue_of_def Let_def lu_take_def)
  qed
qed

lemma read_callback_queue:
  assumes "lu_shared_ok sh" "read_callback status buffer submit sh = Some (Inr (signal, again, sh'))"
  shows "rq_view (input_reports sh') =
    (if status = TRANSFER_COMPLETED then bounded_snoc (rq_view (input_reports sh)) buffer
     else rq_view (input_reports sh))"
proof -
  obtain q' where "lu_attach buffer (input_reports sh) = Some (Inr (rq_view (input_reports sh) = [], q'))"
    "rq_view q' = bounded_snoc (rq_view (input_reports sh)) buffer"
    using lu_attach_ok [of "input_reports sh"] assms(1) by (auto simp: lu_shared_ok_def)
  then show ?thesis using assms(2) by (cases status) (auto simp: read_callback_def Let_def)
qed

lemma lu_step_queue:
  assumes "lu_step e s s'" "lu_inv s"
  shows "(e = Quiet \<longrightarrow> lu_queue_of s' = lu_queue_of s) \<and>
    (\<forall>d. e = Report d \<longrightarrow> lu_queue_of s' = bounded_snoc (lu_queue_of s) d) \<and>
    (\<forall>n. e = Check n \<longrightarrow> s' = reader_check n s)"
  using assms(1)
proof (cases rule: lu_step.cases)
  case (callback status buffer submit signal again sh)
  have "lu_shared_ok (sys_shared s)" using assms(2) by (simp add: lu_inv_def)
  from read_callback_queue [OF this callback(5)] show ?thesis using callback(1,2)
    by (simp add: lu_queue_of_def)
qed (auto simp: lu_queue_of_def)

interpretation lu_reader: ordered_reader lu_step sys_reader lu_queue_of lu_inv
proof unfold_locales
  fix e n d and s s' :: lu_system
  assume ok: "lu_inv s"
  show "length (lu_queue_of s) \<le> 32" using ok by (simp add: lu_inv_def lu_shared_ok_def lu_queue_of_def)
  show "lu_inv s'" if "lu_step e s s'" using lu_step_inv [OF that ok] .
  show "lu_queue_of s' = lu_queue_of s" if "lu_step Quiet s s'" using lu_step_queue [OF that ok] by simp
  show "lu_queue_of s' = bounded_snoc (lu_queue_of s) d" if "lu_step (Report d) s s'"
    using lu_step_queue [OF that ok] by simp
  show "lu_queue_of s' = lu_queue_of s \<and> handed_out (Check n) (sys_reader s') = [] \<or>
      (\<exists>x. lu_queue_of s = x # lu_queue_of s' \<and> handed_out (Check n) (sys_reader s') = [take n x])"
    if "lu_step (Check n) s s'"
    using lu_step_queue [OF that ok] reader_check_hands_out [OF ok, of n] by simp
qed

section \<open>Closing\<close>

text \<open>
  What decides whether \<^verbatim>\<open>hid_close\<close> returns from \<^verbatim>\<open>pthread_join\<close>: the read thread leaves its
  cancel loop only when a callback has set \<^verbatim>\<open>cancelled\<close>, and only a pending transfer calls
  back.
\<close>

lemma reader_check_frame [simp]:
  "sys_thread (reader_check n s) = sys_thread s" "sys_pending (reader_check n s) = sys_pending s"
  "cancelled (sys_shared (reader_check n s)) = cancelled (sys_shared s)"
  by (simp_all add: reader_check_def Let_def split: prod.split)

lemma read_callback_again:
  assumes "read_callback status buffer submit sh = Some (Inr (signal, again, sh'))"
    "\<not> (again \<and> submit = 0)"
  shows "cancelled sh'"
  using assms by (cases status)
    (auto simp: read_callback_def Let_def split: option.splits sum.splits prod.splits if_splits)

lemma lu_step_pending:
  assumes "lu_step e s s'" "sys_pending s \<or> cancelled (sys_shared s)"
  shows "sys_pending s' \<or> cancelled (sys_shared s')"
  using assms(1)
proof (cases rule: lu_step.cases)
  case (callback status buffer submit signal again sh)
  then show ?thesis using read_callback_again [OF callback(5)] by auto
qed (use assms in auto)

lemma lu_reach_pending: "lu_reach 0 s \<Longrightarrow> sys_pending s \<or> cancelled (sys_shared s)"
proof (induction rule: lu_reach.induct)
  case init
  show ?case by (simp add: lu_start_def)
next
  case (step s e s')
  show ?case by (rule lu_step_pending [OF step(2,3)])
qed

lemma lu_step_stuck:
  assumes "lu_step e s s'" "\<not> sys_pending s" "\<not> cancelled (sys_shared s)"
    "sys_thread s = T_Events \<or> sys_thread s = T_Cancel"
  shows "\<not> sys_pending s' \<and> \<not> cancelled (sys_shared s') \<and>
    (sys_thread s' = T_Events \<or> sys_thread s' = T_Cancel)"
  using assms by (cases rule: lu_step.cases) auto

text \<open>The steps that bring the read thread to its end, once the transfer has been cancelled.\<close>

lemma end_after_step:
  assumes "lu_step e s s1" "\<exists>s'. lu_move\<^sup>*\<^sup>* s1 s' \<and> sys_thread s' = T_End"
  shows "\<exists>s'. lu_move\<^sup>*\<^sup>* s s' \<and> sys_thread s' = T_End"
  using assms by (meson converse_rtranclp_into_rtranclp lu_stepI)

lemma wake_steps:
  assumes "sys_thread s = T_Wake"
  shows "\<exists>s'. lu_move\<^sup>*\<^sup>* s s' \<and> sys_thread s' = T_End"
  by (rule end_after_step [OF lu_step.finish [OF assms]]) auto

lemma finish_steps:
  assumes "sys_thread s = T_Cancel" "cancelled (sys_shared s)"
  shows "\<exists>s'. lu_move\<^sup>*\<^sup>* s s' \<and> sys_thread s' = T_End"
  by (rule end_after_step [OF lu_step.drained [OF assms] wake_steps]) simp

lemma cancel_steps:
  assumes "sys_thread s = T_Cancel" "sys_pending s \<or> cancelled (sys_shared s)"
  shows "\<exists>s'. lu_move\<^sup>*\<^sup>* s s' \<and> sys_thread s' = T_End"
proof (cases "cancelled (sys_shared s)")
  case True
  then show ?thesis using assms finish_steps by blast
next
  case False
  let ?sh = "(sys_shared s)\<lparr>shutdown_thread := True, cancelled := True\<rparr>"
  let ?c = "s\<lparr>sys_shared := ?sh, sys_reader := wake_reader False (sys_reader s),
    sys_pending := False \<and> (0::int) = 0\<rparr>"
  have "lu_step (if TRANSFER_CANCELLED = TRANSFER_COMPLETED then Report [] else Quiet) s ?c"
    by (rule lu_step.callback) (use assms False in \<open>simp_all add: read_callback_def\<close>)
  then show ?thesis by (rule end_after_step) (rule finish_steps; use assms in simp)
qed

section \<open>Properties\<close>

text \<open>
  C8. No lost wake-up: whatever the order of callbacks, reads, spurious wake-ups and the
  closing of the device, a reader asleep in a blocking read means that no report is queued and
  that the read thread, whose last act is to wake it, has not ended; the queue never holds
  more than 32 reports, and no read ends in a memory fault.
\<close>

theorem lu_no_lost_wakeup:
  assumes "lu_reach submit s"
  shows "(sys_reader s = R_Wait \<longrightarrow>
      rq_root (input_reports (sys_shared s)) = None \<and> sys_thread s \<noteq> T_End) \<and>
    length (rq_view (input_reports (sys_shared s))) \<le> 32 \<and> sys_reader s \<noteq> R_Back (Inl e)"
  using lu_reach_inv [OF assms] rq_view_Nil [of "input_reports (sys_shared s)"]
  by (auto simp: lu_inv_def lu_shared_ok_def)

theorem lu_no_lost_wakeup_witness:
  "sys_reader (reader_check 8 (lu_start 0)) = R_Wait \<and>
   rq_root (input_reports (sys_shared (reader_check 8 (lu_start 0)))) = None \<and>
   sys_thread (reader_check 8 (lu_start 0)) \<noteq> T_End"
proof -
  let ?s = "reader_check 8 (lu_start 0)"
  have r: "lu_reach 0 ?s" by (rule lu_reach.step [OF lu_reach.init], rule lu_step.read) (simp add: lu_start_def)
  have w: "sys_reader ?s = R_Wait" by (simp add: reader_check_def lu_start_def rq_empty_def)
  show ?thesis using lu_no_lost_wakeup [OF r] w by simp
qed

text \<open>
  C9. What a caller gets from blocking reads of \<open>n\<close> bytes, in any interleaving with the callbacks
  of libusb. The reports leave the queue in the order in which their transfers completed, and each
  leaves it once: handed to a read, cut to \<open>n\<close> bytes, or dropped. Those that left and those that
  wait are all that arrived, so when a report arrives while 32 wait it is the oldest of them that
  is dropped, and nothing is dropped otherwise. Without such an arrival, and with a buffer that
  is large enough, the results and the queue together are exactly what the device sent.
\<close>

theorem lu_reports_in_order:
  assumes "reader_history lu_step sys_reader lu_queue_of n (lu_start submit) s arrived got lost"
  shows "(\<exists>xs. arrived = map snd xs @ lu_queue_of s \<and>
      got = map (take n \<circ> snd) (filter fst xs) \<and> lost = length (filter (Not \<circ> fst) xs)) \<and>
    length (lu_queue_of s) \<le> 32 \<and>
    (lost = 0 \<and> (\<forall>d \<in> set arrived. length d \<le> n) \<longrightarrow> got @ lu_queue_of s = arrived)"
proof -
  have s0: "lu_inv (lu_start submit)" "lu_queue_of (lu_start submit) = []"
    using lu_reach_inv [OF lu_reach.init] by (simp_all add: lu_start_def lu_queue_of_def)
  show ?thesis
  proof (intro conjI impI)
    show "length (lu_queue_of s) \<le> 32" by (rule lu_reader.bounded [OF lu_reader.history_ok [OF assms s0(1)]])
    show "got @ lu_queue_of s = arrived" if "lost = 0 \<and> (\<forall>d \<in> set arrived. length d \<le> n)"
      using lu_reader.all_reports_in_order [OF _ s0] assms that by blast
  qed (rule lu_reader.reports_fifo [OF assms s0])
qed

theorem lu_reports_in_order_witness:
  "\<exists>s. reader_history lu_step sys_reader lu_queue_of 64 (lu_start 0) s [[1, 2]] [] 0 \<and> lu_queue_of s = [[1, 2]]"
proof -
  let ?s = "lu_start 0"
  obtain q where q: "lu_attach [1, 2] rq_empty = Some (Inr (True, q))"
    using lu_attach_ok [of rq_empty "[1, 2]"] by auto
  let ?s1 = "?s\<lparr>sys_shared := \<lparr>shutdown_thread = False, cancelled = False, input_reports = q\<rparr>,
    sys_reader := wake_reader True (sys_reader ?s), sys_pending := True \<and> (0::int) = 0\<rparr>"
  have "lu_step (if TRANSFER_COMPLETED = TRANSFER_COMPLETED then Report [1, 2] else Quiet) ?s ?s1"
    by (rule lu_step.callback) (simp_all add: lu_start_def read_callback_def q)
  then have "reader_history lu_step sys_reader lu_queue_of 64 ?s ?s1 ([] @ delivered (Report [1, 2]))
      ([] @ handed_out (Report [1, 2]) (sys_reader ?s1)) (0 + dropped (Report [1, 2]) (lu_queue_of ?s))"
    by (intro reader_history.step [OF reader_history.start]) simp_all
  then have h: "reader_history lu_step sys_reader lu_queue_of 64 ?s ?s1 [[1, 2]] [] 0"
    by (simp add: lu_queue_of_def lu_start_def)
  from lu_reports_in_order [OF h] have "lu_queue_of ?s1 = [[1, 2]]" by simp
  with h show ?thesis by blast
qed

lemma lu_close_can_join:
  assumes "lu_reach 0 s"
  shows "\<exists>s'. lu_move\<^sup>*\<^sup>* s s' \<and> sys_thread s' = T_End"
proof (cases "sys_thread s")
  case T_Events
  then have "lu_step Quiet s (s\<lparr>sys_thread := T_Cancel\<rparr>)" by (rule lu_step.stop)
  then show ?thesis
    by (rule end_after_step) (rule cancel_steps; use lu_reach_pending [OF assms] in simp)
next
  case T_Cancel
  then show ?thesis using cancel_steps lu_reach_pending [OF assms] by blast
next
  case T_Wake
  then show ?thesis by (rule wake_steps)
qed blast

lemma lu_close_stuck:
  assumes "lu_reach submit s" "submit \<noteq> 0"
  shows "\<not> sys_pending s \<and> \<not> cancelled (sys_shared s) \<and>
    (sys_thread s = T_Events \<or> sys_thread s = T_Cancel)"
  using assms by (induction rule: lu_reach.induct) (simp add: lu_start_def, blast dest: lu_step_stuck)

text \<open>
  C24. When the first submission of the transfer succeeded, the read thread can always be
  brought to its end, so the \<^verbatim>\<open>pthread_join\<close> of \<^verbatim>\<open>hid_close\<close> can return; when it failed, which
  \<^verbatim>\<open>read_thread\<close> does not check, no sequence of steps ever ends the thread: nothing calls back,
  \<^verbatim>\<open>cancelled\<close> stays 0, and \<^verbatim>\<open>hid_close\<close> waits for ever.
\<close>

theorem lu_close_joins:
  assumes "lu_reach submit s"
  shows "(submit = 0 \<longrightarrow> (\<exists>s'. lu_move\<^sup>*\<^sup>* s s' \<and> sys_thread s' = T_End)) \<and>
    (submit \<noteq> 0 \<longrightarrow> sys_thread s \<noteq> T_End \<and> \<not> cancelled (sys_shared s))"
  using lu_close_can_join [of s] lu_close_stuck [OF assms] assms by auto

theorem lu_close_joins_witness:
  "(\<exists>s'. lu_move\<^sup>*\<^sup>* (lu_start 0) s' \<and> sys_thread s' = T_End) \<and>
   sys_thread (lu_start (- 1)\<lparr>sys_thread := T_Cancel\<rparr>) \<noteq> T_End \<and>
   \<not> cancelled (sys_shared (lu_start (- 1)\<lparr>sys_thread := T_Cancel\<rparr>))"
proof -
  have "lu_reach (- 1) (lu_start (- 1)\<lparr>sys_thread := T_Cancel\<rparr>)"
    by (rule lu_reach.step [OF lu_reach.init], rule lu_step.stop) (simp add: lu_start_def)
  then show ?thesis
    using lu_close_joins [OF lu_reach.init [of 0]]
      lu_close_joins [of "- 1" "lu_start (- 1)\<lparr>sys_thread := T_Cancel\<rparr>"] by simp
qed

text \<open>
  The deadline of a timed read is the current time plus exactly the timeout, and its
  nanoseconds are in the range \<^verbatim>\<open>pthread_cond_timedwait\<close> requires.
\<close>

theorem lu_deadline_exact:
  assumes "0 \<le> nsec" "nsec < 1000000000" "0 < milliseconds"
  shows "\<exists>s n. lu_deadline sec nsec milliseconds = (s, n) \<and> 0 \<le> n \<and> n < 1000000000 \<and>
    s * 1000000000 + n = sec * 1000000000 + nsec + milliseconds * 1000000"
proof -
  define d m where "d = milliseconds div 1000" and "m = milliseconds mod 1000"
  have m: "milliseconds = d * 1000 + m" "0 \<le> m" "m < 1000" by (simp_all add: d_def m_def)
  show ?thesis
    by (cases "nsec + m * 1000000 \<ge> 1000000000")
      (use assms m in \<open>auto simp: lu_deadline_def Let_def simp flip: d_def m_def\<close>)
qed

theorem lu_deadline_exact_witness:
  "\<exists>s n. lu_deadline 5 999000000 2500 = (s, n) \<and> 0 \<le> n \<and> n < 1000000000 \<and>
    s * 1000000000 + n = 5 * 1000000000 + 999000000 + 2500 * 1000000"
  by (rule lu_deadline_exact) simp_all

text \<open>
  A read gives the oldest queued report whatever the timeout and even when the device has
  gone; only when the queue is empty is a disconnected device reported, by -1.
\<close>

theorem lu_read_after_disconnect:
  assumes "rq_inv (input_reports sh)" "shutdown_thread sh"
  shows "case rq_view (input_reports sh) of
      x # xs \<Rightarrow>
        (\<exists>q'. lu_read_timeout n milliseconds sh wks =
            Some (Inr (int (length (take n x)), take n x), q') \<and> rq_inv q' \<and> rq_view q' = xs)
    | [] \<Rightarrow> lu_read_timeout n milliseconds sh wks = Some (Inr (- 1, []), input_reports sh)"
proof (cases "rq_view (input_reports sh)")
  case Nil
  then show ?thesis using assms rq_view_Nil [OF assms(1)] by (simp add: lu_read_timeout_def)
next
  case (Cons x xs)
  obtain q' where "lu_return_data n (input_reports sh) = Inr (take n x, q')" "rq_inv q'" "rq_view q' = xs"
    using lu_queue.take_ok [OF assms(1) Cons] by blast
  then show ?thesis
    using Cons rq_view_Nil [OF assms(1)] by (auto simp: lu_read_timeout_def lu_take_def)
qed

theorem lu_read_after_disconnect_witness:
  "lu_read_timeout 8 100 \<lparr>shutdown_thread = True, cancelled = True, input_reports = rq_empty\<rparr> [] =
     Some (Inr (- 1, []), rq_empty)"
  using lu_read_after_disconnect
    [of "\<lparr>shutdown_thread = True, cancelled = True, input_reports = rq_empty\<rparr>" 8 100 "[]"]
  by simp

end
