(* ===== verification/Mac_Hid.thy ===== *)
theory Mac_Hid
  imports Hidapi Handles Report_Queue
begin

text \<open>
  The mac backend (\<^verbatim>\<open>src/src/hid/mac/hid.c\<close>) without its waiting reads: properties, library
  state, enumeration, opening, output and feature reports, closing. IOKit and Core Foundation
  are the record \<open>mac_os\<close> over a world \<open>'w\<close>. Allocation succeeds. The block under
  \<^verbatim>\<open>#if 0\<close> at the end of the file is not compiled.
\<close>

section \<open>IOKit and Core Foundation\<close>

text \<open>A property value; a string is its UTF-16 code units.\<close>

datatype cf_value = CF_Number int | CF_String "u16 list"

text \<open>
  \<open>mo_get_bytes us m\<close> is \<^verbatim>\<open>CFStringGetBytes\<close> on the code units \<open>us\<close> into a buffer of \<open>m\<close>
  UTF-32 characters: the number of code units converted, and the characters stored.
\<close>

record 'w mac_os =
  mo_create_manager :: "'w \<Rightarrow> bool \<times> 'w"
  mo_close_manager :: "'w \<Rightarrow> 'w"
  mo_run_loop :: "'w \<Rightarrow> int \<times> 'w"
  mo_devices :: "'w \<Rightarrow> ptr list option"
  mo_property :: "'w \<Rightarrow> nat \<Rightarrow> string \<Rightarrow> cf_value option"
  mo_get_bytes :: "u16 list \<Rightarrow> nat \<Rightarrow> nat \<times> wstr"
  mo_service_path :: "'w \<Rightarrow> nat \<Rightarrow> string option"
  mo_entry :: "'w \<Rightarrow> string option \<Rightarrow> ptr"
  mo_create :: "nat \<Rightarrow> 'w \<Rightarrow> ptr \<times> 'w"
  mo_open :: "nat \<Rightarrow> 'w \<Rightarrow> bool \<times> 'w"
  mo_start :: "nat \<Rightarrow> int \<Rightarrow> 'w \<Rightarrow> 'w"
  mo_unregister :: "nat \<Rightarrow> 'w \<Rightarrow> 'w"
  mo_stop :: "nat \<Rightarrow> 'w \<Rightarrow> bool \<times> 'w"
  mo_close :: "nat \<Rightarrow> 'w \<Rightarrow> 'w"
  mo_release :: "nat \<Rightarrow> 'w \<Rightarrow> 'w"
  mo_release_entry :: "nat \<Rightarrow> 'w \<Rightarrow> 'w"
  mo_set_report :: "nat \<Rightarrow> nat \<Rightarrow> u8 \<Rightarrow> u8 list \<Rightarrow> 'w \<Rightarrow> bool \<times> 'w"
  mo_get_report :: "nat \<Rightarrow> nat \<Rightarrow> u8 \<Rightarrow> u8 list \<Rightarrow> 'w \<Rightarrow> u8 list option \<times> 'w"

definition kCFRunLoopRunFinished :: int where "kCFRunLoopRunFinished = 1"
definition kCFRunLoopRunStopped :: int where "kCFRunLoopRunStopped = 2"
definition kCFRunLoopRunTimedOut :: int where "kCFRunLoopRunTimedOut = 3"
definition kCFRunLoopRunHandledSource :: int where "kCFRunLoopRunHandledSource = 4"
definition kIOHIDReportTypeOutput :: nat where "kIOHIDReportTypeOutput = 1"
definition kIOHIDReportTypeFeature :: nat where "kIOHIDReportTypeFeature = 2"

section \<open>State\<close>

text \<open>\<^verbatim>\<open>struct hid_device_\<close>; the thread objects are a component of their own.\<close>

record mc_device =
  mc_handle :: ptr
  mc_blocking :: bool
  mc_numbered :: bool
  mc_disconnected :: bool
  mc_shutdown_thread :: bool
  mc_max_input_report_len :: int
  mc_reports :: report_list

text \<open>A handle is an index of \<open>mc_heap\<close>, \<open>None\<close> there once it is freed.\<close>

record 'w mac_state =
  mc_world :: 'w
  hid_mgr :: bool
  mc_heap :: "mc_device option list"

definition mc_new_hid_device :: mc_device where
  "mc_new_hid_device = \<lparr>mc_handle = None, mc_blocking = True, mc_numbered = False,
     mc_disconnected = False, mc_shutdown_thread = False, mc_max_input_report_len = 0,
     mc_reports = rq_empty\<rparr>"

definition mc_deref :: "ptr \<Rightarrow> 'w mac_state \<Rightarrow> (nat \<times> mc_device) res" where
  "mc_deref p s = handle_at (mc_heap s) p"

definition mc_put :: "nat \<Rightarrow> mc_device option \<Rightarrow> 'w mac_state \<Rightarrow> 'w mac_state" where
  "mc_put h d s = s\<lparr>mc_heap := (mc_heap s)[h := d]\<rparr>"

text \<open>The handle the other calls use.\<close>

definition the_handle :: "mc_device \<Rightarrow> nat res" where
  "the_handle d = (case mc_handle d of None \<Rightarrow> Inl (UB Null_Pointer) | Some k \<Rightarrow> Inr k)"

section \<open>Properties of a device\<close>

text \<open>
  An integer property as \<^verbatim>\<open>int32_t\<close>; the callers narrow it to an \<^verbatim>\<open>unsigned short\<close> or widen
  it to a \<^verbatim>\<open>CFIndex\<close>.
\<close>

definition get_int_property :: "'w mac_os \<Rightarrow> 'w \<Rightarrow> nat \<Rightarrow> string \<Rightarrow> u32" where
  "get_int_property os w device key =
     (case mo_property os w device key of Some (CF_Number n) \<Rightarrow> word_of_int n | _ \<Rightarrow> 0)"

definition get_vendor_id :: "'w mac_os \<Rightarrow> 'w \<Rightarrow> nat \<Rightarrow> u16" where
  "get_vendor_id os w device = ucast (get_int_property os w device ''VendorID'')"

definition get_product_id :: "'w mac_os \<Rightarrow> 'w \<Rightarrow> nat \<Rightarrow> u16" where
  "get_product_id os w device = ucast (get_int_property os w device ''ProductID'')"

definition get_max_report_length :: "'w mac_os \<Rightarrow> 'w \<Rightarrow> nat \<Rightarrow> int" where
  "get_max_report_length os w device = sint (get_int_property os w device ''MaxInputReportSize'')"

text \<open>A wide buffer: \<open>None\<close> is a character not written yet.\<close>

type_synonym wbuf = "u32 option list"

text \<open>
  The result and the buffer. The terminating null is stored at the number of code units
  converted, which is the number of characters stored only if there is no surrogate pair.
\<close>

definition get_string_property ::
    "'w mac_os \<Rightarrow> 'w \<Rightarrow> nat \<Rightarrow> string \<Rightarrow> wbuf \<Rightarrow> nat \<Rightarrow> (int \<times> wbuf) res" where
  "get_string_property os w device prop buf len =
     (if len = 0 then Inr (0, buf)
      else bind_res (c_memcpy buf 0 [Some 0]) (\<lambda>buf.
        case mo_property os w device prop of
          None \<Rightarrow> Inr (- 1, buf)
        | Some (CF_Number _) \<Rightarrow> Inl (UB Out_Of_Bounds)
        | Some (CF_String str) \<Rightarrow>
            (let len = len - 1;
                 range_length = (if length str > len then len else length str);
                 (chars_copied, ws) = mo_get_bytes os (take range_length str) len
             in bind_res (c_memcpy buf 0 (map Some ws)) (\<lambda>buf.
                bind_res (c_memcpy buf chars_copied [Some 0]) (\<lambda>buf. Inr (0, buf))))))"

definition get_serial_number :: "'w mac_os \<Rightarrow> 'w \<Rightarrow> nat \<Rightarrow> wbuf \<Rightarrow> nat \<Rightarrow> (int \<times> wbuf) res" where
  "get_serial_number os w device = get_string_property os w device ''SerialNumber''"

definition get_manufacturer_string :: "'w mac_os \<Rightarrow> 'w \<Rightarrow> nat \<Rightarrow> wbuf \<Rightarrow> nat \<Rightarrow> (int \<times> wbuf) res" where
  "get_manufacturer_string os w device = get_string_property os w device ''Manufacturer''"

definition get_product_string :: "'w mac_os \<Rightarrow> 'w \<Rightarrow> nat \<Rightarrow> wbuf \<Rightarrow> nat \<Rightarrow> (int \<times> wbuf) res" where
  "get_product_string os w device = get_string_property os w device ''Product''"

text \<open>\<^verbatim>\<open>dup_wcs\<close>: the characters before the first null.\<close>

fun dup_wcs :: "wbuf \<Rightarrow> wstr res" where
  "dup_wcs [] = Inl (UB Out_Of_Bounds)"
| "dup_wcs (None # s) = Inl (UB Uninitialised)"
| "dup_wcs (Some c # s) = (if c = 0 then Inr [] else bind_res (dup_wcs s) (\<lambda>cs. Inr (c # cs)))"

section \<open>Library state\<close>

definition init_hid_manager :: "'w mac_os \<Rightarrow> 'w mac_state \<Rightarrow> int \<times> 'w mac_state" where
  "init_hid_manager os s =
     (let (ok, w) = mo_create_manager os (mc_world s);
          s = s\<lparr>mc_world := w, hid_mgr := ok\<rparr>
      in if hid_mgr s then (0, s) else (- 1, s))"

definition mc_hid_init :: "'w mac_os \<Rightarrow> 'w mac_state \<Rightarrow> int \<times> 'w mac_state" where
  "mc_hid_init os s = (if \<not> hid_mgr s then init_hid_manager os s else (0, s))"

definition mc_hid_exit :: "'w mac_os \<Rightarrow> 'w mac_state \<Rightarrow> int \<times> 'w mac_state" where
  "mc_hid_exit os s =
     (if hid_mgr s then (0, s\<lparr>mc_world := mo_close_manager os (mc_world s), hid_mgr := False\<rparr>)
      else (0, s))"

text \<open>The loop ends when the run loop finishes or times out; \<open>None\<close> if it never does.\<close>

partial_function (option) process_pending_events :: "'w mac_os \<Rightarrow> 'w \<Rightarrow> 'w option" where
  "process_pending_events os w =
     (case mo_run_loop os w of
        (res, w') \<Rightarrow>
          if res \<noteq> kCFRunLoopRunFinished \<and> res \<noteq> kCFRunLoopRunTimedOut
          then process_pending_events os w' else Some w')"

section \<open>Enumeration\<close>

text \<open>The record of a device whose ids passed the filter.\<close>

definition mc_record :: "'w mac_os \<Rightarrow> 'w \<Rightarrow> nat \<Rightarrow> dev_info res" where
  "mc_record os w dev =
     (let buf = replicate 256 None in
      bind_res (get_serial_number os w dev buf 256) (\<lambda>(_, buf).
      bind_res (dup_wcs buf) (\<lambda>serial.
      bind_res (get_manufacturer_string os w dev buf 256) (\<lambda>(_, buf).
      bind_res (dup_wcs buf) (\<lambda>manufacturer.
      bind_res (get_product_string os w dev buf 256) (\<lambda>(_, buf).
      bind_res (dup_wcs buf) (\<lambda>product.
        Inr \<lparr>di_path = Some (case mo_service_path os w dev of None \<Rightarrow> '''' | Some path \<Rightarrow> path),
             di_vendor_id = get_vendor_id os w dev, di_product_id = get_product_id os w dev,
             di_serial_number = Some serial,
             di_release_number = ucast (get_int_property os w dev ''VersionNumber''),
             di_manufacturer_string = Some manufacturer, di_product_string = Some product,
             di_usage_page = ucast (get_int_property os w dev ''PrimaryUsagePage''),
             di_usage = ucast (get_int_property os w dev ''PrimaryUsage''),
             di_interface_number = - 1\<rparr>)))))))"

fun mc_enum_loop ::
    "'w mac_os \<Rightarrow> 'w \<Rightarrow> u16 \<Rightarrow> u16 \<Rightarrow> ptr list \<Rightarrow> dev_info list \<Rightarrow> dev_info list res" where
  "mc_enum_loop os w vendor_id product_id [] root = Inr root"
| "mc_enum_loop os w vendor_id product_id (None # devs) root =
     mc_enum_loop os w vendor_id product_id devs root"
| "mc_enum_loop os w vendor_id product_id (Some dev # devs) root =
     (if id_matches vendor_id product_id (get_vendor_id os w dev) (get_product_id os w dev)
      then bind_res (mc_record os w dev) (\<lambda>d.
             mc_enum_loop os w vendor_id product_id devs (root @ [d]))
      else mc_enum_loop os w vendor_id product_id devs root)"

text \<open>A null set of devices is passed on to \<^verbatim>\<open>CFSetGetCount\<close>.\<close>

definition mc_enumerate ::
    "'w mac_os \<Rightarrow> u16 \<Rightarrow> u16 \<Rightarrow> 'w mac_state \<Rightarrow> (dev_info list res \<times> 'w mac_state) option" where
  "mc_enumerate os vendor_id product_id s =
     (let (r, s) = mc_hid_init os s in
      if r < 0 then Some (Inr [], s)
      else case process_pending_events os (mc_world s) of
        None \<Rightarrow> None
      | Some w \<Rightarrow>
          Some (case mo_devices os w of
                  None \<Rightarrow> Inl (UB Null_Pointer)
                | Some device_array \<Rightarrow> mc_enum_loop os w vendor_id product_id device_array [],
                s\<lparr>mc_world := w\<rparr>))"

section \<open>Opening\<close>

text \<open>
  The end of a failed open: release what was acquired, free the device. A failed \<^verbatim>\<open>hid_init\<close>
  returns before that, and the device is lost. \<open>mo_start\<close> registers the callbacks, starts the read
  thread and waits at the barrier for it.
\<close>

definition mc_return_error :: "'w mac_os \<Rightarrow> ptr \<Rightarrow> ptr \<Rightarrow> 'w mac_state \<Rightarrow> ptr res \<times> 'w mac_state" where
  "mc_return_error os device_handle entry s =
     (let w = mc_world s;
          w = (case device_handle of None \<Rightarrow> w | Some k \<Rightarrow> mo_release os k w);
          w = (case entry of None \<Rightarrow> w | Some e \<Rightarrow> mo_release_entry os e w)
      in (Inr None, s\<lparr>mc_world := w\<rparr>))"

definition mc_open_path ::
    "'w mac_os \<Rightarrow> string option \<Rightarrow> 'w mac_state \<Rightarrow> ptr res \<times> 'w mac_state" where
  "mc_open_path os path s =
     (let (r, s) = mc_hid_init os s in
      if r < 0 then (Inr None, s)
      else case mo_entry os (mc_world s) path of
        None \<Rightarrow> mc_return_error os None None s
      | Some entry \<Rightarrow>
          (let (device_handle, w) = mo_create os entry (mc_world s);
               s = s\<lparr>mc_world := w\<rparr>
           in case device_handle of
                None \<Rightarrow> mc_return_error os None (Some entry) s
              | Some k \<Rightarrow>
                  (let (ok, w) = mo_open os k w;
                       s = s\<lparr>mc_world := w\<rparr>
                   in if ok then
                        (let len = get_max_report_length os w k;
                             dev = mc_new_hid_device\<lparr>mc_handle := Some k, mc_max_input_report_len := len\<rparr>
                         in (Inr (Some (length (mc_heap s))),
                             s\<lparr>mc_world := mo_release_entry os entry (mo_start os k len w),
                               mc_heap := mc_heap s @ [Some dev]\<rparr>))
                      else mc_return_error os (Some k) (Some entry) s)))"

definition mc_open ::
    "'w mac_os \<Rightarrow> u16 \<Rightarrow> u16 \<Rightarrow> wstr option \<Rightarrow> 'w mac_state \<Rightarrow> (ptr res \<times> 'w mac_state) option" where
  "mc_open os vendor_id product_id serial_number s =
     (case mc_enumerate os vendor_id product_id s of
        None \<Rightarrow> None
      | Some (Inl e, s) \<Rightarrow> Some (Inl e, s)
      | Some (Inr devs, s) \<Rightarrow>
          Some (case mc_find_path vendor_id product_id serial_number devs of
             Inl e \<Rightarrow> (Inl e, s)
           | Inr (Some path_to_open) \<Rightarrow> mc_open_path os (Some path_to_open) s
           | Inr None \<Rightarrow> (Inr None, s)))"

section \<open>Reports\<close>

text \<open>\<^verbatim>\<open>set_report\<close>: a report number of 0 is not sent.\<close>

definition set_report ::
    "'w mac_os \<Rightarrow> ptr \<Rightarrow> nat \<Rightarrow> u8 list \<Rightarrow> 'w mac_state \<Rightarrow> int res \<times> 'w mac_state" where
  "set_report os dev type data s =
     (case mc_deref dev s of
        Inl e \<Rightarrow> (Inl e, s)
      | Inr (_, d) \<Rightarrow>
          if mc_disconnected d then (Inr (- 1), s)
          else case bind_res (c_index data 0) (\<lambda>b. bind_res (the_handle d) (\<lambda>k. Inr (b, k))) of
            Inl e \<Rightarrow> (Inl e, s)
          | Inr (b, k) \<Rightarrow>
              (let data_to_send = (if b = 0 then drop 1 data else data);
                   (ok, w) = mo_set_report os k type b data_to_send (mc_world s)
               in (Inr (if ok then int (length data) else - 1), s\<lparr>mc_world := w\<rparr>)))"

definition mc_write :: "'w mac_os \<Rightarrow> ptr \<Rightarrow> u8 list \<Rightarrow> 'w mac_state \<Rightarrow> int res \<times> 'w mac_state" where
  "mc_write os dev = set_report os dev kIOHIDReportTypeOutput"

definition mc_send_feature_report ::
    "'w mac_os \<Rightarrow> ptr \<Rightarrow> u8 list \<Rightarrow> 'w mac_state \<Rightarrow> int res \<times> 'w mac_state" where
  "mc_send_feature_report os dev = set_report os dev kIOHIDReportTypeFeature"

text \<open>The length and the bytes stored at the start of \<open>data\<close>.\<close>

definition mc_get_feature_report ::
    "'w mac_os \<Rightarrow> ptr \<Rightarrow> u8 list \<Rightarrow> 'w mac_state \<Rightarrow> (int \<times> u8 list) res \<times> 'w mac_state" where
  "mc_get_feature_report os dev data s =
     (case mc_deref dev s of
        Inl e \<Rightarrow> (Inl e, s)
      | Inr (_, d) \<Rightarrow>
          if mc_disconnected d then (Inr (- 1, data), s)
          else case bind_res (c_index data 0) (\<lambda>b. bind_res (the_handle d) (\<lambda>k. Inr (b, k))) of
            Inl e \<Rightarrow> (Inl e, s)
          | Inr (b, k) \<Rightarrow>
              (case mo_get_report os k kIOHIDReportTypeFeature b data (mc_world s) of
                 (None, w) \<Rightarrow> (Inr (- 1, data), s\<lparr>mc_world := w\<rparr>)
               | (Some bs, w) \<Rightarrow>
                   (bind_res (c_memcpy data 0 bs) (\<lambda>data. Inr (int (length bs), data)),
                    s\<lparr>mc_world := w\<rparr>)))"

definition mc_set_nonblocking :: "ptr \<Rightarrow> int \<Rightarrow> 'w mac_state \<Rightarrow> int res \<times> 'w mac_state" where
  "mc_set_nonblocking dev nonblock s =
     (case mc_deref dev s of
        Inl e \<Rightarrow> (Inl e, s)
      | Inr (h, d) \<Rightarrow> (Inr 0, mc_put h (Some (d\<lparr>mc_blocking := (nonblock = 0)\<rparr>)) s))"

section \<open>Strings\<close>

definition mc_string ::
    "(nat \<Rightarrow> wbuf \<Rightarrow> nat \<Rightarrow> (int \<times> wbuf) res) \<Rightarrow> ptr \<Rightarrow> wbuf \<Rightarrow> nat \<Rightarrow> 'w mac_state \<Rightarrow> (int \<times> wbuf) res" where
  "mc_string get dev string maxlen s =
     bind_res (mc_deref dev s) (\<lambda>(_, d). bind_res (the_handle d) (\<lambda>k. get k string maxlen))"

definition mc_get_manufacturer_string where
  "mc_get_manufacturer_string os dev string maxlen s =
     mc_string (get_manufacturer_string os (mc_world s)) dev string maxlen s"

definition mc_get_product_string where
  "mc_get_product_string os dev string maxlen s =
     mc_string (get_product_string os (mc_world s)) dev string maxlen s"

definition mc_get_serial_number_string where
  "mc_get_serial_number_string os dev string maxlen s =
     mc_string (get_serial_number os (mc_world s)) dev string maxlen s"

text \<open>The next two are not implemented in the source: success without a string, no error text.\<close>

definition mc_get_indexed_string :: "ptr \<Rightarrow> int \<Rightarrow> wbuf \<Rightarrow> nat \<Rightarrow> int \<times> wbuf" where
  "mc_get_indexed_string dev string_index string maxlen = (0, string)"

definition mc_error :: "ptr \<Rightarrow> wstr option" where
  "mc_error dev = None"

section \<open>Closing\<close>

text \<open>
  \<open>mo_unregister\<close> is the block that takes the callbacks off, \<open>mo_stop\<close> the part that stops and
  joins the read thread, with the flag whether the thread found the device disconnected
  meanwhile (its code is in Mac_Thread). The queue is cleared before the device is freed, whose
  loop over the reports then finds none.
\<close>

definition mc_close :: "'w mac_os \<Rightarrow> ptr \<Rightarrow> 'w mac_state \<Rightarrow> (unit res \<times> 'w mac_state) option" where
  "mc_close os dev s =
     (if dev = None then Some (Inr (), s)
      else case bind_res (mc_deref dev s) (\<lambda>(h, d). bind_res (the_handle d) (\<lambda>k. Inr (h, d, k))) of
        Inl e \<Rightarrow> Some (Inl e, s)
      | Inr (h, d, k) \<Rightarrow>
          (let w = mc_world s;
               w = (if \<not> mc_disconnected d then mo_unregister os k w else w);
               (gone, w) = mo_stop os k w;
               w = (if \<not> (mc_disconnected d \<or> gone) then mo_close os k w else w)
           in case mc_drain (mc_reports d) of
                None \<Rightarrow> None
              | Some (Inl e) \<Rightarrow> Some (Inl e, s\<lparr>mc_world := w\<rparr>)
              | Some (Inr q) \<Rightarrow>
                  (case mc_free_reports (rq_heap q) (rq_root q) of
                     None \<Rightarrow> None
                   | Some (Inl e) \<Rightarrow> Some (Inl e, s\<lparr>mc_world := mo_release os k w\<rparr>)
                   | Some (Inr _) \<Rightarrow>
                       Some (Inr (), mc_put h None (s\<lparr>mc_world := mo_release os k w\<rparr>)))))"

end
