(* ===== verification/Mac_Thread.thy ===== *)
theory Mac_Thread
  imports Mac_Hid Libusb_Thread
begin

text \<open>
  The threads of the mac backend (\<^verbatim>\<open>src/src/hid/mac/hid.c\<close>): the barrier it defines, the
  callbacks and the loop of the read thread, and the waiting reads. As for libusb, a read is a
  function of what it finds at each wake-up. The barrier is a step relation over the threads
  that use it.
\<close>

section \<open>Callbacks and the read thread\<close>

definition hid_device_removal_callback :: "mc_device \<Rightarrow> mc_device" where
  "hid_device_removal_callback d = d\<lparr>mc_disconnected := True\<rparr>"

text \<open>\<^verbatim>\<open>hid_report_callback\<close> signals the condition whatever the queue held.\<close>

definition hid_report_callback :: "u8 list \<Rightarrow> mc_device \<Rightarrow> (bool \<times> mc_device) res option" where
  "hid_report_callback report dev =
     (case mc_attach report (mc_reports dev) of
        None \<Rightarrow> None
      | Some (Inl e) \<Rightarrow> Some (Inl e)
      | Some (Inr (signal, q)) \<Rightarrow> Some (Inr (signal, dev\<lparr>mc_reports := q\<rparr>)))"

text \<open>
  The event loop: each round is the code \<^verbatim>\<open>CFRunLoopRunInMode\<close> returns with the device as the
  callbacks of that round left it. \<open>None\<close>: still in the loop after the rounds of the list.
\<close>

fun mc_event_loop :: "mc_device \<Rightarrow> (int \<times> (mc_device \<Rightarrow> mc_device)) list \<Rightarrow> mc_device option" where
  "mc_event_loop dev rounds =
     (if \<not> mc_shutdown_thread dev \<and> \<not> mc_disconnected dev then
        (case rounds of
           [] \<Rightarrow> None
         | (code, callbacks) # rounds \<Rightarrow>
             (let dev = callbacks dev in
              if code = kCFRunLoopRunFinished then Some (dev\<lparr>mc_disconnected := True\<rparr>)
              else if code \<noteq> kCFRunLoopRunTimedOut \<and> code \<noteq> kCFRunLoopRunHandledSource
              then Some (dev\<lparr>mc_shutdown_thread := True\<rparr>)
              else mc_event_loop dev rounds))
      else Some dev)"

declare mc_event_loop.simps [simp del]

lemma mc_event_loop_stopped:
  "mc_event_loop dev rounds = Some dev' \<Longrightarrow> mc_shutdown_thread dev' \<or> mc_disconnected dev'"
proof (induction rounds arbitrary: dev)
  case Nil
  then show ?case by (subst (asm) mc_event_loop.simps) (auto split: if_splits)
next
  case (Cons r rounds)
  show ?case
  proof (cases "mc_shutdown_thread dev \<or> mc_disconnected dev")
    case True
    then show ?thesis using Cons.prems by (subst (asm) mc_event_loop.simps) auto
  next
    case False
    then show ?thesis using Cons
      by (subst (asm) (2) mc_event_loop.simps) (auto simp: Let_def split: if_splits prod.splits)
  qed
qed

section \<open>Waiting reads\<close>

text \<open>One return from the condition: its result, and the device found under the mutex.\<close>

record mc_wakeup =
  mw_res :: int
  mw_dev :: mc_device

text \<open>
  \<^verbatim>\<open>cond_wait\<close> and \<^verbatim>\<open>cond_timedwait\<close>: the result and the device. \<open>None\<close>: still asleep after
  the wake-ups of the list.
\<close>

fun cond_wait :: "mc_device \<Rightarrow> mc_wakeup list \<Rightarrow> (int \<times> mc_device) option" where
  "cond_wait dev wks =
     (if rq_root (mc_reports dev) = None then
        (case wks of
           [] \<Rightarrow> None
         | wk # wks' \<Rightarrow>
             (let res = mw_res wk; dev = mw_dev wk in
              if res \<noteq> 0 then Some (res, dev)
              else if mc_shutdown_thread dev \<or> mc_disconnected dev then Some (- 1, dev)
              else cond_wait dev wks'))
      else Some (0, dev))"

declare cond_wait.simps [simp del]

fun cond_timedwait :: "mc_device \<Rightarrow> mc_wakeup list \<Rightarrow> (int \<times> mc_device) option" where
  "cond_timedwait dev wks =
     (if rq_root (mc_reports dev) = None then
        (case wks of
           [] \<Rightarrow> None
         | wk # wks' \<Rightarrow>
             (let res = mw_res wk; dev = mw_dev wk in
              if res \<noteq> 0 then Some (res, dev)
              else if mc_shutdown_thread dev \<or> mc_disconnected dev then Some (- 1, dev)
              else cond_timedwait dev wks'))
      else Some (0, dev))"

declare cond_timedwait.simps [simp del]

definition MC_ETIMEDOUT :: int where "MC_ETIMEDOUT = 60"

type_synonym mc_read_result = "(int \<times> u8 list) res \<times> mc_device"

definition mc_take :: "nat \<Rightarrow> mc_device \<Rightarrow> mc_read_result" where
  "mc_take n dev =
     (case mc_return_data n (mc_reports dev) of
        Inl e \<Rightarrow> (Inl e, dev)
      | Inr (bs, q) \<Rightarrow> (Inr (int (length bs), bs), dev\<lparr>mc_reports := q\<rparr>))"

definition mc_read_timeout :: "nat \<Rightarrow> int \<Rightarrow> mc_device \<Rightarrow> mc_wakeup list \<Rightarrow> mc_read_result option" where
  "mc_read_timeout n milliseconds dev wks =
     (if rq_root (mc_reports dev) \<noteq> None then Some (mc_take n dev)
      else if mc_disconnected dev then Some (Inr (- 1, []), dev)
      else if mc_shutdown_thread dev then Some (Inr (- 1, []), dev)
      else if milliseconds = - 1 then
        map_option (\<lambda>(res, dev). if res = 0 then mc_take n dev else (Inr (- 1, []), dev)) (cond_wait dev wks)
      else if milliseconds > 0 then
        map_option (\<lambda>(res, dev).
          if res = 0 then mc_take n dev
          else if res = MC_ETIMEDOUT then (Inr (0, []), dev)
          else (Inr (- 1, []), dev)) (cond_timedwait dev wks)
      else Some (Inr (0, []), dev))"

definition mc_read :: "nat \<Rightarrow> mc_device \<Rightarrow> mc_wakeup list \<Rightarrow> mc_read_result option" where
  "mc_read n dev wks = mc_read_timeout n (if mc_blocking dev then - 1 else 0) dev wks"

text \<open>The deadline: \<^verbatim>\<open>TIMEVAL_TO_TIMESPEC\<close> of the current time, plus the timeout.\<close>

definition mc_deadline :: "int \<Rightarrow> int \<Rightarrow> int \<Rightarrow> int \<times> int" where
  "mc_deadline tv_sec tv_usec milliseconds =
     (let tv_nsec = tv_usec * 1000;
          tv_sec = tv_sec + milliseconds div 1000;
          tv_nsec = tv_nsec + (milliseconds mod 1000) * 1000000
      in if tv_nsec \<ge> 1000000000 then (tv_sec + 1, tv_nsec - 1000000000) else (tv_sec, tv_nsec))"

section \<open>The barrier\<close>

text \<open>
  Each critical section is one step, \<open>bar_threads\<close> is where the threads are; making the mutex and
  the condition is taken to succeed. A thread asleep in \<^verbatim>\<open>pthread_cond_wait\<close> is woken by the
  broadcast, or for no reason when \<open>spurious\<close>; nothing is tested after the wake-up.
\<close>

datatype barrier_pc = B_Before | B_Asleep | B_Woken | B_Past int

record barrier =
  bar_count :: nat
  bar_trip_count :: nat
  bar_threads :: "barrier_pc list"

definition pthread_barrier_init :: "nat \<Rightarrow> (nat \<times> nat) option" where
  "pthread_barrier_init count = (if count = 0 then None else Some (0, count))"

definition barrier_arrive :: "nat \<Rightarrow> barrier \<Rightarrow> barrier" where
  "barrier_arrive i b =
     (let count = bar_count b + 1 in
      if count \<ge> bar_trip_count b then
        b\<lparr>bar_count := 0,
          bar_threads := (map (\<lambda>t. if t = B_Asleep then B_Woken else t) (bar_threads b))[i := B_Past 1]\<rparr>
      else b\<lparr>bar_count := count, bar_threads := (bar_threads b)[i := B_Asleep]\<rparr>)"

inductive barrier_step :: "bool \<Rightarrow> barrier \<Rightarrow> barrier \<Rightarrow> bool" for spurious :: bool where
  arrive: "i < length (bar_threads b) \<Longrightarrow> bar_threads b ! i = B_Before \<Longrightarrow>
    barrier_step spurious b (barrier_arrive i b)"
| wake: "spurious \<Longrightarrow> i < length (bar_threads b) \<Longrightarrow> bar_threads b ! i = B_Asleep \<Longrightarrow>
    barrier_step spurious b (b\<lparr>bar_threads := (bar_threads b)[i := B_Woken]\<rparr>)"
| pass: "i < length (bar_threads b) \<Longrightarrow> bar_threads b ! i = B_Woken \<Longrightarrow>
    barrier_step spurious b (b\<lparr>bar_threads := (bar_threads b)[i := B_Past 0]\<rparr>)"

definition barrier_start :: "nat \<Rightarrow> barrier" where
  "barrier_start n = \<lparr>bar_count = 0, bar_trip_count = n, bar_threads = replicate n B_Before\<rparr>"

fun past :: "barrier_pc \<Rightarrow> bool" where
  "past (B_Past r) = True"
| "past t = False"

lemma past_iff: "past t \<longleftrightarrow> (\<exists>r. t = B_Past r)"
  by (cases t) simp_all

inductive barrier_reach :: "bool \<Rightarrow> nat \<Rightarrow> barrier \<Rightarrow> bool" for spurious :: bool and n :: nat where
  start: "barrier_reach spurious n (barrier_start n)"
| step: "barrier_reach spurious n b \<Longrightarrow> barrier_step spurious b b' \<Longrightarrow> barrier_reach spurious n b'"

text \<open>
  Without spurious wake-ups: the threads are all still to arrive or asleep, and the count is
  the number of those that arrived, or they have all been let through.
\<close>

definition to_arrive :: "barrier \<Rightarrow> nat set" where
  "to_arrive b = {j. j < length (bar_threads b) \<and> bar_threads b ! j = B_Before}"

definition barrier_ok :: "nat \<Rightarrow> barrier \<Rightarrow> bool" where
  "barrier_ok n b \<longleftrightarrow> length (bar_threads b) = n \<and> bar_trip_count b = n \<and>
     (bar_count b + card (to_arrive b) = n \<and> (\<forall>j < n. bar_threads b ! j \<in> {B_Before, B_Asleep})
      \<or> (\<forall>j < n. bar_threads b ! j = B_Woken \<or> past (bar_threads b ! j)))"

lemma finite_to_arrive [simp]: "finite (to_arrive b)"
  by (simp add: to_arrive_def)

lemma barrier_arrive_ok:
  assumes "barrier_ok n b" "i < length (bar_threads b)" "bar_threads b ! i = B_Before"
  shows "barrier_ok n (barrier_arrive i b)"
proof -
  have i: "i \<in> to_arrive b" using assms by (simp add: to_arrive_def)
  have inv: "length (bar_threads b) = n" "bar_trip_count b = n" "bar_count b + card (to_arrive b) = n"
    "\<forall>j < n. bar_threads b ! j \<in> {B_Before, B_Asleep}"
    using assms by (auto simp: barrier_ok_def past_iff)
  show ?thesis
  proof (cases "bar_count b + 1 \<ge> n")
    case True
    then have "card (to_arrive b) \<le> Suc 0" using inv by simp
    then have "\<forall>j \<in> to_arrive b. j = i" using i card_le_Suc0_iff_eq [of "to_arrive b"] by auto
    then have "\<forall>j < n. j \<noteq> i \<longrightarrow> bar_threads b ! j = B_Asleep"
      using inv(1,4) by (auto simp: to_arrive_def)
    then show ?thesis using inv True assms(2)
      by (auto simp: barrier_ok_def barrier_arrive_def Let_def past_iff nth_list_update)
  next
    case False
    let ?b = "barrier_arrive i b"
    have t: "bar_threads ?b = (bar_threads b)[i := B_Asleep]" "bar_count ?b = bar_count b + 1"
      "bar_trip_count ?b = n"
      using False inv by (simp_all add: barrier_arrive_def Let_def)
    have "to_arrive ?b = to_arrive b - {i}"
      using assms(2) by (auto simp: to_arrive_def t nth_list_update split: if_splits)
    moreover have "card (to_arrive b) > 0" using i by (auto simp: card_gt_0_iff)
    ultimately have "bar_count ?b + card (to_arrive ?b) = n" using i inv(3) t(2) by simp
    moreover have "\<forall>j < n. (bar_threads b)[i := B_Asleep] ! j \<in> {B_Before, B_Asleep}"
      using inv(1,4) by (metis insertCI nth_list_update_eq nth_list_update_neq)
    ultimately show ?thesis using inv(1) t(1,3) by (simp add: barrier_ok_def)
  qed
qed

lemma barrier_reach_ok: "barrier_reach False n b \<Longrightarrow> barrier_ok n b"
proof (induction rule: barrier_reach.induct)
  case start
  have "to_arrive (barrier_start n) = {..<n}" by (auto simp: to_arrive_def barrier_start_def)
  then show ?case by (simp add: barrier_ok_def barrier_start_def)
next
  case (step b b')
  from step(2,3) show ?case
  proof (cases rule: barrier_step.cases)
    case (pass i)
    then show ?thesis using step(3) by (auto simp: barrier_ok_def past_iff nth_list_update)
  qed (auto simp: barrier_arrive_ok)
qed

section \<open>Reads and deadlines against the libusb backend\<close>

lemma mc_deadline_eq: "mc_deadline tv_sec tv_usec ms = lu_deadline tv_sec (tv_usec * 1000) ms"
  by (simp add: mc_deadline_def lu_deadline_def)

lemma cond_timedwait_eq: "cond_timedwait dev wks = cond_wait dev wks"
proof (induction dev wks rule: cond_wait.induct)
  case (1 dev wks)
  show ?case
  proof (cases wks)
    case Nil
    then show ?thesis by (simp add: cond_wait.simps [of dev] cond_timedwait.simps [of dev])
  next
    case (Cons wk wks')
    then show ?thesis using 1 [of wk wks']
      by (simp add: cond_wait.simps [of dev "wk # wks'"] cond_timedwait.simps [of dev "wk # wks'"] Let_def)
  qed
qed

lemma mc_take_view:
  assumes "rq_inv (mc_reports dev)" "rq_view (mc_reports dev) = x # xs"
  shows "\<exists>q'. mc_take n dev = (Inr (int (length (take n x)), take n x), dev\<lparr>mc_reports := q'\<rparr>) \<and>
    rq_inv q' \<and> rq_view q' = xs"
proof -
  obtain q' where "mc_return_data n (mc_reports dev) = Inr (take n x, q')" "rq_inv q'" "rq_view q' = xs"
    using mc_queue.take_ok [OF assms] by blast
  then show ?thesis by (auto simp: mc_take_def)
qed

section \<open>Properties\<close>

text \<open>
  The barrier for \<open>n\<close> threads lets no thread past before all have arrived, provided
  \<^verbatim>\<open>pthread_cond_wait\<close> has no spurious wake-ups. With them, which POSIX allows, a thread can
  pass alone; what comes of that is in Mac_Lifecycle.
\<close>

theorem barrier_needs_all:
  assumes "barrier_reach False n b"
  shows "(\<forall>i < n. \<forall>j < n. past (bar_threads b ! i) \<longrightarrow> bar_threads b ! j \<noteq> B_Before) \<and>
    (\<exists>b'. barrier_reach True 2 b' \<and> past (bar_threads b' ! 0) \<and> bar_threads b' ! 1 = B_Before)"
proof
  show "\<forall>i < n. \<forall>j < n. past (bar_threads b ! i) \<longrightarrow> bar_threads b ! j \<noteq> B_Before"
    using barrier_reach_ok [OF assms] by (auto simp: barrier_ok_def past_iff)
  let ?b1 = "barrier_arrive 0 (barrier_start 2)"
  let ?b2 = "?b1\<lparr>bar_threads := (bar_threads ?b1)[0 := B_Woken]\<rparr>"
  let ?b3 = "?b2\<lparr>bar_threads := (bar_threads ?b2)[0 := B_Past 0]\<rparr>"
  have t: "bar_threads ?b1 = [B_Asleep, B_Before]"
    by (simp add: barrier_arrive_def barrier_start_def numeral_2_eq_2)
  have "barrier_reach True 2 ?b1"
    by (rule barrier_reach.step [OF barrier_reach.start], rule barrier_step.arrive)
      (simp_all add: barrier_start_def)
  then have "barrier_reach True 2 ?b2"
    by (rule barrier_reach.step, intro barrier_step.wake) (simp_all add: t)
  then have "barrier_reach True 2 ?b3"
    by (rule barrier_reach.step, intro barrier_step.pass) (simp_all add: t)
  then show "\<exists>b'. barrier_reach True 2 b' \<and> past (bar_threads b' ! 0) \<and> bar_threads b' ! 1 = B_Before"
    by (intro exI [of _ ?b3]) (simp add: t past_iff)
qed

theorem barrier_needs_all_witness:
  "past (bar_threads (barrier_arrive 1 (barrier_arrive 0 (barrier_start 2))) ! 1) \<and>
   bar_threads (barrier_arrive 1 (barrier_arrive 0 (barrier_start 2))) ! 0 \<noteq> B_Before"
proof -
  have "barrier_reach False 2 (barrier_arrive 0 (barrier_start 2))"
    by (rule barrier_reach.step [OF barrier_reach.start], rule barrier_step.arrive)
      (simp_all add: barrier_start_def)
  then have r: "barrier_reach False 2 (barrier_arrive 1 (barrier_arrive 0 (barrier_start 2)))"
    by (rule barrier_reach.step, intro barrier_step.arrive)
      (simp_all add: barrier_start_def barrier_arrive_def numeral_2_eq_2)
  have "past (bar_threads (barrier_arrive 1 (barrier_arrive 0 (barrier_start 2))) ! 1)"
    by (simp add: barrier_start_def barrier_arrive_def numeral_2_eq_2 past_iff)
  then show ?thesis using conjunct1 [OF barrier_needs_all [OF r], rule_format, of 1 0] by simp
qed

text \<open>
  A reader that sleeps in \<^verbatim>\<open>cond_wait\<close> and is woken after a report arrived and the device
  was unplugged returns -1 although the report is queued: the loop tests the flags before it
  looks at the queue again. The report is not lost, the next read returns it; a reader that
  does not sleep, and every reader of the libusb backend, gets the report first.
\<close>

theorem mc_read_woken_by_unplug:
  assumes "rq_root (mc_reports dev) = None" "\<not> mc_disconnected dev" "\<not> mc_shutdown_thread dev"
    and "mw_res wk = 0" "mc_disconnected (mw_dev wk)"
    and "rq_inv (mc_reports (mw_dev wk))" "rq_view (mc_reports (mw_dev wk)) = x # xs"
    and "milliseconds = - 1 \<or> milliseconds > 0"
  shows "mc_read_timeout n milliseconds dev (wk # wks) = Some (Inr (- 1, []), mw_dev wk) \<and>
    (\<exists>q'. mc_read_timeout n milliseconds (mw_dev wk) [] =
       Some (Inr (int (length (take n x)), take n x), (mw_dev wk)\<lparr>mc_reports := q'\<rparr>) \<and> rq_view q' = xs)"
proof
  have "cond_wait dev (wk # wks) = Some (- 1, mw_dev wk)"
    using assms by (simp add: cond_wait.simps [of dev "wk # wks"])
  then show "mc_read_timeout n milliseconds dev (wk # wks) = Some (Inr (- 1, []), mw_dev wk)"
    using assms by (auto simp: mc_read_timeout_def cond_timedwait_eq MC_ETIMEDOUT_def)
  have "rq_root (mc_reports (mw_dev wk)) \<noteq> None" using assms(6,7) rq_view_Nil by fastforce
  then show "\<exists>q'. mc_read_timeout n milliseconds (mw_dev wk) [] =
      Some (Inr (int (length (take n x)), take n x), (mw_dev wk)\<lparr>mc_reports := q'\<rparr>) \<and> rq_view q' = xs"
    using mc_take_view [OF assms(6,7)] by (auto simp: mc_read_timeout_def)
qed

theorem mc_read_woken_by_unplug_witness:
  "\<exists>q. rq_view q = [[7]] \<and>
     mc_read_timeout 8 (- 1) mc_new_hid_device
       [\<lparr>mw_res = 0, mw_dev = mc_new_hid_device\<lparr>mc_disconnected := True, mc_reports := q\<rparr>\<rparr>] =
     Some (Inr (- 1, []), mc_new_hid_device\<lparr>mc_disconnected := True, mc_reports := q\<rparr>)"
proof -
  obtain q where q: "mc_attach [7] rq_empty = Some (Inr (True, q))" "rq_inv q" "rq_view q = [[7]]"
    using mc_queue.attach_ok [of rq_empty "[7]"] by (auto simp: bounded_snoc_def)
  let ?wk = "\<lparr>mw_res = 0, mw_dev = mc_new_hid_device\<lparr>mc_disconnected := True, mc_reports := q\<rparr>\<rparr>"
  have "mc_read_timeout 8 (- 1) mc_new_hid_device (?wk # []) = Some (Inr (- 1, []), mw_dev ?wk)"
    using mc_read_woken_by_unplug [of mc_new_hid_device ?wk "[7]" "[]" "- 1" 8 "[]"] q
    by (simp add: mc_new_hid_device_def rq_empty_def)
  then show ?thesis using q(3) by auto
qed

end
