(* ===== verification/Mac_Correct.thy ===== *)
theory Mac_Correct
  imports Mac_Thread
begin

text \<open>
  Properties of the mac backend that need no interleaving: what a string property leaves in
  the caller's buffer, and what closing a device does.
\<close>

section \<open>Strings\<close>

definition surrogate :: "u16 \<Rightarrow> bool" where
  "surrogate u \<longleftrightarrow> 0xD800 \<le> u \<and> u \<le> 0xDFFF"

text \<open>
  \<^verbatim>\<open>CFStringGetBytes\<close> to UTF-32 on code units without surrogates that fit: each becomes one
  character.
\<close>

definition converts_plain :: "'w mac_os \<Rightarrow> bool" where
  "converts_plain os \<longleftrightarrow>
     (\<forall>us m. length us \<le> m \<longrightarrow> (\<forall>u \<in> set us. \<not> surrogate u) \<longrightarrow>
        mo_get_bytes os us m = (length us, map ucast us))"

lemma dup_wcs_terminated: "dup_wcs (map Some ws @ Some 0 # r) = Inr (takeWhile (\<lambda>c. c \<noteq> 0) ws)"
  by (induction ws) auto

lemma overwrite_terminated:
  assumes "length ws < length buf"
  shows "overwrite (overwrite (overwrite buf 0 [Some 0]) 0 (map Some ws)) (length ws) [Some 0] =
    map Some ws @ Some 0 # drop (length ws + 1) buf"
  using assms by (cases buf) (auto simp: overwrite_def)

lemma get_string_property_plain:
  assumes "converts_plain os" "mo_property os w device prop = Some (CF_String str)"
    and "\<forall>u \<in> set str. \<not> surrogate u" "0 < len" "len \<le> length buf"
  shows "get_string_property os w device prop buf len =
    Inr (0, map Some (map ucast (take (len - 1) str)) @ Some 0 # drop (min (len - 1) (length str) + 1) buf)"
proof -
  define n where "n = min (len - 1) (length str)"
  have n: "length (take n str) = n" "n < length buf" "n \<le> len - 1" "take n str = take (len - 1) str"
    "(if length str > len - 1 then len - 1 else length str) = n" "1 \<le> length buf" "len \<noteq> 0"
    using assms(4,5) by (auto simp: n_def min_def)
  have "\<forall>u \<in> set (take n str). \<not> surrogate u" using assms(3) by (meson in_set_takeD)
  then have c: "mo_get_bytes os (take n str) (len - 1) = (n, map ucast (take n str))"
    using assms(1) n(1,3) unfolding converts_plain_def by metis
  have o: "overwrite (overwrite (overwrite buf 0 [Some 0]) 0 (map Some (map ucast (take n str)))) n [Some 0] =
      map Some (map ucast (take n str)) @ Some 0 # drop (n + 1) buf"
    using overwrite_terminated [of "map ucast (take n str)" buf] n(1,2) by simp
  have "get_string_property os w device prop buf len =
      Inr (0, map Some (map ucast (take n str)) @ Some 0 # drop (n + 1) buf)"
  proof (cases "length str > len - 1")
    case True
    then have "n = len - 1" by (simp add: n_def)
    then show ?thesis using True assms(2,5) n(1,2,6,7) c o
      by (simp add: get_string_property_def c_memcpy_def Let_def)
  next
    case False
    then have "n = length str" by (simp add: n_def)
    then show ?thesis using False assms(2) n(2,6,7) c o
      by (simp add: get_string_property_def c_memcpy_def Let_def)
  qed
  then show ?thesis unfolding n(4) by (simp only: n_def)
qed

section \<open>Properties\<close>

text \<open>
  C39. The string functions store the whole property or its first \<open>len - 1\<close> characters,
  followed by a null inside the \<open>len\<close> characters of the caller, leave the rest of the buffer
  alone and return 0, for strings without surrogate pairs.
\<close>

theorem mc_string_correct:
  assumes "converts_plain os" "mo_property os w device prop = Some (CF_String str)"
    and "\<forall>u \<in> set str. \<not> surrogate u" "0 < len" "len \<le> length buf"
  shows "\<exists>buf'. get_string_property os w device prop buf len = Inr (0, buf') \<and>
    length buf' = length buf \<and> drop len buf' = drop len buf \<and>
    dup_wcs buf' = Inr (takeWhile (\<lambda>c. c \<noteq> 0) (map ucast (take (len - 1) str)))"
proof (intro exI conjI)
  let ?b = "map Some (map ucast (take (len - 1) str)) @ Some 0 # drop (min (len - 1) (length str) + 1) buf"
  show "get_string_property os w device prop buf len = Inr (0, ?b)"
    by (rule get_string_property_plain [OF assms])
  show "dup_wcs ?b = Inr (takeWhile (\<lambda>c. c \<noteq> 0) (map ucast (take (len - 1) str)))"
    by (rule dup_wcs_terminated)
  show "length ?b = length buf" "drop len ?b = drop len buf"
    using assms(4,5) by (cases len; auto simp: min_def drop_Cons')+
qed

text \<open>A mac with one device, for the example.\<close>

definition demo_mac :: "unit mac_os" where
  "demo_mac =
     \<lparr>mo_create_manager = (\<lambda>w. (True, w)), mo_close_manager = (\<lambda>w. w),
      mo_run_loop = (\<lambda>w. (kCFRunLoopRunTimedOut, w)), mo_devices = (\<lambda>w. Some [Some 1]),
      mo_property = (\<lambda>w d k. if k = ''Product'' then Some (CF_String [78, 97, 110, 111]) else None),
      mo_get_bytes = (\<lambda>us m. (length us, map ucast us)),
      mo_service_path = (\<lambda>w d. Some ''IOService:/Nano''), mo_entry = (\<lambda>w p. Some 0),
      mo_create = (\<lambda>e w. (Some 1, w)), mo_open = (\<lambda>k w. (True, w)), mo_start = (\<lambda>k l w. w),
      mo_unregister = (\<lambda>k w. w), mo_stop = (\<lambda>k w. (False, w)), mo_close = (\<lambda>k w. w),
      mo_release = (\<lambda>k w. w), mo_release_entry = (\<lambda>e w. w),
      mo_set_report = (\<lambda>k t i bs w. (True, w)), mo_get_report = (\<lambda>k t i bs w. (Some bs, w))\<rparr>"

theorem mc_string_correct_witness:
  "\<exists>buf'. get_product_string demo_mac () 1 (replicate 4 None) 4 = Inr (0, buf') \<and>
     dup_wcs buf' = Inr [78, 97, 110]"
proof -
  have c: "converts_plain demo_mac" by (simp add: converts_plain_def demo_mac_def)
  have "\<exists>buf'. get_string_property demo_mac () 1 ''Product'' (replicate 4 None) 4 = Inr (0, buf') \<and>
      length buf' = length (replicate 4 (None :: u32 option)) \<and>
      drop 4 buf' = drop 4 (replicate 4 None) \<and>
      dup_wcs buf' = Inr (takeWhile (\<lambda>c. c \<noteq> 0) (map ucast (take (4 - 1) [78, 97, 110, 111 :: u16])))"
    by (rule mc_string_correct [OF c]) (simp_all add: demo_mac_def surrogate_def)
  then show ?thesis by (auto simp: get_product_string_def)
qed

text \<open>
  With a surrogate pair the terminator lands after the characters stored, and a character
  never written is copied: the product name is U+1F600, two code units and one character.
\<close>

lemma overwrite_third: "overwrite (a # b # c # r) 2 [x] = a # b # x # r"
  by (simp add: overwrite_def numeral_2_eq_2)

lemma mc_string_surrogate:
  assumes "mo_get_bytes os [0xD83D, 0xDE00] 255 = (2, [0x1F600])"
    and "mo_property os w device ''Product'' = Some (CF_String [0xD83D, 0xDE00])"
  shows "bind_res (get_product_string os w device (replicate 256 None) 256) (\<lambda>(_, buf). dup_wcs buf) =
    Inl (UB Uninitialised)"
proof -
  have b: "replicate 256 (None :: u32 option) = None # None # None # replicate 253 None"
    using replicate_add [of 3 253 "None :: u32 option"] by (simp add: numeral_3_eq_3)
  show ?thesis using assms
    by (simp add: get_product_string_def get_string_property_def c_memcpy_def Let_def b
        overwrite_third) (simp add: overwrite_def)
qed

end
