(* ===== verification/Enum_Heap.thy ===== *)
theory Enum_Heap
  imports Hidapi "HOL-Library.Multiset"
begin

text \<open>
  The linked list of \<^verbatim>\<open>struct hid_device_info\<close> in memory: how \<^verbatim>\<open>hid_enumerate\<close> builds it (here the
  linux version, which also takes records off again), \<^verbatim>\<open>hid_free_enumeration\<close>, the same in all
  four backends, and the owning pointers \<^verbatim>\<open>hidpp::enumerate_devices\<close> makes of it. Elsewhere
  the list is a list of values; here it is shown that the memory stands for that list, and that
  every block is freed once.
\<close>

section \<open>Memory\<close>

record hid_device_info =
  nd_path :: ptr
  nd_vendor_id :: u16
  nd_product_id :: u16
  nd_serial_number :: ptr
  nd_release_number :: u16
  nd_manufacturer_string :: ptr
  nd_product_string :: ptr
  nd_usage_page :: u16
  nd_usage :: u16
  nd_interface_number :: int
  nd_next :: ptr

datatype cell = Node hid_device_info | Chars string | Wide wstr

type_synonym enum_heap = "nat \<rightharpoonup> cell"

text \<open>
  The variables of \<^verbatim>\<open>hid_enumerate\<close>. \<open>el_brk\<close> is the next address \<^verbatim>\<open>malloc\<close> gives; a freed
  address is not given again, so that an access to it shows.
\<close>

record enum_list =
  el_heap :: enum_heap
  el_brk :: nat
  el_root :: ptr
  el_cur :: ptr
  el_prev :: ptr

definition el_start :: "enum_heap \<Rightarrow> nat \<Rightarrow> enum_list" where
  "el_start h n = \<lparr>el_heap = h, el_brk = n, el_root = None, el_cur = None, el_prev = None\<rparr>"

definition el_alloc :: "cell \<Rightarrow> enum_list \<Rightarrow> nat \<times> enum_list" where
  "el_alloc c st = (el_brk st, st\<lparr>el_heap := (el_heap st)(el_brk st \<mapsto> c), el_brk := Suc (el_brk st)\<rparr>)"

text \<open>A write to fields of \<^verbatim>\<open>*p\<close>.\<close>

definition el_update :: "ptr \<Rightarrow> (hid_device_info \<Rightarrow> hid_device_info) \<Rightarrow> enum_list \<Rightarrow> enum_list res" where
  "el_update p f st =
     (case p of
        None \<Rightarrow> Inl (UB Null_Pointer)
      | Some a \<Rightarrow>
          (case el_heap st a of
             Some (Node n) \<Rightarrow> Inr (st\<lparr>el_heap := (el_heap st)(a \<mapsto> Node (f n))\<rparr>)
           | _ \<Rightarrow> Inl (UB Use_After_Free)))"

text \<open>\<^verbatim>\<open>free\<close>, which accepts a null pointer, and a sequence of calls of it.\<close>

definition c_free :: "ptr \<Rightarrow> enum_heap \<Rightarrow> enum_heap res" where
  "c_free p h =
     (case p of
        None \<Rightarrow> Inr h
      | Some a \<Rightarrow> if h a = None then Inl (UB Use_After_Free) else Inr (h(a := None)))"

fun free_all :: "ptr list \<Rightarrow> enum_heap \<Rightarrow> enum_heap res" where
  "free_all [] h = Inr h"
| "free_all (p # ps) h = bind_res (c_free p h) (free_all ps)"

section \<open>Building the list\<close>

definition calloc_node :: hid_device_info where
  "calloc_node = \<lparr>nd_path = None, nd_vendor_id = 0, nd_product_id = 0, nd_serial_number = None,
     nd_release_number = 0, nd_manufacturer_string = None, nd_product_string = None, nd_usage_page = 0,
     nd_usage = 0, nd_interface_number = 0, nd_next = None\<rparr>"

text \<open>A new record at the end of the list.\<close>

definition el_push :: "enum_list \<Rightarrow> enum_list res" where
  "el_push st =
     (let (tmp, st1) = el_alloc (Node calloc_node) st in
      bind_res
        (case el_cur st1 of
           Some _ \<Rightarrow> el_update (el_cur st1) (\<lambda>n. n\<lparr>nd_next := Some tmp\<rparr>) st1
         | None \<Rightarrow> Inr (st1\<lparr>el_root := Some tmp\<rparr>))
        (\<lambda>st2. Inr (st2\<lparr>el_prev := el_cur st2, el_cur := Some tmp\<rparr>)))"

text \<open>A string field of the current record: a copy, or null.\<close>

definition el_text :: "(ptr \<Rightarrow> hid_device_info \<Rightarrow> hid_device_info) \<Rightarrow> cell option \<Rightarrow> enum_list \<Rightarrow> enum_list res" where
  "el_text set_field text st =
     (case text of
        None \<Rightarrow> el_update (el_cur st) (set_field None) st
      | Some c \<Rightarrow> (let (p, st1) = el_alloc c st in el_update (el_cur st1) (set_field (Some p)) st1))"

text \<open>The record up to the branches on the bus: path, ids and serial number.\<close>

definition el_begin :: "dev_info \<Rightarrow> enum_list \<Rightarrow> enum_list res" where
  "el_begin d st =
     bind_res (el_push st) (\<lambda>st.
     bind_res (el_update (el_cur st) (\<lambda>n. n\<lparr>nd_next := None\<rparr>) st) (\<lambda>st.
     bind_res (el_text (\<lambda>p n. n\<lparr>nd_path := p\<rparr>) (map_option Chars (di_path d)) st) (\<lambda>st.
     bind_res (el_update (el_cur st)
       (\<lambda>n. n\<lparr>nd_vendor_id := di_vendor_id d, nd_product_id := di_product_id d\<rparr>) st) (\<lambda>st.
     bind_res (el_text (\<lambda>p n. n\<lparr>nd_serial_number := p\<rparr>) (map_option Wide (di_serial_number d)) st) (\<lambda>st.
       el_update (el_cur st) (\<lambda>n. n\<lparr>nd_release_number := 0, nd_interface_number := - 1\<rparr>) st)))))"

text \<open>The fields that depend on the bus; the linux backend leaves the usage fields at 0.\<close>

definition el_finish :: "dev_info \<Rightarrow> enum_list \<Rightarrow> enum_list res" where
  "el_finish d st =
     bind_res (el_text (\<lambda>p n. n\<lparr>nd_manufacturer_string := p\<rparr>) (map_option Wide (di_manufacturer_string d)) st) (\<lambda>st.
     bind_res (el_text (\<lambda>p n. n\<lparr>nd_product_string := p\<rparr>) (map_option Wide (di_product_string d)) st) (\<lambda>st.
       el_update (el_cur st) (\<lambda>n. n\<lparr>nd_release_number := di_release_number d,
         nd_interface_number := di_interface_number d\<rparr>) st))"

text \<open>A USB record without a parent device is freed and taken off the list.\<close>

definition el_unlink :: "enum_list \<Rightarrow> enum_list res" where
  "el_unlink st =
     (case el_cur st of
        None \<Rightarrow> Inl (UB Null_Pointer)
      | Some a \<Rightarrow>
          (case el_heap st a of
             Some (Node n) \<Rightarrow>
               bind_res (free_all [nd_serial_number n, nd_path n, Some a] (el_heap st)) (\<lambda>h.
                 let st = st\<lparr>el_heap := h\<rparr> in
                 case el_prev st of
                   Some _ \<Rightarrow>
                     bind_res (el_update (el_prev st) (\<lambda>n. n\<lparr>nd_next := None\<rparr>) st)
                       (\<lambda>st. Inr (st\<lparr>el_cur := el_prev st\<rparr>))
                 | None \<Rightarrow> Inr (st\<lparr>el_root := None, el_cur := None\<rparr>))
           | _ \<Rightarrow> Inl (UB Use_After_Free)))"

text \<open>What the loop does with a node that matches: it keeps its record, or begins and drops it.\<close>

datatype enum_event = Kept dev_info | Dropped dev_info

fun el_event :: "enum_event \<Rightarrow> enum_list \<Rightarrow> enum_list res" where
  "el_event (Kept d) st = bind_res (el_begin d st) (el_finish d)"
| "el_event (Dropped d) st = bind_res (el_begin d st) el_unlink"

fun el_build :: "enum_event list \<Rightarrow> enum_list \<Rightarrow> enum_list res" where
  "el_build [] st = Inr st"
| "el_build (e # es) st = bind_res (el_event e st) (el_build es)"

fun kept :: "enum_event list \<Rightarrow> dev_info list" where
  "kept [] = []"
| "kept (Kept d # es) = d # kept es"
| "kept (Dropped d # es) = kept es"

section \<open>Freeing and owning\<close>

partial_function (option) hid_free_enumeration :: "enum_heap \<Rightarrow> ptr \<Rightarrow> enum_heap res option" where
  "hid_free_enumeration h d =
     (case d of
        None \<Rightarrow> Some (Inr h)
      | Some a \<Rightarrow>
          (case h a of
             Some (Node n) \<Rightarrow>
               (case free_all [nd_path n, nd_serial_number n, nd_manufacturer_string n, nd_product_string n, Some a] h of
                  Inl e \<Rightarrow> Some (Inl e)
                | Inr h' \<Rightarrow> hid_free_enumeration h' (nd_next n))
           | _ \<Rightarrow> Some (Inl (UB Use_After_Free))))"

text \<open>The deleter of the \<^verbatim>\<open>unique_ptr\<close> in a \<^verbatim>\<open>hidpp_device_info\<close>.\<close>

definition hid_device_info_deleter :: "nat \<Rightarrow> enum_heap \<Rightarrow> enum_heap res" where
  "hid_device_info_deleter a h =
     (case h a of
        Some (Node n) \<Rightarrow>
          free_all [nd_path n, nd_serial_number n, nd_manufacturer_string n, nd_product_string n, Some a] h
      | _ \<Rightarrow> Inl (UB Use_After_Free))"

text \<open>The loop of \<^verbatim>\<open>hidpp::enumerate_devices\<close>, and the end of the vector's life.\<close>

partial_function (option) wrap_nodes :: "enum_heap \<Rightarrow> nat list \<Rightarrow> ptr \<Rightarrow> nat list res option" where
  "wrap_nodes h infos current =
     (case current of
        None \<Rightarrow> Some (Inr infos)
      | Some a \<Rightarrow>
          (case h a of
             Some (Node n) \<Rightarrow> wrap_nodes h (infos @ [a]) (nd_next n)
           | _ \<Rightarrow> Some (Inl (UB Use_After_Free))))"

fun delete_infos :: "nat list \<Rightarrow> enum_heap \<Rightarrow> enum_heap res" where
  "delete_infos [] h = Inr h"
| "delete_infos (a # as) h = bind_res (hid_device_info_deleter a h) (delete_infos as)"

end
