(* ===== verification/Enum_Correct.thy ===== *)
theory Enum_Correct
  imports Enum_Heap
begin

text \<open>
  The list in memory stands for the list of its records, whatever records are taken off while it
  is built, and freeing it, or destroying the owning pointers made of it, frees every block
  once: the invariant \<open>el_inv\<close> says which blocks the list owns.
\<close>

section \<open>Segments and their blocks\<close>

fun somes :: "'a option list \<Rightarrow> 'a list" where
  "somes [] = []"
| "somes (None # ps) = somes ps"
| "somes (Some a # ps) = a # somes ps"

lemma somes_Cons: "somes (p # ps) = (case p of None \<Rightarrow> [] | Some a \<Rightarrow> [a]) @ somes ps"
  by (cases p) auto

definition node_ptrs :: "hid_device_info \<Rightarrow> ptr list" where
  "node_ptrs n = [nd_path n, nd_serial_number n, nd_manufacturer_string n, nd_product_string n]"

definition blocks :: "nat \<times> hid_device_info \<Rightarrow> nat list" where
  "blocks x = somes (node_ptrs (snd x)) @ [fst x]"

definition owned :: "(nat \<times> hid_device_info) list \<Rightarrow> nat list" where
  "owned xs = concat (map blocks xs)"

lemma owned_simps [simp]: "owned [] = []" "owned (x # xs) = blocks x @ owned xs" "owned (xs @ ys) = owned xs @ owned ys"
  by (simp_all add: owned_def)

lemma fst_in_owned: "x \<in> set xs \<Longrightarrow> fst x \<in> set (owned xs)"
  by (induction xs) (auto simp: blocks_def)

fun seg :: "enum_heap \<Rightarrow> ptr \<Rightarrow> (nat \<times> hid_device_info) list \<Rightarrow> ptr \<Rightarrow> bool" where
  "seg h p [] q \<longleftrightarrow> p = q"
| "seg h p (x # xs) q \<longleftrightarrow> p = Some (fst x) \<and> h (fst x) = Some (Node (snd x)) \<and> seg h (nd_next (snd x)) xs q"

lemma seg_append: "seg h p (xs @ ys) q \<longleftrightarrow> (\<exists>r. seg h p xs r \<and> seg h r ys q)"
  by (induction xs arbitrary: p) auto

lemma seg_cong: "(\<And>x. x \<in> set xs \<Longrightarrow> h (fst x) = h' (fst x)) \<Longrightarrow> seg h p xs q = seg h' p xs q"
  by (induction xs arbitrary: p) auto

section \<open>Freeing\<close>

lemma restrict_map_UNIV [simp]: "h |` UNIV = h"
  by (simp add: restrict_map_def)

lemma free_all_somes:
  "distinct (somes ps) \<Longrightarrow> set (somes ps) \<subseteq> dom h \<Longrightarrow> free_all ps h = Inr (h |` (- set (somes ps)))"
proof (induction ps arbitrary: h rule: somes.induct)
  case (2 ps)
  then show ?case by (simp add: c_free_def)
next
  case (3 a ps)
  have "free_all ps (h(a := None)) = Inr (h(a := None) |` (- set (somes ps)))"
    by (rule "3.IH") (use "3.prems" in auto)
  moreover have "h(a := None) |` (- set (somes ps)) = h |` (- set (somes (Some a # ps)))"
    by (rule ext) (auto simp: restrict_map_def)
  ultimately show ?case using "3.prems" by (auto simp: c_free_def)
qed simp

lemma free_node:
  assumes "distinct (blocks x)" "set (blocks x) \<subseteq> dom h"
  shows "free_all [nd_path (snd x), nd_serial_number (snd x), nd_manufacturer_string (snd x),
      nd_product_string (snd x), Some (fst x)] h = Inr (h |` (- set (blocks x)))"
proof -
  have "somes [nd_path (snd x), nd_serial_number (snd x), nd_manufacturer_string (snd x),
      nd_product_string (snd x), Some (fst x)] = blocks x"
    by (simp add: blocks_def node_ptrs_def somes_Cons)
  then show ?thesis using free_all_somes assms by metis
qed

text \<open>What is left of the list and of the rest of memory when the first record is freed.\<close>

lemma seg_tail:
  assumes "seg h p (x # xs) None" "distinct (owned (x # xs))" "set (owned (x # xs)) \<subseteq> dom h"
  defines "h' \<equiv> h |` (- set (blocks x))"
  shows "seg h' (nd_next (snd x)) xs None" and "set (owned xs) \<subseteq> dom h'"
    and "h' |` (- set (owned xs)) = h |` (- set (owned (x # xs)))"
proof -
  have d: "set (owned xs) \<inter> set (blocks x) = {}" using assms(2) by auto
  show "seg h' (nd_next (snd x)) xs None"
    using assms(1) seg_cong [of xs h' h] d fst_in_owned
    by (force simp: h'_def restrict_map_def)
  show "set (owned xs) \<subseteq> dom h'" using assms(3) d by (auto simp: h'_def)
  show "h' |` (- set (owned xs)) = h |` (- set (owned (x # xs)))"
    by (rule ext) (auto simp: h'_def restrict_map_def)
qed

lemma free_enumeration_seg:
  assumes "seg h p xs None" "distinct (owned xs)" "set (owned xs) \<subseteq> dom h"
  shows "hid_free_enumeration h p = Some (Inr (h |` (- set (owned xs))))"
  using assms
proof (induction xs arbitrary: h p)
  case Nil
  then show ?case by (simp add: hid_free_enumeration.simps)
next
  case (Cons x xs)
  note t = seg_tail [OF Cons.prems]
  have "free_all [nd_path (snd x), nd_serial_number (snd x), nd_manufacturer_string (snd x),
      nd_product_string (snd x), Some (fst x)] h = Inr (h |` (- set (blocks x)))"
    by (rule free_node) (use Cons.prems in auto)
  then show ?case
    using Cons.IH [OF t(1) _ t(2)] Cons.prems t(3) by (subst hid_free_enumeration.simps) simp
qed

lemma wrap_nodes_seg:
  "seg h p xs None \<Longrightarrow> wrap_nodes h infos p = Some (Inr (infos @ map fst xs))"
proof (induction xs arbitrary: p infos)
  case Nil
  then show ?case by (simp add: wrap_nodes.simps)
next
  case (Cons x xs)
  then show ?case by (subst wrap_nodes.simps) simp
qed

lemma delete_infos_seg:
  assumes "seg h p xs None" "distinct (owned xs)" "set (owned xs) \<subseteq> dom h"
  shows "delete_infos (map fst xs) h = Inr (h |` (- set (owned xs)))"
  using assms
proof (induction xs arbitrary: h p)
  case (Cons x xs)
  note t = seg_tail [OF Cons.prems]
  have "hid_device_info_deleter (fst x) h = Inr (h |` (- set (blocks x)))"
    using free_node [of x h] Cons.prems by (simp add: hid_device_info_deleter_def)
  then show ?case using Cons.IH [OF t(1) _ t(2)] Cons.prems t(3) by simp
qed simp

section \<open>The invariant of the list under construction\<close>

text \<open>The text a pointer of a record leads to, and the record as a value.\<close>

definition is_text :: "cell option \<Rightarrow> bool" where
  "is_text c \<longleftrightarrow> (case c of Some (Chars _) \<Rightarrow> True | Some (Wide _) \<Rightarrow> True | _ \<Rightarrow> False)"

definition chars_at :: "enum_heap \<Rightarrow> ptr \<Rightarrow> string option" where
  "chars_at h p = (case p of None \<Rightarrow> None | Some b \<Rightarrow> (case h b of Some (Chars t) \<Rightarrow> Some t | _ \<Rightarrow> None))"

definition wide_at :: "enum_heap \<Rightarrow> ptr \<Rightarrow> wstr option" where
  "wide_at h p = (case p of None \<Rightarrow> None | Some b \<Rightarrow> (case h b of Some (Wide t) \<Rightarrow> Some t | _ \<Rightarrow> None))"

definition node_view :: "enum_heap \<Rightarrow> hid_device_info \<Rightarrow> dev_info" where
  "node_view h n =
     \<lparr>di_path = chars_at h (nd_path n), di_vendor_id = nd_vendor_id n, di_product_id = nd_product_id n,
      di_serial_number = wide_at h (nd_serial_number n), di_release_number = nd_release_number n,
      di_manufacturer_string = wide_at h (nd_manufacturer_string n),
      di_product_string = wide_at h (nd_product_string n), di_usage_page = nd_usage_page n,
      di_usage = nd_usage n, di_interface_number = nd_interface_number n\<rparr>"

text \<open>
  From a memory \<open>h0\<close> with nothing at \<open>b0\<close> and above: the root leads through the records \<open>xs\<close>, their
  blocks are distinct, new, and all there is besides \<open>h0\<close>, and \<^verbatim>\<open>cur_dev\<close> is the last record.
\<close>

definition last_node :: "(nat \<times> hid_device_info) list \<Rightarrow> ptr" where
  "last_node xs = (if xs = [] then None else Some (fst (last xs)))"

definition el_inv :: "enum_heap \<Rightarrow> nat \<Rightarrow> (nat \<times> hid_device_info) list \<Rightarrow> enum_list \<Rightarrow> bool" where
  "el_inv h0 b0 xs st \<longleftrightarrow>
     seg (el_heap st) (el_root st) xs None \<and> distinct (owned xs) \<and>
     set (owned xs) \<subseteq> {b0..<el_brk st} \<and> b0 \<le> el_brk st \<and>
     (\<forall>a. a \<notin> set (owned xs) \<longrightarrow> el_heap st a = h0 a) \<and> (\<forall>a \<ge> b0. h0 a = None) \<and>
     (\<forall>x \<in> set xs. \<forall>b \<in> set (somes (node_ptrs (snd x))). is_text (el_heap st b)) \<and>
     el_cur st = last_node xs"

lemma last_node_snoc [simp]: "last_node [] = None" "last_node (xs @ [x]) = Some (fst x)"
  by (simp_all add: last_node_def)

lemma el_inv_fresh: "el_inv h0 b0 xs st \<Longrightarrow> el_brk st \<le> b \<Longrightarrow> b \<notin> set (owned xs) \<and> el_heap st b = None"
  unfolding el_inv_def by (metis atLeastLessThan_iff le_trans linorder_not_less subsetD)

lemma el_inv_last:
  assumes "el_inv h0 b0 (ys @ [(a, n)]) st"
  shows "el_heap st a = Some (Node n)" "el_cur st = Some a" "nd_next n = None" "a \<notin> set (owned ys)"
    "a \<notin> set (somes (node_ptrs n))" "a < el_brk st"
  using assms by (auto simp: el_inv_def seg_append blocks_def)

text \<open>
  The current record gets a field that may point to a new block \<open>b\<close>, which holds a text; nothing
  else changes. The other writes to a record are the case without a block.
\<close>

lemma el_inv_store:
  assumes i: "el_inv h0 b0 (ys @ [(a, n)]) st"
    and next0: "nd_next n' = None"
    and ptrs: "mset (somes (node_ptrs n')) = mset new + mset (somes (node_ptrs n))"
    and new: "new = [] \<and> k = 0 \<and> h = el_heap st \<or> new = [el_brk st] \<and> k = 1 \<and> h = (el_heap st)(el_brk st \<mapsto> c) \<and> is_text (Some c)"
  shows "el_inv h0 b0 (ys @ [(a, n')]) (st\<lparr>el_heap := h(a \<mapsto> Node n'), el_brk := el_brk st + k\<rparr>)"
proof -
  let ?st = "st\<lparr>el_heap := h(a \<mapsto> Node n'), el_brk := el_brk st + k\<rparr>"
  note l = el_inv_last [OF i]
  have fresh: "b \<notin> set (owned (ys @ [(a, n)]))" "el_heap st b = None" if "el_brk st \<le> b" for b
    using el_inv_fresh [OF i that] by auto
  have h: "h b = el_heap st b" if "b \<noteq> el_brk st" for b using new that by auto
  have s: "set (somes (node_ptrs n')) = set new \<union> set (somes (node_ptrs n))"
    using mset_eq_setD [OF ptrs [folded mset_append]] by simp
  have o: "mset (owned (ys @ [(a, n')])) = mset new + mset (owned (ys @ [(a, n)]))"
    using ptrs by (simp add: blocks_def)
  then have so: "set (owned (ys @ [(a, n')])) = set new \<union> set (owned (ys @ [(a, n)]))"
    using mset_eq_setD [OF o [folded mset_append]] by simp
  have "distinct (new @ owned (ys @ [(a, n)]))"
    using i fresh(1) new by (auto simp: el_inv_def)
  then have d: "distinct (owned (ys @ [(a, n')]))"
    using mset_eq_imp_distinct_iff [OF o [folded mset_append]] by simp
  have seg: "seg (el_heap ?st) (el_root ?st) (ys @ [(a, n')]) None"
  proof -
    obtain r where r: "seg (el_heap st) (el_root st) ys r" "r = Some a"
      using i by (auto simp: el_inv_def seg_append)
    have "el_heap ?st (fst x) = el_heap st (fst x)" if "x \<in> set ys" for x
    proof -
      have "fst x \<noteq> a" "fst x \<noteq> el_brk st"
        using fst_in_owned [OF that] l(4) fresh(1) [of "el_brk st"] by auto
      then show ?thesis using h by simp
    qed
    then have "seg (el_heap ?st) (el_root st) ys r" using r(1) seg_cong [of ys "el_heap ?st" "el_heap st" "el_root st" r] by blast
    then show ?thesis using r(2) next0 by (auto simp: seg_append)
  qed
  have sub: "set (owned (ys @ [(a, n')])) \<subseteq> {b0..<el_brk ?st}"
    using i so new by (auto simp: el_inv_def)
  have rest: "\<forall>b. b \<notin> set (owned (ys @ [(a, n')])) \<longrightarrow> el_heap ?st b = h0 b"
    using i so new by (auto simp: el_inv_def blocks_def)
  have texts: "is_text (el_heap ?st b)"
    if x: "x \<in> set (ys @ [(a, n')])" "b \<in> set (somes (node_ptrs (snd x)))" for x b
  proof (cases "b \<in> set new")
    case True
    then show ?thesis using new l(6) by (auto simp: is_text_def)
  next
    case False
    then obtain y where y: "y \<in> set (ys @ [(a, n)])" "b \<in> set (somes (node_ptrs (snd y)))"
      using x s False that [of "(a, n)"] that [of x] by (cases "x = (a, n')") auto
    then have t: "is_text (el_heap st b)" using i by (auto simp: el_inv_def)
    then have "b \<noteq> el_brk st" "b \<noteq> a" using fresh(2) l(1) by (auto simp: is_text_def)
    then show ?thesis using t h by simp
  qed
  show ?thesis
    unfolding el_inv_def using seg d sub rest texts i l(2) by (auto simp: el_inv_def)
qed

section \<open>The steps keep it\<close>

definition same_texts :: "enum_list \<Rightarrow> enum_list \<Rightarrow> bool" where
  "same_texts st st' \<longleftrightarrow> (\<forall>b. is_text (el_heap st b) \<longrightarrow> el_heap st' b = el_heap st b)"

lemma same_texts_trans: "same_texts st st1 \<Longrightarrow> same_texts st1 st2 \<Longrightarrow> same_texts st st2"
  by (simp add: same_texts_def)

lemma node_view_same:
  assumes "\<forall>b \<in> set (somes (node_ptrs n)). is_text (el_heap st b)" "same_texts st st'"
  shows "node_view (el_heap st') n = node_view (el_heap st) n"
proof -
  have "el_heap st' b = el_heap st b" if "Some b \<in> set (node_ptrs n)" for b
  proof -
    have "b \<in> set (somes (node_ptrs n))" using that by (auto simp: node_ptrs_def somes_Cons split: option.splits)
    then show ?thesis using assms by (simp add: same_texts_def)
  qed
  then show ?thesis
    by (auto simp: node_view_def node_ptrs_def chars_at_def wide_at_def split: option.splits)
qed

lemma views_same:
  assumes "el_inv h0 b0 xs st" "same_texts st st'"
  shows "map (\<lambda>x. node_view (el_heap st') (snd x)) xs = map (\<lambda>x. node_view (el_heap st) (snd x)) xs"
  using assms node_view_same by (auto simp: el_inv_def)

lemma el_update_inv:
  assumes i: "el_inv h0 b0 (ys @ [(a, n)]) st" and f: "node_ptrs (f n) = node_ptrs n" "nd_next (f n) = None"
  shows "\<exists>st'. el_update (el_cur st) f st = Inr st' \<and> el_inv h0 b0 (ys @ [(a, f n)]) st' \<and>
    same_texts st st' \<and> el_prev st' = el_prev st"
proof -
  note l = el_inv_last [OF i]
  let ?st = "st\<lparr>el_heap := (el_heap st)(a \<mapsto> Node (f n))\<rparr>"
  have "el_inv h0 b0 (ys @ [(a, f n)]) ?st"
    using el_inv_store [OF i f(2), of "[]" 0 "el_heap st"] f(1) by simp
  moreover have "same_texts st ?st" using l(1) by (simp add: same_texts_def is_text_def)
  ultimately show ?thesis using l(1,2) by (simp add: el_update_def)
qed

lemma el_text_inv:
  assumes i: "el_inv h0 b0 (ys @ [(a, n)]) st"
    and f: "\<And>p. mset (somes (node_ptrs (f p n))) = mset (somes [p]) + mset (somes (node_ptrs n))"
      "\<And>p. nd_next (f p n) = None"
    and t: "text = None \<or> is_text text"
  shows "\<exists>st' p. el_text f text st = Inr st' \<and> el_inv h0 b0 (ys @ [(a, f p n)]) st' \<and>
    same_texts st st' \<and> el_prev st' = el_prev st \<and>
    (case text of None \<Rightarrow> p = None | Some c \<Rightarrow> \<exists>b. p = Some b \<and> el_heap st' b = Some c)"
proof (cases "text")
  case None
  note l = el_inv_last [OF i]
  let ?st = "st\<lparr>el_heap := (el_heap st)(a \<mapsto> Node (f None n))\<rparr>"
  have "el_inv h0 b0 (ys @ [(a, f None n)]) ?st"
    using el_inv_store [OF i f(2), of None "[]" 0 "el_heap st"] f(1) [of None] by simp
  moreover have "same_texts st ?st" using l(1) by (simp add: same_texts_def is_text_def)
  ultimately show ?thesis using l(1,2) None by (auto simp: el_text_def el_update_def)
next
  case (Some c)
  note l = el_inv_last [OF i]
  let ?b = "el_brk st" and ?h = "(el_heap st)(el_brk st \<mapsto> c)"
  let ?st = "st\<lparr>el_heap := ?h(a \<mapsto> Node (f (Some ?b) n)), el_brk := ?b + 1\<rparr>"
  have fresh: "el_heap st ?b = None" using el_inv_fresh [OF i] by simp
  have "el_inv h0 b0 (ys @ [(a, f (Some ?b) n)]) ?st"
    using el_inv_store [OF i f(2), of "Some ?b" "[?b]" 1 ?h c] f(1) [of "Some ?b"] t Some by simp
  moreover have "same_texts st ?st" using l(1) fresh by (simp add: same_texts_def is_text_def)
  moreover have "el_text f text st = Inr ?st"
    using l(1,2,6) Some by (simp add: el_text_def el_alloc_def el_update_def)
  ultimately show ?thesis using l(6) Some by (intro exI [of _ ?st] exI [of _ "Some ?b"]) simp
qed

text \<open>A push links the last record to the new one; taking the new one off undoes it.\<close>

definition link :: "nat \<Rightarrow> (nat \<times> hid_device_info) list \<Rightarrow> (nat \<times> hid_device_info) list" where
  "link a xs = (if xs = [] then [] else butlast xs @ [(fst (last xs), (snd (last xs))\<lparr>nd_next := Some a\<rparr>)])"

lemma link_simps [simp]: "link a [] = []" "link a (ys @ [(c, m)]) = ys @ [(c, m\<lparr>nd_next := Some a\<rparr>)]"
  by (simp_all add: link_def)

lemma node_ptrs_next [simp]: "node_ptrs (n\<lparr>nd_next := q\<rparr>) = node_ptrs n" "node_view h (n\<lparr>nd_next := q\<rparr>) = node_view h n"
  by (simp_all add: node_ptrs_def node_view_def)

lemma node_ptrs_calloc [simp]: "node_ptrs calloc_node = [None, None, None, None]" "nd_next calloc_node = None"
  by (simp_all add: node_ptrs_def calloc_node_def)

lemma el_push_inv:
  assumes i: "el_inv h0 b0 xs st"
  shows "\<exists>st' a. el_push st = Inr st' \<and> el_inv h0 b0 (link a xs @ [(a, calloc_node)]) st' \<and>
    same_texts st st' \<and> el_prev st' = last_node xs"
proof (cases xs rule: rev_cases)
  case Nil
  have fresh: "el_heap st (el_brk st) = None" using el_inv_fresh [OF i] by simp
  let ?st = "st\<lparr>el_heap := (el_heap st)(el_brk st \<mapsto> Node calloc_node), el_brk := Suc (el_brk st),
    el_root := Some (el_brk st), el_prev := None, el_cur := Some (el_brk st)\<rparr>"
  have "el_push st = Inr ?st"
    using i Nil by (simp add: el_push_def el_alloc_def el_inv_def)
  moreover have "el_inv h0 b0 [(el_brk st, calloc_node)] ?st"
    using i Nil by (auto simp: el_inv_def blocks_def last_node_def)
  moreover have "same_texts st ?st" using fresh by (simp add: same_texts_def is_text_def)
  ultimately show ?thesis using Nil by (intro exI [of _ ?st] exI [of _ "el_brk st"]) simp
next
  case (snoc ys x)
  obtain c m where x: "x = (c, m)" by fastforce
  let ?a = "el_brk st"
  note i' = i [unfolded snoc x]
  note l = el_inv_last [OF i']
  have fresh: "?a \<notin> set (owned (ys @ [(c, m)]))" "el_heap st ?a = None" using el_inv_fresh [OF i'] by auto
  let ?st = "st\<lparr>el_heap := (el_heap st)(?a \<mapsto> Node calloc_node, c \<mapsto> Node (m\<lparr>nd_next := Some ?a\<rparr>)),
    el_brk := Suc ?a, el_prev := Some c, el_cur := Some ?a\<rparr>"
  have ca: "c \<noteq> ?a" using l(6) by simp
  have p: "el_push st = Inr ?st"
    using l(1,2) ca by (simp add: el_push_def el_alloc_def el_update_def)
  have o: "owned (ys @ [(c, m\<lparr>nd_next := Some ?a\<rparr>), (?a, calloc_node)]) = owned (ys @ [(c, m)]) @ [?a]"
    by (simp add: blocks_def)
  have "seg (el_heap ?st) (el_root ?st) (ys @ [(c, m\<lparr>nd_next := Some ?a\<rparr>), (?a, calloc_node)]) None"
  proof -
    have r: "seg (el_heap st) (el_root st) ys (Some c)" using i' by (auto simp: el_inv_def seg_append)
    have "el_heap ?st (fst x) = el_heap st (fst x)" if "x \<in> set ys" for x
      using fst_in_owned [OF that] l(4) fresh(1) by auto
    then have "seg (el_heap ?st) (el_root ?st) ys (Some c)"
      using r seg_cong [of ys "el_heap ?st" "el_heap st" "el_root st" "Some c"] by auto
    then show ?thesis using ca by (auto simp: seg_append)
  qed
  moreover have "is_text (el_heap ?st b)"
    if "y \<in> set (ys @ [(c, m\<lparr>nd_next := Some ?a\<rparr>), (?a, calloc_node)])" "b \<in> set (somes (node_ptrs (snd y)))" for y b
  proof -
    have t: "is_text (el_heap st b)" using that i' by (auto simp: el_inv_def)
    then have "b \<noteq> c" "b \<noteq> ?a" using l(1) fresh(2) by (auto simp: is_text_def)
    then show ?thesis using t by simp
  qed
  ultimately have "el_inv h0 b0 (ys @ [(c, m\<lparr>nd_next := Some ?a\<rparr>), (?a, calloc_node)]) ?st"
    using i' fresh(1) l(4) unfolding el_inv_def o
    by (auto simp: blocks_def last_node_def)
  moreover have "same_texts st ?st" using l(1) fresh(2) by (simp add: same_texts_def is_text_def)
  ultimately show ?thesis using p snoc x by (intro exI [of _ ?st] exI [of _ ?a]) simp
qed

text \<open>The pointer \<open>p\<close> stands for the text \<open>t\<close>, and goes on to do so.\<close>

definition points_to :: "enum_list \<Rightarrow> ptr \<Rightarrow> cell option \<Rightarrow> bool" where
  "points_to st p t \<longleftrightarrow> (case t of None \<Rightarrow> p = None | Some c \<Rightarrow> \<exists>b. p = Some b \<and> el_heap st b = Some c)"

lemma points_to_same: "points_to st p t \<Longrightarrow> t = None \<or> is_text t \<Longrightarrow> same_texts st st' \<Longrightarrow> points_to st' p t"
  by (auto simp: points_to_def same_texts_def split: option.splits)

lemma points_to_view:
  "points_to st p (map_option Chars t) \<Longrightarrow> chars_at (el_heap st) p = t"
  "points_to st p (map_option Wide u) \<Longrightarrow> wide_at (el_heap st) p = u"
  by (auto simp: points_to_def chars_at_def wide_at_def split: option.splits)

lemma is_text_simps [simp]: "is_text (Some (Chars t))" "is_text (Some (Wide u))"
  by (simp_all add: is_text_def)

lemma text_ok:
  "map_option Chars t = None \<or> is_text (map_option Chars t)"
  "map_option Wide u = None \<or> is_text (map_option Wide u)"
  by (cases t; simp) (cases u; simp)

lemma el_text_points:
  assumes "el_inv h0 b0 (ys @ [(a, n)]) st"
    and "\<And>p. mset (somes (node_ptrs (f p n))) = mset (somes [p]) + mset (somes (node_ptrs n))"
    and "\<And>p. nd_next (f p n) = None" and "t = None \<or> is_text t"
  obtains st' p where "el_text f t st = Inr st'" "el_inv h0 b0 (ys @ [(a, f p n)]) st'"
    "same_texts st st'" "el_prev st' = el_prev st" "points_to st' p t"
  using el_text_inv [of h0 b0 ys a n st f t, OF assms] unfolding points_to_def by blast

lemma el_begin_inv:
  assumes "el_inv h0 b0 xs st"
  obtains st' a n where "el_begin d st = Inr st'" "el_inv h0 b0 (link a xs @ [(a, n)]) st'"
    "same_texts st st'" "el_prev st' = last_node xs"
    "nd_manufacturer_string n = None" "nd_product_string n = None" "nd_usage_page n = 0" "nd_usage n = 0"
    "nd_vendor_id n = di_vendor_id d" "nd_product_id n = di_product_id d"
    "points_to st' (nd_path n) (map_option Chars (di_path d))"
    "points_to st' (nd_serial_number n) (map_option Wide (di_serial_number d))"
proof -
  obtain st1 a where 1: "el_push st = Inr st1" "el_inv h0 b0 (link a xs @ [(a, calloc_node)]) st1"
    "same_texts st st1" "el_prev st1 = last_node xs" using el_push_inv [OF assms] by blast
  obtain st2 where 2: "el_update (el_cur st1) (\<lambda>n. n\<lparr>nd_next := None\<rparr>) st1 = Inr st2"
    "el_inv h0 b0 (link a xs @ [(a, calloc_node)]) st2" "same_texts st1 st2" "el_prev st2 = el_prev st1"
    using el_update_inv [OF 1(2), of "\<lambda>n. n\<lparr>nd_next := None\<rparr>"] by (auto simp: calloc_node_def)
  obtain st3 p where 3: "el_text (\<lambda>p n. n\<lparr>nd_path := p\<rparr>) (map_option Chars (di_path d)) st2 = Inr st3"
    "el_inv h0 b0 (link a xs @ [(a, calloc_node\<lparr>nd_path := p\<rparr>)]) st3" "same_texts st2 st3"
    "el_prev st3 = el_prev st2" "points_to st3 p (map_option Chars (di_path d))"
    by (rule el_text_points [OF 2(2), of "\<lambda>p n. n\<lparr>nd_path := p\<rparr>" "map_option Chars (di_path d)", OF _ _ text_ok(1)])
      (auto simp: node_ptrs_def calloc_node_def somes_Cons)
  let ?n3 = "calloc_node\<lparr>nd_path := p, nd_vendor_id := di_vendor_id d, nd_product_id := di_product_id d\<rparr>"
  obtain st4 where 4: "el_update (el_cur st3)
      (\<lambda>n. n\<lparr>nd_vendor_id := di_vendor_id d, nd_product_id := di_product_id d\<rparr>) st3 = Inr st4"
    "el_inv h0 b0 (link a xs @ [(a, ?n3)]) st4" "same_texts st3 st4" "el_prev st4 = el_prev st3"
    using el_update_inv [OF 3(2), of "\<lambda>n. n\<lparr>nd_vendor_id := di_vendor_id d, nd_product_id := di_product_id d\<rparr>"]
    by (auto simp: node_ptrs_def calloc_node_def)
  obtain st5 q where 5: "el_text (\<lambda>p n. n\<lparr>nd_serial_number := p\<rparr>) (map_option Wide (di_serial_number d)) st4 = Inr st5"
    "el_inv h0 b0 (link a xs @ [(a, ?n3\<lparr>nd_serial_number := q\<rparr>)]) st5" "same_texts st4 st5"
    "el_prev st5 = el_prev st4" "points_to st5 q (map_option Wide (di_serial_number d))"
    by (rule el_text_points [OF 4(2), of "\<lambda>p n. n\<lparr>nd_serial_number := p\<rparr>" "map_option Wide (di_serial_number d)", OF _ _ text_ok(2)])
      (auto simp: node_ptrs_def calloc_node_def somes_Cons)
  let ?n6 = "?n3\<lparr>nd_serial_number := q, nd_release_number := 0, nd_interface_number := - 1\<rparr>"
  obtain st6 where 6: "el_update (el_cur st5) (\<lambda>n. n\<lparr>nd_release_number := 0, nd_interface_number := - 1\<rparr>) st5 = Inr st6"
    "el_inv h0 b0 (link a xs @ [(a, ?n6)]) st6" "same_texts st5 st6" "el_prev st6 = el_prev st5"
    using el_update_inv [OF 5(2), of "\<lambda>n. n\<lparr>nd_release_number := 0, nd_interface_number := - 1\<rparr>"]
    by (auto simp: node_ptrs_def calloc_node_def)
  have s: "same_texts st st6" "same_texts st3 st6"
    using 1(3) 2(3) 3(3) 4(3) 5(3) 6(3) by (meson same_texts_trans)+
  have b: "el_begin d st = Inr st6" by (simp add: el_begin_def 1(1) 2(1) 3(1) 4(1) 5(1) 6(1))
  have v: "el_prev st6 = last_node xs" using 1(4) 2(4) 3(4) 4(4) 5(4) 6(4) by simp
  have pt: "points_to st6 p (map_option Chars (di_path d))" "points_to st6 q (map_option Wide (di_serial_number d))"
    using points_to_same [OF 3(5) text_ok(1) s(2)] points_to_same [OF 5(5) text_ok(2) 6(3)] by simp_all
  show ?thesis by (rule that [OF b 6(2) s(1) v]) (use pt in \<open>simp_all add: calloc_node_def\<close>)
qed

lemma el_finish_inv:
  assumes i: "el_inv h0 b0 (ys @ [(a, n)]) st"
    and n: "nd_manufacturer_string n = None" "nd_product_string n = None" "nd_usage_page n = 0" "nd_usage n = 0"
      "nd_vendor_id n = di_vendor_id d" "nd_product_id n = di_product_id d"
      "points_to st (nd_path n) (map_option Chars (di_path d))"
      "points_to st (nd_serial_number n) (map_option Wide (di_serial_number d))"
    and d: "di_usage_page d = 0" "di_usage d = 0"
  obtains st' n' where "el_finish d st = Inr st'" "el_inv h0 b0 (ys @ [(a, n')]) st'" "same_texts st st'"
    "node_view (el_heap st') n' = d"
proof -
  have nx: "nd_next n = None" using el_inv_last [OF i] by simp
  obtain st1 p where 1: "el_text (\<lambda>p n. n\<lparr>nd_manufacturer_string := p\<rparr>) (map_option Wide (di_manufacturer_string d)) st = Inr st1"
    "el_inv h0 b0 (ys @ [(a, n\<lparr>nd_manufacturer_string := p\<rparr>)]) st1" "same_texts st st1"
    "points_to st1 p (map_option Wide (di_manufacturer_string d))"
    by (rule el_text_points [OF i, of "\<lambda>p n. n\<lparr>nd_manufacturer_string := p\<rparr>" "map_option Wide (di_manufacturer_string d)", OF _ _ text_ok(2)])
      (auto simp: node_ptrs_def n(1) nx somes_Cons)
  obtain st2 q where 2: "el_text (\<lambda>p n. n\<lparr>nd_product_string := p\<rparr>) (map_option Wide (di_product_string d)) st1 = Inr st2"
    "el_inv h0 b0 (ys @ [(a, n\<lparr>nd_manufacturer_string := p, nd_product_string := q\<rparr>)]) st2" "same_texts st1 st2"
    "points_to st2 q (map_option Wide (di_product_string d))"
    by (rule el_text_points [OF 1(2), of "\<lambda>p n. n\<lparr>nd_product_string := p\<rparr>" "map_option Wide (di_product_string d)", OF _ _ text_ok(2)])
      (auto simp: node_ptrs_def n(2) nx somes_Cons)
  let ?f = "\<lambda>n. n\<lparr>nd_release_number := di_release_number d, nd_interface_number := di_interface_number d\<rparr>"
  let ?n3 = "?f (n\<lparr>nd_manufacturer_string := p, nd_product_string := q\<rparr>)"
  obtain st3 where 3: "el_update (el_cur st2) ?f st2 = Inr st3" "el_inv h0 b0 (ys @ [(a, ?n3)]) st3" "same_texts st2 st3"
    using el_update_inv [OF 2(2), of ?f] nx by (auto simp: node_ptrs_def)
  have s: "same_texts st st3" "same_texts st1 st3" using 1(3) 2(3) 3(3) by (meson same_texts_trans)+
  have "node_view (el_heap st3) ?n3 = d"
    using points_to_view(1) [OF points_to_same [OF n(7) text_ok(1) s(1)]] points_to_view(2) [OF points_to_same [OF n(8) text_ok(2) s(1)]]
      points_to_view(2) [OF points_to_same [OF 1(4) text_ok(2) s(2)]] points_to_view(2) [OF points_to_same [OF 2(4) text_ok(2) 3(3)]]
      n d by (simp add: node_view_def)
  then show ?thesis using that 1(1) 2(1) 3 s(1) by (simp add: el_finish_def)
qed

lemma el_unlink_inv:
  assumes i: "el_inv h0 b0 (link a xs @ [(a, n)]) st" and xs: "el_inv h0 b0 xs st0"
    and n: "nd_manufacturer_string n = None" "nd_product_string n = None" and prev: "el_prev st = last_node xs"
  obtains st' where "el_unlink st = Inr st'" "el_inv h0 b0 xs st'"
    "\<And>x b. x \<in> set xs \<Longrightarrow> b \<in> set (somes (node_ptrs (snd x))) \<Longrightarrow> el_heap st' b = el_heap st b"
proof -
  note l = el_inv_last [OF i]
  let ?A = "set (blocks (a, n))" and ?ps = "[nd_serial_number n, nd_path n, Some a]"
  let ?h = "el_heap st |` (- ?A)"
  have A: "set (somes ?ps) = ?A" by (auto simp: blocks_def node_ptrs_def n somes_Cons)
  have "mset (somes ?ps) = mset (blocks (a, n))" by (simp add: blocks_def node_ptrs_def n somes_Cons)
  then have d: "distinct (somes ?ps)" using i mset_eq_imp_distinct_iff by (auto simp: el_inv_def)
  have dom: "?A \<subseteq> dom (el_heap st)"
    using i l(1) by (auto simp: el_inv_def blocks_def is_text_def split: option.splits)
  have f: "free_all ?ps (el_heap st) = Inr ?h" using free_all_somes [OF d] A dom by simp
  have new: "h0 b = None" if "b \<in> ?A" for b using i that by (auto simp: el_inv_def)
  show ?thesis
  proof (cases xs rule: rev_cases)
    case Nil
    let ?st = "st\<lparr>el_heap := ?h, el_root := None, el_cur := None\<rparr>"
    have "el_unlink st = Inr ?st"
      using l(1,2) f Nil prev by (simp add: el_unlink_def del: free_all.simps)
    moreover have "el_inv h0 b0 xs ?st"
      using i new Nil by (auto simp: el_inv_def restrict_map_def)
    ultimately show ?thesis using that Nil by simp
  next
    case (snoc ys x)
    obtain c m where x: "x = (c, m)" by fastforce
    let ?m = "m\<lparr>nd_next := Some a\<rparr>"
    let ?st = "st\<lparr>el_heap := ?h(c \<mapsto> Node m), el_cur := Some c\<rparr>"
    have m: "nd_next m = None" using el_inv_last [OF xs [unfolded snoc x]] by simp
    have i': "el_inv h0 b0 (ys @ [(c, ?m), (a, n)]) st" using i snoc x by simp
    have c: "el_heap st c = Some (Node ?m)" "c \<notin> ?A"
      using i' by (auto simp: el_inv_def seg_append blocks_def)
    have nt: "c \<notin> set (somes (node_ptrs (snd y)))" if "y \<in> set xs" for y
      using i' that c(1) snoc x by (force simp: el_inv_def is_text_def)
    have disj: "b \<notin> ?A" "b \<noteq> c \<or> b = c" if "b \<in> set (owned xs)" for b
      using i' that snoc x by (auto simp: el_inv_def blocks_def)
    have "?m\<lparr>nd_next := None\<rparr> = m" using m by simp
    then have u: "el_unlink st = Inr ?st"
      using l(1,2) f snoc x prev c
      by (simp add: el_unlink_def el_update_def restrict_map_def del: free_all.simps)
    have "seg (el_heap ?st) (el_root ?st) xs None"
    proof -
      have r: "seg (el_heap st) (el_root st) ys (Some c)" using i' by (auto simp: el_inv_def seg_append)
      have "el_heap ?st (fst y) = el_heap st (fst y)" if "y \<in> set ys" for y
      proof -
        have "fst y \<noteq> c" using i' fst_in_owned [OF that] by (auto simp: el_inv_def blocks_def)
        moreover have "fst y \<notin> ?A" using disj(1) fst_in_owned [OF that] snoc by simp
        ultimately show ?thesis by simp
      qed
      then have "seg (el_heap ?st) (el_root ?st) ys (Some c)"
        using r seg_cong [of ys "el_heap ?st" "el_heap st" "el_root st" "Some c"] by auto
      then show ?thesis using m snoc x by (auto simp: seg_append)
    qed
    moreover have o: "owned (ys @ [(c, ?m), (a, n)]) = owned xs @ blocks (a, n)"
      using snoc x by (simp add: blocks_def)
    moreover have same: "el_heap ?st b = el_heap st b" if "y \<in> set xs" "b \<in> set (somes (node_ptrs (snd y)))" for y b
    proof -
      have "b \<in> set (owned xs)" using that by (force simp: owned_def blocks_def)
      then show ?thesis using disj(1) nt [OF that(1)] that(2) by auto
    qed
    moreover have "is_text (el_heap ?st b)" if "y \<in> set xs" "b \<in> set (somes (node_ptrs (snd y)))" for y b
      using same [OF that] i' that snoc x by (auto simp: el_inv_def)
    moreover have "c \<in> set (owned xs)" using snoc x by (simp add: blocks_def)
    ultimately have "el_inv h0 b0 xs ?st"
      using i' new snoc x unfolding el_inv_def o
      by (auto simp: restrict_map_def last_node_def)
    then show ?thesis using that u same by blast
  qed
qed

section \<open>The whole list\<close>

lemma el_event_kept:
  assumes i: "el_inv h0 b0 xs st" and d: "di_usage_page d = 0" "di_usage d = 0"
  shows "\<exists>st' ys. el_event (Kept d) st = Inr st' \<and> el_inv h0 b0 ys st' \<and>
    map (\<lambda>x. node_view (el_heap st') (snd x)) ys = map (\<lambda>x. node_view (el_heap st) (snd x)) xs @ [d]"
proof -
  obtain st1 a n where 1: "el_begin d st = Inr st1" "el_inv h0 b0 (link a xs @ [(a, n)]) st1" "same_texts st st1"
    and n: "nd_manufacturer_string n = None" "nd_product_string n = None" "nd_usage_page n = 0" "nd_usage n = 0"
    "nd_vendor_id n = di_vendor_id d" "nd_product_id n = di_product_id d"
    "points_to st1 (nd_path n) (map_option Chars (di_path d))"
    "points_to st1 (nd_serial_number n) (map_option Wide (di_serial_number d))"
    using el_begin_inv [OF i, of d] by metis
  obtain st2 n' where 2: "el_finish d st1 = Inr st2" "el_inv h0 b0 (link a xs @ [(a, n')]) st2" "same_texts st1 st2"
    "node_view (el_heap st2) n' = d"
    using el_finish_inv [OF 1(2) n d] by metis
  have "map (\<lambda>x. node_view h (snd x)) (link a xs) = map (\<lambda>x. node_view h (snd x)) xs" for h
    by (cases xs rule: rev_cases) (auto simp: link_def)
  then have "map (\<lambda>x. node_view (el_heap st2) (snd x)) (link a xs @ [(a, n')]) =
      map (\<lambda>x. node_view (el_heap st) (snd x)) xs @ [d]"
    using views_same [OF i same_texts_trans [OF 1(3) 2(3)]] 2(4) by simp
  then show ?thesis using 1(1) 2(1,2) by auto
qed

lemma el_event_dropped:
  assumes i: "el_inv h0 b0 xs st"
  shows "\<exists>st'. el_event (Dropped d) st = Inr st' \<and> el_inv h0 b0 xs st' \<and>
    map (\<lambda>x. node_view (el_heap st') (snd x)) xs = map (\<lambda>x. node_view (el_heap st) (snd x)) xs"
proof -
  obtain st1 a n where 1: "el_begin d st = Inr st1" "el_inv h0 b0 (link a xs @ [(a, n)]) st1" "same_texts st st1"
    "el_prev st1 = last_node xs" "nd_manufacturer_string n = None" "nd_product_string n = None"
    using el_begin_inv [OF i, of d] by metis
  obtain st2 where 2: "el_unlink st1 = Inr st2" "el_inv h0 b0 xs st2"
    "\<And>x b. x \<in> set xs \<Longrightarrow> b \<in> set (somes (node_ptrs (snd x))) \<Longrightarrow> el_heap st2 b = el_heap st1 b"
    using el_unlink_inv [OF 1(2) i 1(5,6,4)] by blast
  have t: "is_text (el_heap st b) \<and> el_heap st1 b = el_heap st b"
    if "x \<in> set xs" "b \<in> set (somes (node_ptrs (snd x)))" for x b
    using i that 1(3) by (auto simp: el_inv_def same_texts_def)
  have "node_view (el_heap st2) (snd x) = node_view (el_heap st) (snd x)" if "x \<in> set xs" for x
    using that t [OF that] 2(3) [OF that]
    by (auto simp: node_view_def node_ptrs_def chars_at_def wide_at_def somes_Cons split: option.splits)
  then show ?thesis using 1(1) 2(1,2) by simp
qed

lemma el_build_inv:
  assumes "el_inv h0 b0 xs st" "\<forall>d \<in> set (kept es). di_usage_page d = 0 \<and> di_usage d = 0"
  shows "\<exists>st' ys. el_build es st = Inr st' \<and> el_inv h0 b0 ys st' \<and>
    map (\<lambda>x. node_view (el_heap st') (snd x)) ys = map (\<lambda>x. node_view (el_heap st) (snd x)) xs @ kept es"
  using assms
proof (induction es arbitrary: xs st)
  case (Cons e es)
  show ?case
  proof (cases e)
    case (Kept d)
    obtain st1 ys where 1: "el_event e st = Inr st1" "el_inv h0 b0 ys st1"
      "map (\<lambda>x. node_view (el_heap st1) (snd x)) ys = map (\<lambda>x. node_view (el_heap st) (snd x)) xs @ [d]"
      using el_event_kept [OF Cons.prems(1), of d] Cons.prems(2) Kept by auto
    then show ?thesis using Cons.IH [OF 1(2)] Cons.prems(2) Kept by auto
  next
    case (Dropped d)
    obtain st1 where 1: "el_event e st = Inr st1" "el_inv h0 b0 xs st1"
      "map (\<lambda>x. node_view (el_heap st1) (snd x)) xs = map (\<lambda>x. node_view (el_heap st) (snd x)) xs"
      using el_event_dropped [OF Cons.prems(1), of d] Dropped by auto
    obtain st2 ys where "el_build es st1 = Inr st2" "el_inv h0 b0 ys st2"
      "map (\<lambda>x. node_view (el_heap st2) (snd x)) ys = map (\<lambda>x. node_view (el_heap st1) (snd x)) xs @ kept es"
      using Cons.IH [OF 1(2)] Cons.prems(2) Dropped by auto
    then show ?thesis unfolding 1(3) using 1(1) Dropped by auto
  qed
qed auto

lemma el_start_inv: "\<forall>a \<ge> b0. h0 a = None \<Longrightarrow> el_inv h0 b0 [] (el_start h0 b0)"
  by (simp add: el_inv_def el_start_def)

lemma el_inv_blocks:
  assumes "el_inv h0 b0 xs st"
  shows "distinct (owned xs)" and "set (owned xs) \<subseteq> dom (el_heap st)"
    and "el_heap st |` (- set (owned xs)) = h0"
proof -
  show "distinct (owned xs)" using assms by (simp add: el_inv_def)
  have "el_heap st b \<noteq> None" if x: "x \<in> set xs" "b \<in> set (blocks x)" for x b
  proof (cases "b = fst x")
    case True
    obtain us vs where "xs = us @ x # vs" using split_list [OF x(1)] by blast
    then show ?thesis using assms True by (auto simp: el_inv_def seg_append)
  next
    case False
    then have "is_text (el_heap st b)" using assms that by (auto simp: el_inv_def blocks_def)
    then show ?thesis by (auto simp: is_text_def split: option.splits)
  qed
  then show "set (owned xs) \<subseteq> dom (el_heap st)" by (auto simp: owned_def dom_def)
  have "h0 b = None" if "b \<in> set (owned xs)" for b
    using assms that by (auto simp: el_inv_def)
  then show "el_heap st |` (- set (owned xs)) = h0"
    using assms by (intro ext) (auto simp: el_inv_def restrict_map_def)
qed

section \<open>Property\<close>

definition record_at :: "enum_heap \<Rightarrow> nat \<Rightarrow> dev_info option" where
  "record_at h a = (case h a of Some (Node n) \<Rightarrow> Some (node_view h n) | _ \<Rightarrow> None)"

lemma seg_records:
  "seg h p xs q \<Longrightarrow> map (record_at h) (map fst xs) = map Some (map (\<lambda>x. node_view h (snd x)) xs)"
  by (induction xs arbitrary: p) (auto simp: record_at_def)

text \<open>
  C26. Whatever records \<^verbatim>\<open>hid_enumerate\<close> keeps, and whatever it takes off again, the list in memory
  stands for the kept records in order, without undefined behaviour on the way;
  \<^verbatim>\<open>hid_free_enumeration\<close> gives back exactly the memory from before; and so do the owning
  pointers \<^verbatim>\<open>hidpp::enumerate_devices\<close> makes of the list, when they are destroyed.
\<close>

theorem enumeration_memory:
  assumes "\<forall>a \<ge> b0. h0 a = None" and "\<forall>d \<in> set (kept es). di_usage_page d = 0 \<and> di_usage d = 0"
  shows "\<exists>st infos. el_build es (el_start h0 b0) = Inr st \<and>
    hid_free_enumeration (el_heap st) (el_root st) = Some (Inr h0) \<and>
    wrap_nodes (el_heap st) [] (el_root st) = Some (Inr infos) \<and>
    map (record_at (el_heap st)) infos = map Some (kept es) \<and>
    delete_infos infos (el_heap st) = Inr h0"
proof -
  obtain st xs where b: "el_build es (el_start h0 b0) = Inr st" "el_inv h0 b0 xs st"
    "map (\<lambda>x. node_view (el_heap st) (snd x)) xs = kept es"
    using el_build_inv [OF el_start_inv [OF assms(1)] assms(2)] by auto
  note k = el_inv_blocks [OF b(2)]
  have s: "seg (el_heap st) (el_root st) xs None" using b(2) by (simp add: el_inv_def)
  show ?thesis
    using b(1) wrap_nodes_seg [OF s, of "[]"] free_enumeration_seg [OF s k(1,2)] delete_infos_seg [OF s k(1,2)]
      seg_records [OF s] b(3) k(3)
    by auto
qed

theorem enumeration_memory_witness:
  "\<exists>st. el_build [Kept (calloc_dev_info\<lparr>di_path := Some ''/dev/hidraw0'', di_serial_number := Some [1]\<rparr>),
       Dropped (calloc_dev_info\<lparr>di_path := Some ''/dev/hidraw1''\<rparr>)] (el_start Map.empty 0) = Inr st \<and>
     hid_free_enumeration (el_heap st) (el_root st) = Some (Inr Map.empty)"
  using enumeration_memory [of 0 Map.empty
      "[Kept (calloc_dev_info\<lparr>di_path := Some ''/dev/hidraw0'', di_serial_number := Some [1]\<rparr>),
        Dropped (calloc_dev_info\<lparr>di_path := Some ''/dev/hidraw1''\<rparr>)]"]
  by (auto simp: calloc_dev_info_def simp del: el_build.simps)

end
