(* ===== verification/Cli.thy ===== *)
theory Cli
  imports Nanos_Wallet
begin

text \<open>
  The command line tool (\<^verbatim>\<open>src/src/main.cpp\<close>), the texts of the exceptions (\<^verbatim>\<open>errors.h\<close>) and
  \<^verbatim>\<open>dumpHexRet\<close> (\<^verbatim>\<open>hidpp_base.h\<close>). The parser of the options is boost's \<^verbatim>\<open>program_options\<close>, the
  text of an address is the minter library's; both are fields of \<open>cli\<close>. The two output streams
  are one list of what was written, in order; log output is left out. Wrong use of an option's value is an exception,
  as is a missing one.
\<close>

section \<open>Texts of exceptions\<close>

text \<open>What a \<^verbatim>\<open>catch (const std::exception &)\<close> catches.\<close>

fun is_exception :: "fault \<Rightarrow> bool" where
  "is_exception (UB _) = False"
| "is_exception Deadlock = False"
| "is_exception _ = True"

text \<open>\<^verbatim>\<open>e.what()\<close>; the text of a library exception is a parameter.\<close>

definition wrong_seqno_what :: "u16 \<Rightarrow> u16 \<Rightarrow> string" where
  "wrong_seqno_what expected given =
     ''bad sequence number '' @ dec_nat (unat given) @ '' (expected '' @ dec_nat (unat expected) @ '')''"

definition exchange_error_code_msg :: "u16 \<Rightarrow> string" where
  "exchange_error_code_msg code = ''unable to exchange: code='' @ dec_nat (unat code)"

fun what :: "string \<Rightarrow> fault \<Rightarrow> string" where
  "what lib (Wrong_Seqno expected given) = wrong_seqno_what expected given"
| "what lib (Exchange_Error msg code) = msg"
| "what lib (Runtime_Error msg) = msg"
| "what lib _ = lib"

section \<open>Hexadecimal dumps\<close>

text \<open>\<^verbatim>\<open>dumpHexRet(const tb::bytes_data &)\<close>; \<open>n\<close> bytes are still to be printed.\<close>

fun dump_hex_loop :: "tb_ops \<Rightarrow> u8 list \<Rightarrow> nat \<Rightarrow> string \<Rightarrow> string res" where
  "dump_hex_loop tb data 0 ss = Inr ss"
| "dump_hex_loop tb data (Suc n) ss =
     (let i = length data - Suc n in
      bind_res (tb_at tb data i) (\<lambda>b.
        let ss = ss @ tb_to_hex tb [b] in
        dump_hex_loop tb data n (if i \<noteq> length data - 1 then ss @ '' '' else ss)))"

definition dumpHexRet :: "tb_ops \<Rightarrow> u8 list \<Rightarrow> string res" where
  "dumpHexRet tb data =
     bind_res (dump_hex_loop tb data (length data) ''['') (\<lambda>ss. Inr (ss @ '']''))"

section \<open>Options\<close>

datatype po_semantic = Switch | Value_uint32 u32 | Required_string

record po_option =
  po_names :: string
  po_semantic :: po_semantic
  po_help :: string

datatype po_value = PO_Present | PO_Uint32 u32 | PO_String string

type_synonym variables_map = "string \<rightharpoonup> po_value"

definition po_count :: "variables_map \<Rightarrow> string \<Rightarrow> bool" where
  "po_count vm name \<longleftrightarrow> vm name \<noteq> None"

text \<open>\<^verbatim>\<open>vm.at(name).as<uint32_t>()\<close> and \<^verbatim>\<open>vm.at(name).as<std::string>()\<close>.\<close>

definition as_uint32 :: "variables_map \<Rightarrow> string \<Rightarrow> u32 res" where
  "as_uint32 vm name =
     (case vm name of
        None \<Rightarrow> Inl Out_Of_Range
      | Some (PO_Uint32 i) \<Rightarrow> Inr i
      | Some _ \<Rightarrow> Inl (Runtime_Error ''bad_any_cast''))"

definition as_string :: "variables_map \<Rightarrow> string \<Rightarrow> string res" where
  "as_string vm name =
     (case vm name of
        None \<Rightarrow> Inl Out_Of_Range
      | Some (PO_String s) \<Rightarrow> Inr s
      | Some _ \<Rightarrow> Inl (Runtime_Error ''bad_any_cast''))"

definition inline_opt :: po_option where
  "inline_opt = \<lparr>po_names = ''inline'', po_semantic = Switch,
     po_help = ''Print result inline without newlines etc''\<rparr>"

definition index_opt :: po_option where
  "index_opt = \<lparr>po_names = ''index,i'', po_semantic = Value_uint32 0, po_help = ''BIP32 derivation index''\<rparr>"

definition action_get_address_opts :: "po_option list \<Rightarrow> po_option list" where
  "action_get_address_opts options = options @
     [index_opt,
      \<lparr>po_names = ''silent,s'', po_semantic = Switch,
       po_help = ''Don'' @ [CHR 0x27] @ ''t show comparison text, just return address''\<rparr>,
      inline_opt]"

definition action_app_version_opts :: "po_option list \<Rightarrow> po_option list" where
  "action_app_version_opts options = options @ [inline_opt]"

definition action_sign_tx_opts :: "po_option list \<Rightarrow> po_option list" where
  "action_sign_tx_opts options = options @
     [\<lparr>po_names = ''hash'', po_semantic = Required_string,
       po_help = ''Incomplete transaction sha3 hash (64 byte hex string)''\<rparr>,
      index_opt, inline_opt]"

definition main_opts :: "po_option list" where
  "main_opts =
     [\<lparr>po_names = ''help,h'', po_semantic = Switch,
       po_help = ''Prints this help or use it with command name to see additional parameters''\<rparr>,
      \<lparr>po_names = ''version,v'', po_semantic = Switch, po_help = ''print version of client''\<rparr>,
      \<lparr>po_names = ''verbose'', po_semantic = Switch, po_help = ''print data transfer process''\<rparr>]"

section \<open>Parameters\<close>

datatype cli_output = Cout string | Cerr string

text \<open>
  \<open>cli_hid_init\<close> and \<open>cli_hid_exit\<close> are the backend's \<^verbatim>\<open>hid_init\<close> and \<^verbatim>\<open>hid_exit\<close>, whose
  results \<^verbatim>\<open>hidpp\<close> ignores. \<open>cli_parse\<close> is \<^verbatim>\<open>po::store\<close> of \<^verbatim>\<open>po::parse_command_line\<close>.
\<close>

record 's cli =
  cli_env :: "'s env"
  cli_hid_init :: "'s \<Rightarrow> 's"
  cli_hid_exit :: "'s \<Rightarrow> 's"
  cli_parse :: "po_option list \<Rightarrow> string list \<Rightarrow> variables_map res"
  cli_notify :: "variables_map \<Rightarrow> unit res"
  cli_usage :: "po_option list \<Rightarrow> string"
  cli_address_text :: "u8 list \<Rightarrow> string"
  cli_lib_what :: "fault \<Rightarrow> string"

definition newline :: string where
  "newline = [CHR 0x0A]"

section \<open>The wallet of an action\<close>

definition run_bind :: "('a, 's) wallet_run \<Rightarrow> ('a \<Rightarrow> ('b, 's) wallet_run) \<Rightarrow> ('b, 's) wallet_run" where
  "run_bind m k w s =
     (case m w s of
        None \<Rightarrow> None
      | Some (Inl e, w1, s1) \<Rightarrow> Some (Inl e, w1, s1)
      | Some (Inr x, w1, s1) \<Rightarrow> k x w1 s1)"

definition run_op :: "('a, 's) wallet_op \<Rightarrow> ('a, 's) wallet_run" where
  "run_op m w s = Some (m w s)"

definition run_res :: "'a res \<Rightarrow> ('a, 's) wallet_run" where
  "run_res r w s = Some (r, w, s)"

text \<open>The destructors of the wallet: its own, the framer's device, \<^verbatim>\<open>hidpp\<close>.\<close>

definition wallet_delete :: "'s cli \<Rightarrow> nanos_wallet \<Rightarrow> 's \<Rightarrow> unit res \<times> 's" where
  "wallet_delete c w s =
     (case wbind (wallet_close (cli_env c)) (\<lambda>_. wio (hidpp_close (env_api (cli_env c)))) w s of
        (Inl e, _, s1) \<Rightarrow> (Inl e, s1)
      | (Inr _, _, s1) \<Rightarrow> (Inr (), cli_hid_exit c s1))"

text \<open>
  The scope of \<^verbatim>\<open>minter::nanos_wallet device\<close>: it is destroyed when the action returns and when
  it throws.
\<close>

definition with_wallet :: "'s cli \<Rightarrow> ('a, 's) wallet_run \<Rightarrow> 's \<Rightarrow> ('a res \<times> 's) option" where
  "with_wallet c body s =
     (case body (nanos_wallet_new (env_tb (cli_env c))) (cli_hid_init c s) of
        None \<Rightarrow> None
      | Some (r, w1, s1) \<Rightarrow>
          (if (case r of Inl e \<Rightarrow> \<not> is_exception e | Inr _ \<Rightarrow> False) then Some (r, s1)
           else case wallet_delete c w1 s1 of
                  (Inl e, s2) \<Rightarrow> Some (Inl e, s2)
                | (Inr _, s2) \<Rightarrow> Some (r, s2)))"

section \<open>Actions\<close>

type_synonym 's action = "variables_map \<Rightarrow> 's \<Rightarrow> ((int \<times> cli_output list) res \<times> 's) option"

text \<open>\<^verbatim>\<open>if (!device.init()) return 1\<close>, then the rest of the action.\<close>

definition after_init :: "'s cli \<Rightarrow> (int \<times> cli_output list, 's) wallet_run \<Rightarrow> (int \<times> cli_output list, 's) wallet_run" where
  "after_init c rest =
     run_bind (run_op (wallet_init (cli_env c) NANOS_PID_16_APP)) (\<lambda>ok.
       if ok then rest else run_res (Inr (1, [])))"

definition action_get_address :: "'s cli \<Rightarrow> 's action" where
  "action_get_address c options = with_wallet c (after_init c (
     run_bind (run_res (as_uint32 options ''index'')) (\<lambda>derivationIndex.
     let printInline = po_count options ''inline''; silent = po_count options ''silent'' in
     run_bind (get_address (cli_env c) derivationIndex silent) (\<lambda>address.
       run_res (Inr (0,
         [Cout (if printInline then cli_address_text c address
                else ''Address: '' @ cli_address_text c address @ newline)]))))))"

definition action_app_version :: "'s cli \<Rightarrow> 's action" where
  "action_app_version c options = with_wallet c (after_init c (
     let printInline = po_count options ''inline'' in
     run_bind (get_app_version (cli_env c)) (\<lambda>vers.
       run_res (Inr (0, [Cout (if printInline then vers else ''Version: '' @ vers @ newline)])))))"

definition outInline :: "tb_ops \<Rightarrow> signature \<Rightarrow> u8 list res" where
  "outInline tb sign =
     bind_res (tb_write tb (tb_new tb 65) 0 (sig_r sign)) (\<lambda>(out, _).
     bind_res (tb_write tb out 32 (sig_s sign)) (\<lambda>(out, _).
     bind_res (tb_write tb out 64 (sig_v sign)) (\<lambda>(out, _). Inr out)))"

definition signature_report :: "tb_ops \<Rightarrow> signature \<Rightarrow> string \<Rightarrow> string res" where
  "signature_report tb sign rsv =
     bind_res (dumpHexRet tb (sig_r sign)) (\<lambda>r.
     bind_res (dumpHexRet tb (sig_s sign)) (\<lambda>s.
     bind_res (dumpHexRet tb (sig_v sign)) (\<lambda>v.
       Inr (''Signature result:'' @ newline @ ''R:   '' @ r @ newline @ ''S:   '' @ s @ newline @
            ''V:   '' @ v @ newline @ newline @ ''RSV: '' @ rsv @ newline))))"

definition action_sign_tx :: "'s cli \<Rightarrow> 's action" where
  "action_sign_tx c options = with_wallet c (after_init c (
     let tb = env_tb (cli_env c) in
     run_bind (run_res (bind_res (as_string options ''hash'') (tb_from_hex tb))) (\<lambda>txHash.
     run_bind (run_res (as_uint32 options ''index'')) (\<lambda>derivationIndex.
     let printInline = po_count options ''inline'' in
     run_bind (get_address (cli_env c) 0 True) (\<lambda>address.
     run_bind (sign_tx (cli_env c) txHash derivationIndex) (\<lambda>sign.
     run_bind (run_res (outInline tb sign)) (\<lambda>out.
       if printInline then run_res (Inr (0, [Cout (tb_to_hex tb out)]))
       else run_bind (run_res (signature_report tb sign (tb_to_hex tb out))) (\<lambda>text.
              run_res (Inr (0, [Cout text]))))))))))"

definition action_map :: "'s cli \<Rightarrow> string \<Rightarrow> 's action option" where
  "action_map c cmdName =
     (if cmdName = ''get-address'' then Some (action_get_address c)
      else if cmdName = ''sign-tx'' then Some (action_sign_tx c)
      else if cmdName = ''app-version'' then Some (action_app_version c)
      else None)"

definition opts_map :: "string \<Rightarrow> po_option list \<Rightarrow> po_option list" where
  "opts_map cmdName =
     (if cmdName = ''get-address'' then action_get_address_opts
      else if cmdName = ''sign-tx'' then action_sign_tx_opts
      else action_app_version_opts)"

section \<open>main\<close>

text \<open>
  \<^verbatim>\<open>handleArgs\<close>: whether to go on, with the variables. The parser runs outside the \<^verbatim>\<open>try\<close>.
\<close>

definition handleArgs :: "'s cli \<Rightarrow> po_option list \<Rightarrow> string list \<Rightarrow> (bool \<times> variables_map) res \<times> cli_output list" where
  "handleArgs c desc argv =
     (case cli_parse c desc argv of
        Inl e \<Rightarrow> (Inl e, [])
      | Inr vm \<Rightarrow>
          (if po_count vm ''help'' then (Inr (True, vm), [Cout (cli_usage c desc @ newline)])
           else case cli_notify c vm of
                  Inl e \<Rightarrow>
                    (if is_exception e then
                       (Inr (False, vm),
                        [Cerr (''Error:'' @ newline @ ''  ''), Cerr (what (cli_lib_what c e) e),
                         Cerr (newline @ newline), Cout (cli_usage c desc @ newline)])
                     else (Inl e, []))
                | Inr _ \<Rightarrow> (Inr (True, vm), [])))"

text \<open>The exit code, or the fault that ends the process or leaves it hanging.\<close>

datatype main_result = Exit int | Terminate fault

definition cli_main :: "'s cli \<Rightarrow> string list \<Rightarrow> 's \<Rightarrow> (main_result \<times> cli_output list \<times> 's) option" where
  "cli_main c argv s =
     (if length argv = 1 then
        (case handleArgs c main_opts argv of
           (Inl e, out) \<Rightarrow> Some (Terminate e, out, s)
         | (Inr (ret, _), out) \<Rightarrow>
             Some (Exit (if ret then 0 else 1), out @ [Cout (cli_usage c main_opts @ newline)], s))
      else if length argv \<ge> 2 then
        (let cmdName = argv ! 1 in
         case action_map c cmdName of
           None \<Rightarrow>
             Some (Exit 1, [Cerr (''Unknown command: '' @ cmdName @ newline @ newline),
                            Cout (cli_usage c main_opts @ newline)], s)
         | Some action \<Rightarrow>
             (let desc = opts_map cmdName main_opts in
              case handleArgs c desc argv of
                (Inl e, out) \<Rightarrow> Some (Terminate e, out, s)
              | (Inr (ret, vm), out) \<Rightarrow>
                  (if \<not> ret then Some (Exit 1, out, s)
                   else if po_count vm ''help'' then
                     Some (Exit 0, out @ [Cout (cli_usage c desc @ newline)], s)
                   else case action vm s of
                          None \<Rightarrow> None
                        | Some (Inr (code, result), s1) \<Rightarrow> Some (Exit code, out @ result, s1)
                        | Some (Inl e, s1) \<Rightarrow>
                            (if is_exception e
                             then Some (Exit 1, out @ [Cerr (what (cli_lib_what c e) e @ newline)], s1)
                             else Some (Terminate e, out, s1)))))
      else Some (Exit 0, [], s))"

end
