(* ===== verification/Stack.thy ===== *)
theory Stack
  imports Wallet_Life
begin

text \<open>
  The layers together, over any backend. What the operating system does with the packets of an
  open device is a channel: \<open>put\<close> takes one packet, \<open>get\<close> gives the next one. The locale
  \<open>packet_port\<close> extends the contract of hidapi by what connects a handle with its channel; from
  it follows, once for all backends, that a wallet after a successful \<^verbatim>\<open>init\<close> carries out every
  sequence of commands the device answers. Stack_Linux, Stack_Windows, Stack_Mac and
  Stack_Libusb interpret it. \<open>closing_port\<close> adds that an open device can be closed, which the first
  two keep and the command line tool needs.
\<close>

section \<open>Channels\<close>

text \<open>The channel takes all the packets; it gives just these packets.\<close>

fun put_all :: "(u8 list \<Rightarrow> 'w \<Rightarrow> 'w option) \<Rightarrow> u8 list list \<Rightarrow> 'w \<Rightarrow> 'w option" where
  "put_all put [] w = Some w"
| "put_all put (p # ps) w = Option.bind (put p w) (put_all put ps)"

fun get_all :: "('w \<Rightarrow> (u8 list \<times> 'w) option) \<Rightarrow> u8 list list \<Rightarrow> 'w \<Rightarrow> 'w option" where
  "get_all get [] w = Some w"
| "get_all get (f # fs) w =
     (case get w of Some (g, w1) \<Rightarrow> if g = f then get_all get fs w1 else None | None \<Rightarrow> None)"

text \<open>
  One command and its answer: padding, data and status. The length of the data is one the framer
  puts together right.
\<close>

type_synonym answer = "u8 \<times> u8 list \<times> u16"

fun dialogue ::
    "(u8 list \<Rightarrow> 'w \<Rightarrow> 'w option) \<Rightarrow> ('w \<Rightarrow> (u8 list \<times> 'w) option) \<Rightarrow> APDU \<Rightarrow> answer \<Rightarrow> 'w \<Rightarrow> 'w option" where
  "dialogue put get a (pad, data, sw) w =
     (if length data \<le> 55 \<or> 61 \<le> length data \<and> length data \<le> 114
      then Option.bind (put_all put (wire_packets 0 (message (apdu_bytes a))) w)
        (get_all get (response_packets pad (response data sw)))
      else None)"

section \<open>Sequences of commands\<close>

datatype request = Get_Address u32 bool | Sign_Tx "u8 list" u32

datatype reply = Address "u8 list" | Signature signature

definition run_map :: "('a \<Rightarrow> 'b) \<Rightarrow> ('a, 's) wallet_run \<Rightarrow> ('b, 's) wallet_run" where
  "run_map f m w s = map_option (\<lambda>(r, w1, s1). (bind_res r (\<lambda>x. Inr (f x)), w1, s1)) (m w s)"

fun perform :: "'s env \<Rightarrow> request \<Rightarrow> (reply, 's) wallet_run" where
  "perform env (Get_Address index silent) = run_map Address (get_address env index silent)"
| "perform env (Sign_Tx raw_tx index) = run_map Signature (sign_tx env raw_tx index)"

text \<open>The caller goes on after an exception.\<close>

fun perform_all :: "'s env \<Rightarrow> request list \<Rightarrow> nanos_wallet \<Rightarrow> 's \<Rightarrow> (reply res list \<times> nanos_wallet \<times> 's) option" where
  "perform_all env [] w s = Some ([], w, s)"
| "perform_all env (q # qs) w s =
     (case perform env q w s of
        None \<Rightarrow> None
      | Some (r, w1, s1) \<Rightarrow> map_option (\<lambda>(rs, x). (r # rs, x)) (perform_all env qs w1 s1))"

text \<open>What goes over the wire for a request, and what its answer means.\<close>

fun request_apdu :: "request \<Rightarrow> APDU" where
  "request_apdu (Get_Address index silent) = command_apdu 2 (of_bool silent) (be32 index)"
| "request_apdu (Sign_Tx raw_tx index) = command_apdu 4 0 (be32 index @ raw_tx)"

fun request_fits :: "request \<Rightarrow> answer \<Rightarrow> bool" where
  "request_fits (Get_Address index silent) (pad, data, sw) \<longleftrightarrow> sw \<noteq> 0x9000 \<or> 20 \<le> length data"
| "request_fits (Sign_Tx raw_tx index) (pad, data, sw) \<longleftrightarrow>
     length raw_tx = 32 \<and> (sw \<noteq> 0x9000 \<or> 65 \<le> length data)"

fun reply_to :: "request \<Rightarrow> answer \<Rightarrow> reply res" where
  "reply_to (Get_Address index silent) (pad, data, sw) =
     (if sw = 0x9000 then Inr (Address (take 20 data))
      else Inl (Exchange_Error (''Unable to get address: '' @ ledger_status_to_string sw) sw))"
| "reply_to (Sign_Tx raw_tx index) (pad, data, sw) =
     (if sw = 0x9000
      then Inr (Signature \<lparr>sig_r = take 32 data, sig_s = take 32 (drop 32 data), sig_v = [last data],
        sig_success = True\<rparr>)
      else Inl (Exchange_Error (''Unable to sign transaction: '' @ ledger_status_to_string sw) sw))"

fun dialogues ::
    "(u8 list \<Rightarrow> 'w \<Rightarrow> 'w option) \<Rightarrow> ('w \<Rightarrow> (u8 list \<times> 'w) option) \<Rightarrow> (request \<times> answer) list \<Rightarrow> 'w \<Rightarrow> 'w option" where
  "dialogues put get [] w = Some w"
| "dialogues put get ((q, x) # xs) w =
     (if request_fits q x then Option.bind (dialogue put get (request_apdu q) x w) (dialogues put get xs) else None)"

lemma request_apdu_wf: "request_fits q x \<Longrightarrow> apdu_wf (request_apdu q)"
  by (cases "(q, x)" rule: request_fits.cases) (auto simp: command_apdu_wf)

lemma perform_result:
  assumes tb: "tb_laws (env_tb env)" and "request_fits q (pad, data, sw)"
    and x: "wallet_exchange env (request_apdu q) CODE_SUCCESS w s = Some (Inr (data, sw), w', s')"
  shows "perform env q w s = Some (reply_to q (pad, data, sw), w', s')"
proof (cases q)
  case (Get_Address index silent)
  have "get_address env index silent w s =
      Some (if sw = 0x9000 then tb_take_range (env_tb env) data 0 20
            else Inl (Exchange_Error (''Unable to get address: '' @ ledger_status_to_string sw) sw), w', s')"
    unfolding get_address_def
    by (rule command_result [OF x [unfolded Get_Address request_apdu.simps] get_address_apdu_ok [OF tb]])
  then show ?thesis
    using Get_Address assms(2) tb_lawsD(8) [OF tb, of 0 20 data] by (simp add: run_map_def)
next
  case (Sign_Tx raw_tx index)
  have l: "drop (length data - 1) data = [last data]" if "65 \<le> length data"
    using that by (cases data rule: rev_cases) auto
  have tx: "length raw_tx = 32" using assms(2) Sign_Tx by simp
  have "sign_tx env raw_tx index w s =
      Some (if sw = 0x9000 then signature_of (env_tb env) data
            else Inl (Exchange_Error (''Unable to sign transaction: '' @ ledger_status_to_string sw) sw), w', s')"
    unfolding sign_tx_def
    by (rule command_result [OF x [unfolded Sign_Tx request_apdu.simps] sign_tx_apdu_ok [OF tb tx]])
  then show ?thesis
    using Sign_Tx assms(2) l tb_lawsD(11) [OF tb, of 32 data]
      tb_lawsD(8) [OF tb, of 32 64 data] tb_lawsD(12) [OF tb, of 1 data]
    by (cases "sw = 0x9000") (simp_all add: run_map_def signature_of_def)
qed

section \<open>The contract of a port\<close>

text \<open>
  \<open>ready s h c\<close>: the handle \<open>h\<close> is open, without a recorded error, and its packets go over the
  channel \<open>c\<close>. In a windows build a report is written and read with the byte of its id in front.
\<close>

locale packet_port = hid_backend api alive
  for api :: "'s hid_api" and alive :: "'s \<Rightarrow> nat \<Rightarrow> bool" +
  fixes bd :: build
    and ready :: "'s \<Rightarrow> nat \<Rightarrow> 'c \<Rightarrow> bool"
    and world :: "'s \<Rightarrow> 'w"
    and put :: "'c \<Rightarrow> u8 list \<Rightarrow> 'w \<Rightarrow> 'w option"
    and get :: "'c \<Rightarrow> 'w \<Rightarrow> (u8 list \<times> 'w) option"
  assumes ready_alive: "ready s h c \<Longrightarrow> alive s h"
    and ready_open:
      "api_open api v pid sn s = (Inr (Some h), s1) \<Longrightarrow>
       \<exists>c s2. api_set_nonblocking api (Some h) 0 s1 = (Inr 0, s2) \<and> ready s2 h c"
    and ready_open_path:
      "api_open_path api path s = (Inr (Some h), s1) \<Longrightarrow>
       \<exists>c s2. api_set_nonblocking api (Some h) 0 s1 = (Inr 0, s2) \<and> ready s2 h c"
    and put_writes:
      "ready s h c \<Longrightarrow> put c p (world s) = Some w1 \<Longrightarrow>
       \<exists>n s1. api_write api (Some h) (if b_win32 bd then 0 # p else p) s = (Inr n, s1) \<and>
         ready s1 h c \<and> world s1 = w1"
    and get_reads:
      "ready s h c \<Longrightarrow> get c (world s) = Some (f, w1) \<Longrightarrow> length f = 64 \<Longrightarrow>
       \<exists>bs s1. api_read api (Some h) (if b_msc bd then 65 else 64) s = (Inr (int (length bs), bs), s1) \<and>
         (if b_msc bd then bs \<noteq> [] \<and> tl bs = f else bs = f) \<and>
         ready s1 h c \<and> world s1 = w1 \<and> api_error api (Some h) s1 = Inr None"
begin

definition runs_on :: "'s env \<Rightarrow> bool" where
  "runs_on env \<longleftrightarrow> env_api env = api \<and> env_build env = bd \<and> tb_laws (env_tb env)"

lemma put_all_sends:
  assumes "runs_on env" "\<not> m_dev_lock d" "m_dev d = Some h" "ready s h c" "put_all (put c) ps (world s) = Some w1"
  shows "\<exists>s1. send_packets env ps d s = (Inr (), d, s1) \<and> ready s1 h c \<and> world s1 = w1"
  using assms(4,5)
proof (induction ps arbitrary: s)
  case (Cons p ps)
  obtain w2 where w2: "put c p (world s) = Some w2" "put_all (put c) ps w2 = Some w1"
    using Cons.prems(2) by (auto simp: bind_eq_Some_conv)
  obtain n s2 where s2: "api_write api (Some h) (if b_win32 bd then 0 # p else p) s = (Inr n, s2)"
    "ready s2 h c" "world s2 = w2" using put_writes [OF Cons.prems(1) w2(1)] by blast
  have tb: "tb_laws (env_tb env)" using assms(1) by (simp add: runs_on_def)
  let ?b = "tb_new (env_tb env) (length p + 1)"
  have n: "length ?b = length p + 1" by (rule tb_lawsD(1) [OF tb])
  then have "overwrite (overwrite ?b 0 [0]) 1 p = 0 # p" by (cases ?b) (auto simp: overwrite_def)
  then have "bind_res (tb_write (env_tb env) ?b 0 [0]) (\<lambda>(w, _). tb_write (env_tb env) w 1 p) = Inr (0 # p, length p)"
    using n tb_lawsD(2) [OF tb, of 0 "[0]" ?b] tb_lawsD(2) [OF tb, of 1 p "overwrite ?b 0 [0]"] by simp
  then have "hidpp_write (env_build env) (env_tb env) (env_api env) p d s = (Inr (of_int n), d, s2)"
    using assms(1-3) s2(1)
    by (auto simp: hidpp_write_def hidpp_write_raw_def lock_guard_def runs_on_def split: if_splits)
  then show ?case using Cons.IH [OF s2(2)] s2(3) w2(2) by simp
qed simp

lemma get_all_supplies:
  assumes "runs_on env" "ready s h c" "get_all (get c) fs (world s) = Some w1" "\<forall>f \<in> set fs. length f = 64"
  shows "supplies env (Some h) s fs \<and> ready (after_reads env (Some h) s (length fs)) h c \<and>
    world (after_reads env (Some h) s (length fs)) = w1"
  using assms(2-4)
proof (induction fs arbitrary: s)
  case (Cons f fs)
  obtain w2 where w2: "get c (world s) = Some (f, w2)" "get_all (get c) fs w2 = Some w1"
    using Cons.prems(2) by (auto split: option.splits if_splits)
  obtain bs s2 where s2: "api_read api (Some h) (if b_msc bd then 65 else 64) s = (Inr (int (length bs), bs), s2)"
    "if b_msc bd then bs \<noteq> [] \<and> tl bs = f else bs = f" "ready s2 h c" "world s2 = w2"
    "api_error api (Some h) s2 = Inr None"
    using get_reads [OF Cons.prems(1) w2(1)] Cons.prems(3) by auto
  have "next_report env (Some h) s = (Inr (int (length bs), bs), s2)"
    using assms(1) s2(1) by (simp add: next_report_def report_len_def runs_on_def)
  moreover have "arrives env f (Inr (int (length bs), bs))"
    using assms(1) s2(2) by (simp add: arrives_def runs_on_def)
  ultimately show ?case
    using Cons.IH [OF s2(3)] Cons.prems(3) s2 w2(2) assms(1) by (simp add: runs_on_def)
qed simp

text \<open>A wallet at rest on an open device.\<close>

definition connected :: "nanos_wallet \<Rightarrow> 's \<Rightarrow> nat \<Rightarrow> 'c \<Rightarrow> bool" where
  "connected w s h c \<longleftrightarrow> wallet_ready w \<and> framer_at 0 (frame_reset (m_framer w)) \<and>
     m_dev (m_io (m_framer w)) = Some h \<and> ready s h c"

lemma connected_exchange:
  assumes "runs_on env" "connected w s h c" "apdu_wf a" "dialogue (put c) (get c) a (pad, data, sw) (world s) = Some w1"
  shows "\<exists>w' s'. wallet_exchange env a code w s = Some (Inr (data, sw), w', s') \<and>
    connected w' s' h c \<and> world s' = w1"
proof -
  let ?ps = "wire_packets 0 (message (apdu_bytes a))" and ?fs = "response_packets pad (response data sw)"
  have c: "wallet_ready w" "framer_at 0 (frame_reset (m_framer w))" "m_dev (m_io (m_framer w)) = Some h" "ready s h c"
    using assms(2) by (simp_all add: connected_def)
  have len: "length data \<le> 55 \<or> 61 \<le> length data \<and> length data \<le> 114"
    and "Option.bind (put_all (put c) ?ps (world s)) (get_all (get c) ?fs) = Some w1"
    using assms(4) by (simp_all split: if_splits)
  then obtain w2 where w2: "put_all (put c) ?ps (world s) = Some w2" "get_all (get c) ?fs w2 = Some w1"
    by (auto simp: bind_eq_Some_conv)
  have l: "\<not> m_dev_lock (m_io (m_framer w))" using c(2) by (simp add: framer_at_def frame_reset_def)
  obtain s2 where s2: "send_packets env ?ps (m_io (m_framer w)) s = (Inr (), m_io (m_framer w), s2)"
    "ready s2 h c" "world s2 = w2" using put_all_sends [OF assms(1) l c(3,4) w2(1)] by blast
  have "\<forall>f \<in> set ?fs. length f = 64" using response_packets_64 by (auto simp: list_all_iff)
  then have g: "supplies env (Some h) s2 ?fs" "ready (after_reads env (Some h) s2 (length ?fs)) h c"
    "world (after_reads env (Some h) s2 (length ?fs)) = w1"
    using get_all_supplies [OF assms(1) s2(2), of ?fs w1] w2(2) s2(3) by auto
  obtain w' where "wallet_exchange env a code w s = Some (Inr (data, sw), w', after_reads env (Some h) s2 (length ?fs))"
    "wallet_ready w'" "m_io (m_framer w') = m_io (m_framer w)" "framer_at 0 (m_framer w')"
    using wallet_exchange_after [OF c(1) _ assms(3) c(2) s2(1), of pad data sw code] g(1) len assms(1) c(3)
    by (auto simp: runs_on_def)
  then show ?thesis using g c(3) by (auto simp: connected_def framer_at_def frame_reset_def)
qed

lemma connected_performs:
  assumes "runs_on env" "connected w s h c" "dialogues (put c) (get c) script (world s) = Some w1"
  shows "\<exists>w' s'. perform_all env (map fst script) w s = Some (map (\<lambda>(q, x). reply_to q x) script, w', s') \<and>
    connected w' s' h c \<and> world s' = w1"
  using assms(2,3)
proof (induction script arbitrary: w s)
  case (Cons step script)
  obtain q pad data sw where st: "step = (q, pad, data, sw)" by (cases step)
  obtain w2 where w2: "request_fits q (pad, data, sw)"
    "dialogue (put c) (get c) (request_apdu q) (pad, data, sw) (world s) = Some w2"
    "dialogues (put c) (get c) script w2 = Some w1"
    using Cons.prems(2) by (auto simp: st bind_eq_Some_conv simp del: dialogue.simps split: if_splits)
  obtain w' s' where x: "wallet_exchange env (request_apdu q) CODE_SUCCESS w s = Some (Inr (data, sw), w', s')"
    "connected w' s' h c" "world s' = w2"
    using connected_exchange [OF assms(1) Cons.prems(1) request_apdu_wf [OF w2(1)] w2(2)] by blast
  have "perform env q w s = Some (reply_to q (pad, data, sw), w', s')"
    using perform_result [OF _ w2(1) x(1)] assms(1) by (simp add: runs_on_def)
  then show ?case using Cons.IH [OF x(2)] x(3) w2(3) st by auto
qed simp

lemma hidpp_open_ready:
  assumes "hidpp_open api d s = (Inr True, d', s')" "\<not> m_dev_lock d"
  shows "\<exists>h c. m_dev d' = Some h \<and> \<not> m_dev_lock d' \<and> ready s' h c"
proof -
  let ?open = "if m_vendorId d = 0 \<or> m_productId d = 0 then api_open_path api (m_path d) s
    else api_open api (m_vendorId d) (m_productId d) None s"
  obtain h s1 where o: "?open = (Inr (Some h), s1)"
    using assms by (auto simp: hidpp_open_def lock_guard_def
        split: prod.splits sum.splits option.splits fault.splits if_splits)
  obtain c s2 where s2: "api_set_nonblocking api (Some h) 0 s1 = (Inr 0, s2)" "ready s2 h c"
    using o ready_open [of "m_vendorId d" "m_productId d" None s h s1] ready_open_path [of "m_path d" s h s1]
    by (auto split: if_splits)
  have "d' = d\<lparr>m_dev := Some h\<rparr> \<and> s' = s2"
    using assms o s2(1) by (auto simp: hidpp_open_def lock_guard_def split: if_splits)
  then show ?thesis using s2(2) assms(2) by auto
qed

lemma wallet_init_connects:
  assumes "wallet_init env pid (nanos_wallet_new (env_tb env)) s = (Inr True, w1, s1)" "runs_on env"
  shows "\<exists>h c. connected w1 s1 h c"
proof -
  have e: "env_api env = api" "tb_laws (env_tb env)" using assms(2) by (simp_all add: runs_on_def)
  let ?w = "(nanos_wallet_new (env_tb env))\<lparr>m_devLock := True\<rparr>"
  from assms(1) obtain w2 roots w3 s3 apps w4 s4 where
    1: "wenumerate env LEDGER_VID NANOS_PID_ROOT ?w s = (Inr roots, w3, s3)" and
    2: "wenumerate env LEDGER_VID pid w3 s3 = (Inr apps, w4, s4)" and
    3: "(if roots = [] \<and> apps = [] then wret False else if roots \<noteq> [] then wret False
       else wbind (assign_framer env (di_vendor_id (hd apps)) pid)
         (\<lambda>_. open_framer env False (\<lambda>valid. valid))) w4 s4 = (Inr True, w2, s1)" and
    w1: "w1 = w2\<lparr>m_devLock := False\<rparr>"
    unfolding wallet_init_def wlock_Inr wbind_Inr by blast
  have w4: "w4 = ?w" using wenumerate_Inr [OF e(1) 1] wenumerate_Inr [OF e(1) 2] by simp
  from 3 obtain u w5 s5 where 5: "assign_framer env (di_vendor_id (hd apps)) pid w4 s4 = (Inr u, w5, s5)"
    and 6: "open_framer env False (\<lambda>valid. valid) w5 s5 = (Inr True, w2, s1)"
    by (auto simp: wbind_Inr wret_def split: if_splits)
  have w5: "\<not> m_dev_lock (m_io (m_framer w5))" "framer_at 0 (frame_reset (m_framer w5))"
    using 5 w4 e(2) tb_lawsD(1) [of "env_tb env" 64]
    by (auto simp: assign_framer_def Let_def hidpp_assign_def frame_io_apdu_new_def hidpp_copy_def
        hidpp_device_ids_def nanos_wallet_new_def framer_at_def frame_reset_def)
  from 6 obtain d where d: "hidpp_open api (m_io (m_framer w5)) s5 = (Inr True, d, s1)"
    "w2 = w5\<lparr>m_framer := (m_framer w5)\<lparr>m_io := d\<rparr>, m_valid := True\<rparr>"
    unfolding open_framer_def e(1)
    by (auto simp: wbind_Inr wio_def wret_def io_valid_def split: if_splits prod.splits)
  obtain h c where h: "m_dev d = Some h" "\<not> m_dev_lock d" "ready s1 h c"
    using hidpp_open_ready [OF d(1) w5(1)] by blast
  show ?thesis using h d(2) w1 w5(2)
    by (intro exI [of _ h] exI [of _ c])
      (simp add: connected_def wallet_ready_def io_valid_def hidpp_valid_def framer_at_def frame_reset_def)
qed

text \<open>From \<^verbatim>\<open>init\<close> through all the commands the device answers.\<close>

lemma init_session:
  assumes "wallet_init env pid (nanos_wallet_new (env_tb env)) s = (Inr True, w1, s1)" "runs_on env"
  shows "\<exists>h c. m_dev (m_io (m_framer w1)) = Some h \<and> ready s1 h c \<and>
    (\<forall>script w2. dialogues (put c) (get c) script (world s1) = Some w2 \<longrightarrow>
       (\<exists>w' s'. perform_all env (map fst script) w1 s1 = Some (map (\<lambda>(q, x). reply_to q x) script, w', s') \<and>
          wallet_ready w' \<and> ready s' h c \<and> world s' = w2))"
proof -
  obtain h c where hc: "connected w1 s1 h c" using wallet_init_connects [OF assms] by blast
  then show ?thesis using connected_performs [OF assms(2) hc] unfolding connected_def by blast
qed

end

text \<open>And a port whose open devices can be closed.\<close>

locale closing_port = packet_port api alive bd ready world put get + closing_backend api alive closable
  for api :: "'s hid_api" and alive :: "'s \<Rightarrow> nat \<Rightarrow> bool" and bd :: build
    and ready :: "'s \<Rightarrow> nat \<Rightarrow> 'c \<Rightarrow> bool" and world :: "'s \<Rightarrow> 'w"
    and put :: "'c \<Rightarrow> u8 list \<Rightarrow> 'w \<Rightarrow> 'w option" and get :: "'c \<Rightarrow> 'w \<Rightarrow> (u8 list \<times> 'w) option"
    and closable :: "'s \<Rightarrow> nat \<Rightarrow> bool" +
  assumes ready_closable: "ready s h c \<Longrightarrow> closable s h"
begin

lemma ready_closes: "ready s h c \<Longrightarrow> \<exists>s'. api_close api (Some h) s = (Inr (), s')"
  by (rule close_returns [OF ready_alive ready_closable])

end

text \<open>The answer of the machines in the examples.\<close>

lemma demo_answer_packets: "response_packets 0 (response (replicate 20 7) 0x9000) = [demo_answer]"
proof -
  have "be16 22 = [0, 22]" "be16 0x9000 = [0x90, 0]" "be16 0 = [0, 0]" "be16 0x0101 = [1, 1]"
    by (simp_all add: be16_def)
  then show ?thesis
    by (subst response_packets_1)
      (simp_all add: pad64_def packet_header_def response_def message_def demo_answer_def)
qed

end
