(* ===== verification/Stack_Linux.thy ===== *)
theory Stack_Linux
  imports Stack
begin

text \<open>
  The stack on linux: the hidraw backend is a port, whose channel is the kernel's side of a file
  descriptor. What is assumed is what the kernel does with the packets; what is shown is what
  the wallet returns.
\<close>

section \<open>The device file as a channel\<close>

definition fd_put :: "'w linux_os \<Rightarrow> int \<Rightarrow> u8 list \<Rightarrow> 'w \<Rightarrow> 'w option" where
  "fd_put os f p w = (case os_write os f p w of (Some n, w1) \<Rightarrow> Some w1 | (None, _) \<Rightarrow> None)"

definition fd_get :: "'w linux_os \<Rightarrow> int \<Rightarrow> 'w \<Rightarrow> (u8 list \<times> 'w) option" where
  "fd_get os f w = (case os_read os f 64 w of (Some x, w1) \<Rightarrow> Some (x, w1) | (None, _) \<Rightarrow> None)"

definition posix_build :: build where
  "posix_build = \<lparr>b_win32 = False, b_msc = False\<rparr>"

section \<open>The backend on it\<close>

text \<open>An open device in blocking mode on the descriptor \<open>f\<close>.\<close>

definition lx_ready :: "'w linux_state \<Rightarrow> nat \<Rightarrow> int \<Rightarrow> bool" where
  "lx_ready s h f \<longleftrightarrow> (\<exists>d. lx_deref (Some h) s = Inr (h, d) \<and> blocking d \<and> device_handle d = f)"

lemma lx_ready_put:
  assumes "lx_deref (Some h) s = Inr (h, d0)" "blocking d" "device_handle d = f"
  shows "lx_ready (lx_put h (Some d) (s\<lparr>lx_world := w\<rparr>)) h f"
  using assms by (auto simp: lx_ready_def lx_deref_Inr lx_put_def)

lemma lx_write_ready:
  assumes "lx_ready s h f" "os_write os f p (lx_world s) = (Some n, w1)"
  obtains s1 where "lx_write os (Some h) p s = (Inr (int n), s1)" "lx_ready s1 h f" "lx_world s1 = w1"
proof -
  obtain d where d: "lx_deref (Some h) s = Inr (h, d)" "blocking d" "device_handle d = f"
    using assms(1) by (auto simp: lx_ready_def)
  let ?d = "register_device_error os w1 None d"
  have "lx_write os (Some h) p s = (Inr (int n), lx_put h (Some ?d) (s\<lparr>lx_world := w1\<rparr>))"
    using d assms(2) by (simp add: lx_write_def)
  moreover have "lx_ready (lx_put h (Some ?d) (s\<lparr>lx_world := w1\<rparr>)) h f"
    by (rule lx_ready_put [OF d(1)]) (use d in \<open>simp_all add: register_device_error_def\<close>)
  ultimately show ?thesis using that by (simp add: lx_put_def)
qed

lemma lx_read_ready:
  assumes "lx_ready s h f" "os_read os f n (lx_world s) = (Some x, w1)" "length x = n"
  obtains s1 where "lx_read os (Some h) n s = (Inr (int n, x), s1)" "lx_ready s1 h f" "lx_world s1 = w1"
    "lx_error (Some h) s1 = Inr None"
proof -
  obtain d where d: "lx_deref (Some h) s = Inr (h, d)" "blocking d" "device_handle d = f"
    using assms(1) by (auto simp: lx_ready_def)
  let ?d = "register_device_error os (lx_world s) None d"
  let ?s1 = "lx_put h (Some ?d) (s\<lparr>lx_world := w1\<rparr>)"
  have k: "device_handle ?d = f" "blocking ?d" "last_error_str ?d = None"
    using d by (simp_all add: register_device_error_def utf8_to_wchar_t_def)
  have "lx_read os (Some h) n s = (Inr (int n, x), ?s1)"
    using d k assms(2,3) by (simp add: lx_read_def lx_read_timeout_def lx_read_now_def Let_def)
  moreover have "lx_ready ?s1 h f" by (rule lx_ready_put [OF d(1) k(2,1)])
  moreover have "lx_error (Some h) ?s1 = Inr None"
    using d(1) k(3) by (simp add: lx_error_def lx_deref_def lx_put_def split: if_splits option.splits)
  ultimately show ?thesis using that by (simp add: lx_put_def)
qed

lemma lx_unblocked_ready:
  assumes "lx_alive s h"
  shows "\<exists>f s1. lx_set_nonblocking (Some h) 0 s = (Inr 0, s1) \<and> lx_ready s1 h f"
proof -
  obtain e where e: "lx_deref (Some h) s = Inr (h, e)" using lx_deref_alive [OF assms] by blast
  then show ?thesis
    using lx_ready_put [OF e, of "e\<lparr>blocking := True\<rparr>" "device_handle e" "lx_world s"]
    by (auto simp: lx_set_nonblocking_def)
qed

interpretation lxp: packet_port "linux_api os" lx_alive posix_build lx_ready lx_world "fd_put os" "fd_get os"
  for os :: "'w linux_os"
proof unfold_locales
  fix s :: "'w linux_state" and h c
  assume "lx_ready s h c"
  then show "lx_alive s h" by (auto simp: lx_ready_def lx_alive_def lx_deref_Inr live_def)
next
  fix v pid sn h and s s1 :: "'w linux_state"
  assume "api_open (linux_api os) v pid sn s = (Inr (Some h), s1)"
  then show "\<exists>c s2. api_set_nonblocking (linux_api os) (Some h) 0 s1 = (Inr 0, s2) \<and> lx_ready s2 h c"
    using lx.open_alive lx_unblocked_ready by (simp add: linux_api_def) blast
next
  fix path h and s s1 :: "'w linux_state"
  assume "api_open_path (linux_api os) path s = (Inr (Some h), s1)"
  then show "\<exists>c s2. api_set_nonblocking (linux_api os) (Some h) 0 s1 = (Inr 0, s2) \<and> lx_ready s2 h c"
    using lx.open_path_alive lx_unblocked_ready by (simp add: linux_api_def) blast
next
  fix s :: "'w linux_state" and h f p w1
  assume r: "lx_ready s h f" and "fd_put os f p (lx_world s) = Some w1"
  then obtain n where "os_write os f p (lx_world s) = (Some n, w1)"
    by (auto simp: fd_put_def split: prod.splits option.splits)
  then obtain s1 where "lx_write os (Some h) p s = (Inr (int n), s1)" "lx_ready s1 h f" "lx_world s1 = w1"
    using lx_write_ready [OF r] by blast
  then show "\<exists>n s1. api_write (linux_api os) (Some h) (if b_win32 posix_build then 0 # p else p) s = (Inr n, s1) \<and>
      lx_ready s1 h f \<and> lx_world s1 = w1"
    by (auto simp: linux_api_def posix_build_def)
next
  fix s :: "'w linux_state" and h f x w1
  assume r: "lx_ready s h f" and "fd_get os f (lx_world s) = Some (x, w1)" and l: "length x = 64"
  then have "os_read os f 64 (lx_world s) = (Some x, w1)"
    by (auto simp: fd_get_def split: prod.splits option.splits)
  then obtain s1 where "lx_read os (Some h) 64 s = (Inr (int 64, x), s1)" "lx_ready s1 h f" "lx_world s1 = w1"
    "lx_error (Some h) s1 = Inr None" using lx_read_ready [OF r _ l] by blast
  then show "\<exists>bs s1. api_read (linux_api os) (Some h) (if b_msc posix_build then 65 else 64) s =
        (Inr (int (length bs), bs), s1) \<and> (if b_msc posix_build then bs \<noteq> [] \<and> tl bs = x else bs = x) \<and>
      lx_ready s1 h f \<and> lx_world s1 = w1 \<and> api_error (linux_api os) (Some h) s1 = Inr None"
    using l by (auto simp: linux_api_def posix_build_def)
qed

interpretation lxcp: closing_port "linux_api os" lx_alive posix_build lx_ready lx_world "fd_put os" "fd_get os"
    "\<lambda>_ _. True" for os :: "'w linux_os"
  by unfold_locales simp

section \<open>Property\<close>

text \<open>
  C13. From \<^verbatim>\<open>init\<close> to the results on linux: after a successful \<^verbatim>\<open>init\<close> the wallet holds an open
  hidraw device in blocking mode, and for every sequence of address and signature commands whose
  packets the kernel takes on its descriptor, and answers with the packets of a response each,
  every command returns the data of its own answer or throws its own status; nothing of one
  exchange is left for the next.
\<close>

theorem linux_session:
  assumes "env_api env = linux_api os" and "env_build env = posix_build" and "tb_laws (env_tb env)"
    and "wallet_init env pid (nanos_wallet_new (env_tb env)) s = (Inr True, w1, s1)"
  shows "\<exists>h f. m_dev (m_io (m_framer w1)) = Some h \<and> lx_ready s1 h f \<and>
    (\<forall>script v. dialogues (fd_put os f) (fd_get os f) script (lx_world s1) = Some v \<longrightarrow>
       (\<exists>w' s'. perform_all env (map fst script) w1 s1 = Some (map (\<lambda>(q, x). reply_to q x) script, w', s') \<and>
          wallet_ready w' \<and> lx_ready s' h f \<and> lx_world s' = v))"
proof -
  have "lxp.runs_on os env" using assms(1-3) by (simp add: lxp.runs_on_def)
  from lxp.init_session [OF assms(4) this] show ?thesis .
qed

lemma demo_fd_get: "fd_get demo_os f w = Some (demo_answer, w)"
  by (simp add: fd_get_def demo_os_def)

lemma demo_get_all: "get_all (fd_get demo_os f) [demo_answer] w = Some w"
  by (subst get_all.simps) (subst demo_fd_get, simp)

theorem linux_session_witness:
  "\<exists>w1 s1 w' s'. wallet_init linux_env NANOS_PID (nanos_wallet_new tb_vec) (demo_state 3) = (Inr True, w1, s1) \<and>
     perform_all linux_env [Get_Address 0 False, Get_Address 5 True] w1 s1 =
       Some ([Inr (Address (replicate 20 7)), Inr (Address (replicate 20 7))], w', s')"
proof -
  let ?s1 = "(demo_state 3)\<lparr>lx_heap := [Some demo_device]\<rparr>"
  let ?x = "(0, replicate 20 7, 0x9000) :: answer"
  let ?script = "[(Get_Address 0 False, ?x), (Get_Address 5 True, ?x)]"
  have i: "wallet_init linux_env NANOS_PID (nanos_wallet_new (env_tb linux_env)) (demo_state 3) =
      (Inr True, opened_wallet 0, ?s1)"
    using demo_wallet_init [of "nanos_wallet_new tb_vec" 0 "demo_state 3"] by (simp add: demo_state_def)
  have b: "env_build linux_env = posix_build" "tb_laws (env_tb linux_env)"
    by (simp_all add: linux_env_def posix_build_def tb_vec_laws)
  have put: "put_all (fd_put demo_os f) ps w = Some w" for f ps w
    by (induction ps) (simp_all add: fd_put_def demo_os_def)
  have d: "dialogue (fd_put demo_os f) (fd_get demo_os f) a ?x w = Some w" for f a w
    unfolding dialogue.simps demo_answer_packets put by (simp add: demo_get_all del: get_all.simps)
  have "dialogues (fd_put demo_os f) (fd_get demo_os f) ?script w = Some w" for f w
    by (simp add: d del: dialogue.simps)
  with linux_session [OF linux_env_sel(1) b i] obtain w' s' where
    "perform_all linux_env (map fst ?script) (opened_wallet 0) ?s1 = Some (map (\<lambda>(q, x). reply_to q x) ?script, w', s')"
    by blast
  then show ?thesis using i by auto
qed

end
