(* ===== verification/Stack_Windows.thy ===== *)
theory Stack_Windows
  imports Stack
begin

text \<open>
  The stack on windows, in a build with \<^verbatim>\<open>WIN32\<close> and \<^verbatim>\<open>_MSC_VER\<close>: the backend is a port, whose
  channel is a pair of overlapped requests, one \<^verbatim>\<open>WriteFile\<close> or one \<^verbatim>\<open>ReadFile\<close> a packet. A packet
  travels with the byte of the report id in front: \<^verbatim>\<open>hidpp_device::write\<close> puts it there, \<^verbatim>\<open>read\<close>
  asks for one byte more and drops it.
\<close>

section \<open>The overlapped requests as a channel\<close>

text \<open>The handle, the event, and the lengths of an input and an output report.\<close>

type_synonym wn_channel = "nat \<times> nat \<times> nat \<times> u16"

fun wn_put_packet :: "'w win_os \<Rightarrow> wn_channel \<Rightarrow> u8 list \<Rightarrow> 'w \<Rightarrow> 'w option" where
  "wn_put_packet os (k, e, i, n) p w =
     (let data = 0 # p;
          buf = (if length data \<ge> unat n then data else data @ replicate (unat n - length data) 0);
          (res, w) = wo_write_file os k buf w
      in if \<not> res \<and> wo_last_error os w \<noteq> ERROR_IO_PENDING then None
         else case wo_write_result os k w of (None, w) \<Rightarrow> None | (Some written, w) \<Rightarrow> Some w)"

fun wn_get_packet :: "'w win_os \<Rightarrow> wn_channel \<Rightarrow> 'w \<Rightarrow> (u8 list \<times> 'w) option" where
  "wn_get_packet os (k, e, i, n) w =
     (let (res, w) = wo_read_file os k e i w
      in if \<not> res \<and> wo_last_error os w \<noteq> ERROR_IO_PENDING then None
         else case wo_read_result os k e w of
           (None, w) \<Rightarrow> None
         | (Some bs, w) \<Rightarrow> (case take 65 (take i bs) of [] \<Rightarrow> None | id_byte # p \<Rightarrow> Some (p, w)))"

definition msvc_build :: build where
  "msvc_build = \<lparr>b_win32 = True, b_msc = True\<rparr>"

section \<open>The backend on it\<close>

text \<open>An open device without a recorded error, no read pending.\<close>

definition wn_ready :: "'w win_state \<Rightarrow> nat \<Rightarrow> wn_channel \<Rightarrow> bool" where
  "wn_ready s h c \<longleftrightarrow> (\<exists>d. wn_deref (Some h) s = Inr (h, d) \<and> wn_error_str d = None \<and> \<not> read_pending d \<and>
     c = (hdl d, wn_event d, input_report_length d, output_report_length d))"

lemma wn_ready_world: "wn_ready s h c \<Longrightarrow> wn_ready (s\<lparr>wn_world := w\<rparr>) h c"
  by (simp add: wn_ready_def wn_deref_def)

lemma wn_ready_put:
  assumes "wn_deref (Some h) s = Inr (h, d0)" "wn_error_str d = None" "\<not> read_pending d"
    and "c = (hdl d, wn_event d, input_report_length d, output_report_length d)"
  shows "wn_ready (wn_put h (Some d) (s\<lparr>wn_world := w\<rparr>)) h c"
    "wn_ready (wn_put h (Some d) s) h c"
  using assms by (auto simp: wn_ready_def wn_deref_def wn_put_def handle_at_Inr)

lemma wn_open_path_ready:
  assumes "wn_open_path os path s = (Inr (Some h), s1)"
  shows "\<exists>c. wn_ready s1 h c"
  using assms
  by (auto simp: wn_open_path_def wn_fail_def Let_def wn_ready_def wn_deref_def handle_at_def
      wn_new_hid_device_def split: prod.splits if_splits option.splits)

lemma wn_open_ready:
  assumes "wn_open os v pid sn s = (Inr (Some h), s1)"
  shows "\<exists>c. wn_ready s1 h c"
  using assms wn_open_path_ready by (auto simp: wn_open_def split: prod.splits sum.splits option.splits)

lemma wn_unblocked_ready:
  assumes "\<exists>c. wn_ready s h c"
  shows "\<exists>c s1. wn_set_nonblocking (Some h) 0 s = (Inr 0, s1) \<and> wn_ready s1 h c"
proof -
  obtain d where d: "wn_deref (Some h) s = Inr (h, d)" "wn_error_str d = None" "\<not> read_pending d"
    using assms by (auto simp: wn_ready_def)
  have "wn_ready (wn_put h (Some (d\<lparr>wn_blocking := True\<rparr>)) s) h
      (hdl d, wn_event d, input_report_length d, output_report_length d)"
    by (rule wn_ready_put(2) [OF d(1)]) (use d in \<open>simp_all add: hdl_def\<close>)
  then show ?thesis using d(1) by (auto simp: wn_set_nonblocking_def)
qed

lemma wn_write_ready:
  assumes "wn_ready s h c" "wn_put_packet os c p (wn_world s) = Some w1"
  shows "\<exists>n s1. wn_write os (Some h) (0 # p) s = (Inr n, s1) \<and> wn_ready s1 h c \<and> wn_world s1 = w1"
proof -
  obtain d where d: "wn_deref (Some h) s = Inr (h, d)"
    "c = (hdl d, wn_event d, input_report_length d, output_report_length d)"
    using assms(1) by (auto simp: wn_ready_def)
  obtain n where "wn_write os (Some h) (0 # p) s = (Inr (int n), s\<lparr>wn_world := w1\<rparr>)"
    using assms(2) d by (auto simp: wn_write_def wn_write_buffer_def Let_def
        split: prod.splits option.splits if_splits)
  then show ?thesis using wn_ready_world [OF assms(1)] by auto
qed

lemma wn_read_ready:
  assumes "wn_ready s h c" "wn_get_packet os c (wn_world s) = Some (f, w1)" "length f = 64"
  shows "\<exists>id_byte s1. wn_read os (Some h) 65 s = (Inr (65, id_byte # f), s1) \<and> wn_ready s1 h c \<and>
    wn_world s1 = w1 \<and> wn_error (Some h) s1 = Inr None"
proof -
  obtain d where d: "wn_deref (Some h) s = Inr (h, d)" "wn_error_str d = None" "\<not> read_pending d"
    "c = (hdl d, wn_event d, input_report_length d, output_report_length d)"
    using assms(1) by (auto simp: wn_ready_def)
  let ?i = "input_report_length d"
  obtain res w2 bs id_byte where rd: "wo_read_file os (hdl d) (wn_event d) ?i (wn_world s) = (res, w2)"
    "res \<or> wo_last_error os w2 = ERROR_IO_PENDING"
    "wo_read_result os (hdl d) (wn_event d) w2 = (Some bs, w1)" "take 65 (take ?i bs) = id_byte # f"
    using assms(2) d(4) by (auto simp: Let_def split: prod.splits option.splits if_splits list.splits)
  let ?d = "d\<lparr>read_pending := False, read_buf := replicate ?i 0\<rparr>"
  let ?s1 = "wn_put h (Some ?d) (s\<lparr>wn_world := w1\<rparr>)"
  have l: "length (take ?i bs) \<ge> 65" using arg_cong [OF rd(4), of length] assms(3) by (auto simp: min_def split: if_splits)
  have k: "hdl (d\<lparr>read_pending := x, read_buf := b\<rparr>) = hdl d" for x b by (simp add: hdl_def)
  have same: "d\<lparr>read_buf := b, read_pending := x\<rparr> = d\<lparr>read_pending := x, read_buf := b\<rparr>" for x b
    by (rule wn_device.equality) simp_all
  have start: "wn_start_read os d (wn_world s) = (True, d\<lparr>read_pending := True, read_buf := replicate ?i 0\<rparr>, w2)"
    using rd(1,2) d(3) k by (auto simp: wn_start_read_def Let_def)
  have finish: "wn_finish_read os 65 (d\<lparr>read_pending := True, read_buf := replicate ?i 0\<rparr>) w2 =
      ((65, id_byte # f), ?d, w1)"
    using rd(3,4) k l by (auto simp: wn_finish_read_def Let_def same min_def)
  have "wn_read os (Some h) 65 s = (Inr (65, id_byte # f), ?s1)"
    using d(1) start finish by (simp add: wn_read_def wn_read_timeout_def)
  moreover have "wn_ready ?s1 h c"
    by (rule wn_ready_put(1) [OF d(1)]) (use d k in simp_all)
  moreover have "wn_error (Some h) ?s1 = Inr None"
    using d(1,2) by (simp add: wn_error_def wn_deref_def wn_put_def handle_at_Inr)
      (simp add: handle_at_def split: option.splits if_splits)
  ultimately show ?thesis by (auto simp: wn_put_def)
qed

interpretation wnp: packet_port "windows_api os" wn_alive msvc_build wn_ready wn_world
    "wn_put_packet os" "wn_get_packet os" for os :: "'w win_os"
proof unfold_locales
  fix s :: "'w win_state" and h c
  assume "wn_ready s h c"
  then show "wn_alive s h" by (auto simp: wn_ready_def wn_alive_def wn_deref_def handle_at_Inr live_def)
next
  fix v pid sn h and s s1 :: "'w win_state"
  assume "api_open (windows_api os) v pid sn s = (Inr (Some h), s1)"
  then show "\<exists>c s2. api_set_nonblocking (windows_api os) (Some h) 0 s1 = (Inr 0, s2) \<and> wn_ready s2 h c"
    using wn_open_ready wn_unblocked_ready by (simp add: windows_api_def) blast
next
  fix path h and s s1 :: "'w win_state"
  assume "api_open_path (windows_api os) path s = (Inr (Some h), s1)"
  then show "\<exists>c s2. api_set_nonblocking (windows_api os) (Some h) 0 s1 = (Inr 0, s2) \<and> wn_ready s2 h c"
    using wn_open_path_ready wn_unblocked_ready by (simp add: windows_api_def) blast
next
  fix s :: "'w win_state" and h c p w1
  assume "wn_ready s h c" "wn_put_packet os c p (wn_world s) = Some w1"
  from wn_write_ready [OF this]
  show "\<exists>n s1. api_write (windows_api os) (Some h) (if b_win32 msvc_build then 0 # p else p) s = (Inr n, s1) \<and>
      wn_ready s1 h c \<and> wn_world s1 = w1"
    by (simp add: windows_api_def msvc_build_def)
next
  fix s :: "'w win_state" and h c f w1
  assume a: "wn_ready s h c" "wn_get_packet os c (wn_world s) = Some (f, w1)" "length f = 64"
  from wn_read_ready [OF this] obtain id_byte s1 where
    "wn_read os (Some h) 65 s = (Inr (65, id_byte # f), s1)" "wn_ready s1 h c" "wn_world s1 = w1"
    "wn_error (Some h) s1 = Inr None" by blast
  then show "\<exists>bs s1. api_read (windows_api os) (Some h) (if b_msc msvc_build then 65 else 64) s =
        (Inr (int (length bs), bs), s1) \<and> (if b_msc msvc_build then bs \<noteq> [] \<and> tl bs = f else bs = f) \<and>
      wn_ready s1 h c \<and> wn_world s1 = w1 \<and> api_error (windows_api os) (Some h) s1 = Inr None"
    using a(3) by (intro exI [of _ "id_byte # f"] exI [of _ s1]) (simp add: windows_api_def msvc_build_def)
qed

interpretation wncp: closing_port "windows_api os" wn_alive msvc_build wn_ready wn_world
    "wn_put_packet os" "wn_get_packet os" "\<lambda>_ _. True" for os :: "'w win_os"
  by unfold_locales simp

section \<open>Property\<close>

text \<open>
  C16. From \<^verbatim>\<open>init\<close> to the results on windows: after a successful \<^verbatim>\<open>init\<close>, every sequence of address
  and signature commands whose packets Windows takes with a zero in front, filled up to the
  length of an output report, and answers with reports of at least 65 bytes, whose first byte is
  dropped, gives for every command the data or the status of its own answer.
\<close>

theorem windows_session:
  assumes "env_api env = windows_api os" and "env_build env = msvc_build" and "tb_laws (env_tb env)"
    and "wallet_init env pid (nanos_wallet_new (env_tb env)) s = (Inr True, w1, s1)"
  shows "\<exists>h c. m_dev (m_io (m_framer w1)) = Some h \<and> wn_ready s1 h c \<and>
    (\<forall>script v. dialogues (wn_put_packet os c) (wn_get_packet os c) script (wn_world s1) = Some v \<longrightarrow>
       (\<exists>w' s'. perform_all env (map fst script) w1 s1 = Some (map (\<lambda>(q, x). reply_to q x) script, w', s') \<and>
          wallet_ready w' \<and> wn_ready s' h c \<and> wn_world s' = v))"
proof -
  have "wnp.runs_on os env" using assms(1-3) by (simp add: wnp.runs_on_def)
  from wnp.init_session [OF assms(4) this] show ?thesis .
qed

text \<open>
  A windows machine for the example: one device with the ids of the application, reports of 65
  bytes, and the same answer to every read.
\<close>

definition nano_win :: "unit win_os" where
  "nano_win =
     \<lparr>wo_load_library = (\<lambda>w. (True, w)), wo_proc = (\<lambda>w n. True), wo_free_library = (\<lambda>w. w),
      wo_interfaces = (\<lambda>w. [Some ''hid'']), wo_devinfos = (\<lambda>w. [(Some ''HIDClass'', True)]),
      wo_create_file = (\<lambda>p rw w. (Some 1, w)), wo_close_handle = (\<lambda>k w. w),
      wo_create_event = (\<lambda>w. (2, w)), wo_last_error = (\<lambda>w. 0), wo_message = (\<lambda>e. []),
      wo_errno = (\<lambda>w. 0),
      wo_attributes = (\<lambda>w k. Some \<lparr>wa_vendor_id = LEDGER_VID, wa_product_id = NANOS_PID, wa_version = 1\<rparr>),
      wo_preparsed = (\<lambda>w k. True),
      wo_caps = (\<lambda>w k. Some \<lparr>caps_usage = 1, caps_usage_page = 0xffa0, caps_input_length = 65,
        caps_output_length = 65\<rparr>),
      wo_serial = (\<lambda>w k n. None), wo_manufacturer = (\<lambda>w k n. None), wo_product = (\<lambda>w k n. None),
      wo_indexed = (\<lambda>w k i n. None), wo_set_buffers = (\<lambda>k n w. (True, w)),
      wo_write_file = (\<lambda>k bs w. (True, w)), wo_write_result = (\<lambda>k w. (Some 65, w)),
      wo_read_file = (\<lambda>k e n w. (True, w)), wo_wait = (\<lambda>e ms w. (True, w)),
      wo_read_result = (\<lambda>k e w. (Some (0 # demo_answer), w)), wo_cancel = (\<lambda>k w. w),
      wo_set_feature = (\<lambda>k bs w. (True, w)), wo_ioctl = (\<lambda>k c bs w. (True, w)),
      wo_ioctl_result = (\<lambda>k w. (None, w))\<rparr>"

lemma nano_win_sel:
  "wo_interfaces nano_win w = [Some ''hid'']" "wo_devinfos nano_win w = [(Some ''HIDClass'', True)]"
  "wo_create_file nano_win path rw w = (Some 1, w)" "wo_create_event nano_win w = (2, w)"
  "wo_attributes nano_win w k = Some \<lparr>wa_vendor_id = LEDGER_VID, wa_product_id = NANOS_PID, wa_version = 1\<rparr>"
  "wo_caps nano_win w k = Some \<lparr>caps_usage = 1, caps_usage_page = 0xffa0, caps_input_length = 65,
     caps_output_length = 65\<rparr>"
  "wo_preparsed nano_win w k" "wo_set_buffers nano_win k n w = (True, w)"
  by (simp_all add: nano_win_def)

definition nano_win_state :: "wn_device option list \<Rightarrow> unit win_state" where
  "nano_win_state heap = \<lparr>wn_world = (), lib_handle = True, wn_initialized = True, wn_heap = heap\<rparr>"

definition nano_win_device :: wn_device where
  "nano_win_device = (wn_new_hid_device 2)\<lparr>wn_handle := Some 1, output_report_length := 65,
     input_report_length := 65, read_buf := replicate 65 0\<rparr>"

definition nano_win_env :: "unit win_state env" where
  "nano_win_env = \<lparr>env_build = msvc_build, env_tb = tb_vec, env_api = windows_api nano_win,
     env_lib = \<lparr>narrow = (\<lambda>_. None), tl_strerror = (\<lambda>_. [])\<rparr>, env_sleep = (\<lambda>_ s. s)\<rparr>"

lemma nano_win_env_sel [simp]:
  "env_api nano_win_env = windows_api nano_win" "env_tb nano_win_env = tb_vec"
  by (simp_all add: nano_win_env_def)

definition nano_win_record :: dev_info where
  "nano_win_record = wn_record nano_win () 1 ''hid''
     \<lparr>wa_vendor_id = LEDGER_VID, wa_product_id = NANOS_PID, wa_version = 1\<rparr>"

lemma nano_win_record_ids: "di_vendor_id nano_win_record = LEDGER_VID" "di_product_id nano_win_record = NANOS_PID"
    "di_path nano_win_record = Some ''hid''"
  by (simp_all add: nano_win_record_def wn_record_def Let_def)

lemma nano_win_enumerate:
  "wn_enumerate nano_win v p (nano_win_state heap) =
    (Inr (if id_matches v p LEDGER_VID NANOS_PID then [nano_win_record] else []), nano_win_state heap)"
proof -
  have "wn_enum_entry nano_win v p (Some ''hid'') () =
      (Inr (if id_matches v p LEDGER_VID NANOS_PID then Some nano_win_record else None), ())"
    by (simp add: wn_enum_entry_def open_device_def nano_win_record_def nano_win_sel)
  then show ?thesis by (simp add: wn_enumerate_def wn_hid_init_def nano_win_state_def nano_win_sel)
qed

lemma nano_win_open:
  "wn_open nano_win LEDGER_VID NANOS_PID None (nano_win_state heap) =
    (Inr (Some (length heap)), nano_win_state (heap @ [Some nano_win_device]))"
proof -
  have "wn_open_path nano_win (Some ''hid'') (nano_win_state heap) =
      (Inr (Some (length heap)), nano_win_state (heap @ [Some nano_win_device]))"
    by (simp add: wn_open_path_def wn_hid_init_def Let_def open_device_def nano_win_device_def
        nano_win_sel nano_win_state_def wn_new_hid_device_def)
  then show ?thesis by (simp add: wn_open_def nano_win_enumerate id_matches_def nano_win_record_ids)
qed

lemma nano_win_init:
  "\<exists>w1. wallet_init nano_win_env NANOS_PID (nanos_wallet_new tb_vec) (nano_win_state []) =
    (Inr True, w1, nano_win_state [Some nano_win_device]) \<and> m_dev (m_io (m_framer w1)) = Some 0"
proof -
  have e: "wenumerate nano_win_env LEDGER_VID NANOS_PID_ROOT w (nano_win_state heap) = (Inr [], w, nano_win_state heap)"
    "wenumerate nano_win_env LEDGER_VID NANOS_PID w (nano_win_state heap) = (Inr [nano_win_record], w, nano_win_state heap)"
    for w heap
    by (simp_all add: wenumerate_def enumerate_devices_def windows_api_def nano_win_enumerate
        id_matches_def LEDGER_VID_def NANOS_PID_def NANOS_PID_ROOT_def)
  have b: "nano_win_device\<lparr>wn_blocking := True\<rparr> = nano_win_device"
    by (simp add: nano_win_device_def wn_new_hid_device_def)
  have n: "wn_set_nonblocking (Some 0) 0 (nano_win_state [Some nano_win_device]) =
      (Inr 0, nano_win_state [Some nano_win_device])"
    by (simp add: wn_set_nonblocking_def wn_deref_def handle_at_def nano_win_state_def wn_put_def b)
  have o: "hidpp_open (windows_api nano_win) (hidpp_device_ids LEDGER_VID NANOS_PID) (nano_win_state []) =
    (Inr True, (hidpp_device_ids LEDGER_VID NANOS_PID)\<lparr>m_dev := Some 0\<rparr>, nano_win_state [Some nano_win_device])"
    using nano_win_open [of "[]"] n
    by (simp add: hidpp_open_def lock_guard_def hidpp_device_ids_def windows_api_def LEDGER_VID_def NANOS_PID_def)
  have d: "hidpp_assign (m_io (m_framer (nanos_wallet_new tb_vec))) (hidpp_copy (hidpp_device_ids LEDGER_VID NANOS_PID)) =
      hidpp_device_ids LEDGER_VID NANOS_PID" "m_devLock (nanos_wallet_new tb_vec) = False"
    by (simp_all add: nanos_wallet_new_def hidpp_assign_def hidpp_copy_def hidpp_device_ids_def frame_io_apdu_new_def)
  show ?thesis
    using o d
    by (simp add: wallet_init_def wlock_def wbind_def e assign_framer_def open_framer_def wio_def
        nano_win_record_ids io_valid_def hidpp_valid_def frame_io_apdu_new_def Let_def)
qed

lemma nano_win_put_all: "put_all (wn_put_packet nano_win c) ps w = Some w"
  by (cases c, induction ps) (simp_all add: nano_win_def Let_def)

lemma nano_win_get: "wn_get_packet nano_win (k, e, 65, n) w = Some (demo_answer, w)"
proof -
  have "take 65 (0 # demo_answer) = 0 # demo_answer" by (simp add: demo_answer_def)
  then show ?thesis by (simp add: nano_win_def)
qed

theorem windows_session_witness:
  "\<exists>w1 s1 w' s'. wallet_init nano_win_env NANOS_PID (nanos_wallet_new tb_vec) (nano_win_state []) = (Inr True, w1, s1) \<and>
     perform_all nano_win_env [Get_Address 0 False, Get_Address 5 True] w1 s1 =
       Some ([Inr (Address (replicate 20 7)), Inr (Address (replicate 20 7))], w', s')"
proof -
  let ?s1 = "nano_win_state [Some nano_win_device]"
  let ?x = "(0, replicate 20 7, 0x9000) :: answer"
  let ?script = "[(Get_Address 0 False, ?x), (Get_Address 5 True, ?x)]"
  obtain w1 where i: "wallet_init nano_win_env NANOS_PID (nanos_wallet_new (env_tb nano_win_env)) (nano_win_state []) =
      (Inr True, w1, ?s1)" and dev: "m_dev (m_io (m_framer w1)) = Some 0"
    using nano_win_init by auto
  have b: "env_build nano_win_env = msvc_build" "tb_laws (env_tb nano_win_env)"
    by (simp_all add: nano_win_env_def tb_vec_laws)
  obtain h c where c: "m_dev (m_io (m_framer w1)) = Some h" "wn_ready ?s1 h c" and run:
    "\<And>script v. dialogues (wn_put_packet nano_win c) (wn_get_packet nano_win c) script (wn_world ?s1) = Some v \<Longrightarrow>
       \<exists>w' s'. perform_all nano_win_env (map fst script) w1 ?s1 = Some (map (\<lambda>(q, x). reply_to q x) script, w', s')"
    using windows_session [OF nano_win_env_sel(1) b i] by blast
  have "c = (1, 2, 65, 65)"
    using c dev by (auto simp: wn_ready_def wn_deref_def handle_at_def nano_win_state_def nano_win_device_def
        wn_new_hid_device_def hdl_def)
  then have get: "get_all (wn_get_packet nano_win c) [demo_answer] w = Some w" for w
    by (subst get_all.simps) (simp only: nano_win_get, simp)
  have d: "dialogue (wn_put_packet nano_win c) (wn_get_packet nano_win c) a ?x w = Some w" for a w
    unfolding dialogue.simps demo_answer_packets nano_win_put_all by (simp add: get del: get_all.simps)
  have "dialogues (wn_put_packet nano_win c) (wn_get_packet nano_win c) ?script w = Some w" for w
    by (simp add: d del: dialogue.simps)
  from run [OF this] show ?thesis using i by auto
qed

end
