(* ===== verification/Cli_Correct.thy ===== *)
theory Cli_Correct
  imports Cli Stack_Linux Stack_Windows
begin

text \<open>
  Properties of the command line tool: how it ends, and a whole run of \<^verbatim>\<open>get-address\<close>, from the
  arguments through the wallet and the hidraw backend down to the packets on the descriptor.
\<close>

section \<open>Dumps\<close>

fun join_text :: "string \<Rightarrow> string list \<Rightarrow> string" where
  "join_text sep [] = []"
| "join_text sep [x] = x"
| "join_text sep (x # y # ys) = x @ sep @ join_text sep (y # ys)"

lemma dump_hex_loop_join:
  assumes "tb_laws tb" "n \<le> length data"
  shows "dump_hex_loop tb data n ss =
    Inr (ss @ join_text '' '' (map (\<lambda>b. tb_to_hex tb [b]) (drop (length data - n) data)))"
  using assms(2)
proof (induction n arbitrary: ss)
  case (Suc n)
  let ?i = "length data - Suc n"
  have i: "?i < length data" "Suc ?i = length data - n" using Suc.prems by auto
  have d: "drop ?i data = data ! ?i # drop (length data - n) data"
    using Cons_nth_drop_Suc [OF i(1)] i(2) by simp
  have last: "?i = length data - 1 \<longleftrightarrow> n = 0" using Suc.prems by auto
  show ?case
  proof (cases n)
    case 0
    then show ?thesis using d tb_lawsD(7) [OF assms(1) i(1)] by (simp add: Let_def)
  next
    case (Suc m)
    then have "drop (length data - n) data \<noteq> []" using Suc.prems by auto
    then obtain y ys where "drop (length data - n) data = y # ys" by (cases "drop (length data - n) data") auto
    then show ?thesis using d tb_lawsD(7) [OF assms(1) i(1)] Suc.IH Suc.prems last Suc by (simp add: Let_def)
  qed
qed simp

lemma dumpHexRet_join:
  assumes "tb_laws tb"
  shows "dumpHexRet tb data = Inr (''['' @ join_text '' '' (map (\<lambda>b. tb_to_hex tb [b]) data) @ '']'')"
  using dump_hex_loop_join [OF assms, of "length data" data] by (simp add: dumpHexRet_def)

text \<open>The signature in one piece is its three parts in a row.\<close>

lemma outInline_append:
  assumes "tb_laws tb" "length (sig_r sign) = 32" "length (sig_s sign) = 32" "length (sig_v sign) = 1"
  shows "outInline tb sign = Inr (sig_r sign @ sig_s sign @ sig_v sign)"
  using assms tb_lawsD(1,2) [OF assms(1)]
  by (simp add: outInline_def overwrite_def)

section \<open>How the program ends\<close>

definition returns_0 :: "(int \<times> 'o, 's) wallet_run \<Rightarrow> bool" where
  "returns_0 m \<longleftrightarrow> (\<forall>w s r w' s'. m w s = Some (Inr r, w', s') \<longrightarrow> fst r = 0)"

lemma returns_0_bind [intro!]: "(\<And>x. returns_0 (k x)) \<Longrightarrow> returns_0 (run_bind m k)"
  unfolding returns_0_def run_bind_def by (auto split: option.splits sum.splits prod.splits)

lemma returns_0_res [intro!]: "returns_0 (run_res (Inr (0, out)))"
  by (simp add: returns_0_def run_res_def)

lemma returns_0_if [intro!]: "returns_0 m \<Longrightarrow> returns_0 n \<Longrightarrow> returns_0 (if b then m else n)"
  by simp

lemma after_init_codes:
  assumes "returns_0 rest" and "after_init c rest w s = Some (Inr (code, out), w', s')"
  shows "code = 0 \<or> code = 1 \<and> out = []"
  using assms unfolding returns_0_def
  by (fastforce simp: after_init_def run_bind_def run_op_def run_res_def
      split: option.splits sum.splits prod.splits if_splits)

lemma with_wallet_codes:
  assumes "returns_0 rest" and "with_wallet c (after_init c rest) s = Some (Inr (code, out), s')"
  shows "code = 0 \<or> code = 1 \<and> out = []"
proof -
  obtain w1 s1 where
    "after_init c rest (nanos_wallet_new (env_tb (cli_env c))) (cli_hid_init c s) = Some (Inr (code, out), w1, s1)"
    using assms(2) by (auto simp: with_wallet_def split: option.splits sum.splits prod.splits if_splits)
  then show ?thesis by (rule after_init_codes [OF assms(1)])
qed

lemma action_codes:
  assumes "action_map c cmdName = Some action" "action vm s = Some (Inr (code, out), s')"
  shows "code = 0 \<or> code = 1 \<and> out = []"
proof -
  consider "action = action_get_address c" | "action = action_sign_tx c" | "action = action_app_version c"
    using assms(1) by (auto simp: action_map_def split: if_splits)
  then show ?thesis
  proof cases
    case 1
    show ?thesis
      by (rule with_wallet_codes [OF _ assms(2) [unfolded 1 action_get_address_def]]) (auto simp: Let_def)
  next
    case 2
    show ?thesis
      by (rule with_wallet_codes [OF _ assms(2) [unfolded 2 action_sign_tx_def]]) (auto simp: Let_def)
  next
    case 3
    show ?thesis
      by (rule with_wallet_codes [OF _ assms(2) [unfolded 3 action_app_version_def]]) (auto simp: Let_def)
  qed
qed

lemma handleArgs_fault:
  "fst (handleArgs c desc argv) = Inl e \<Longrightarrow> \<not> is_exception e \<or> cli_parse c desc argv = Inl e"
  by (auto simp: handleArgs_def split: sum.splits if_splits)

section \<open>A run of get-address\<close>

text \<open>
  The arguments are accepted: a command, and options that parse to \<open>vm\<close> without asking for help.
\<close>

definition accepts :: "'s cli \<Rightarrow> string list \<Rightarrow> variables_map \<Rightarrow> bool" where
  "accepts c argv vm \<longleftrightarrow>
     length argv \<ge> 2 \<and> cli_parse c (opts_map (argv ! 1) main_opts) argv = Inr vm \<and>
     \<not> po_count vm ''help'' \<and> cli_notify c vm = Inr ()"

lemma cli_main_command:
  assumes "accepts c argv vm" "action_map c (argv ! 1) = Some action"
  shows "cli_main c argv s =
    (case action vm s of
       None \<Rightarrow> None
     | Some (Inr (code, result), s1) \<Rightarrow> Some (Exit code, result, s1)
     | Some (Inl e, s1) \<Rightarrow>
         (if is_exception e then Some (Exit 1, [Cerr (what (cli_lib_what c e) e @ newline)], s1)
          else Some (Terminate e, [], s1)))"
  using assms
  by (auto simp: accepts_def cli_main_def handleArgs_def Let_def split: option.splits sum.splits prod.splits)

text \<open>An action that gets as far as a wallet that can be destroyed ends with its own result.\<close>

lemma with_wallet_ends:
  assumes "wallet_init (cli_env c) NANOS_PID_16_APP (nanos_wallet_new (env_tb (cli_env c))) (cli_hid_init c s) =
      (Inr True, w1, s1)"
    and "rest w1 s1 = Some (r, w2, s2)" and "\<And>e. r = Inl e \<Longrightarrow> is_exception e"
    and "wallet_delete c w2 s2 = (Inr (), s3)"
  shows "with_wallet c (after_init c rest) s = Some (r, s3)"
  using assms by (auto simp: with_wallet_def after_init_def run_bind_def run_op_def split: sum.splits)

definition address_output :: "'s cli \<Rightarrow> variables_map \<Rightarrow> u8 list \<Rightarrow> cli_output list" where
  "address_output c vm address =
     [Cout (if po_count vm ''inline'' then cli_address_text c address
            else ''Address: '' @ cli_address_text c address @ newline)]"

lemma action_get_address_run:
  assumes "wallet_init (cli_env c) NANOS_PID_16_APP (nanos_wallet_new (env_tb (cli_env c))) (cli_hid_init c s) =
      (Inr True, w1, s1)"
    and "vm ''index'' = Some (PO_Uint32 index)"
    and "get_address (cli_env c) index (po_count vm ''silent'') w1 s1 = Some (r, w2, s2)"
    and "\<And>e. r = Inl e \<Longrightarrow> is_exception e" and "wallet_delete c w2 s2 = (Inr (), s3)"
  shows "action_get_address c vm s = Some (bind_res r (\<lambda>a. Inr (0, address_output c vm a)), s3)"
  unfolding action_get_address_def
  by (rule with_wallet_ends [OF assms(1) _ _ assms(5)])
    (use assms(2-4) in \<open>cases r; simp add: run_bind_def run_res_def as_uint32_def Let_def address_output_def\<close>)+

text \<open>Over a backend that is a port and closes what it opened.\<close>

context closing_port
begin

lemma connected_get_address:
  assumes "runs_on env" "connected w s h ch"
    and "dialogues (put ch) (get ch) [(Get_Address index silent, pad, data, sw)] (world s) = Some w1"
  shows "\<exists>w' s'. get_address env index silent w s =
      Some (if sw = 0x9000 then Inr (take 20 data)
            else Inl (Exchange_Error (''Unable to get address: '' @ ledger_status_to_string sw) sw), w', s') \<and>
    connected w' s' h ch"
proof -
  have tb: "tb_laws (env_tb env)" using assms(1) by (simp add: runs_on_def)
  let ?a = "command_apdu 2 (of_bool silent) (be32 index)"
  have d: "dialogue (put ch) (get ch) ?a (pad, data, sw) (world s) = Some w1"
    and l: "sw \<noteq> 0x9000 \<or> 20 \<le> length data"
    using assms(3) by (auto simp: bind_eq_Some_conv simp del: dialogue.simps split: if_splits)
  have wf: "apdu_wf ?a" by (simp add: command_apdu_wf)
  obtain w' s' where x: "wallet_exchange env ?a CODE_SUCCESS w s = Some (Inr (data, sw), w', s')"
    "connected w' s' h ch"
    using connected_exchange [OF assms(1,2) wf d] by blast
  have "get_address env index silent w s =
      Some (if sw = 0x9000 then tb_take_range (env_tb env) data 0 20
            else Inl (Exchange_Error (''Unable to get address: '' @ ledger_status_to_string sw) sw), w', s')"
    unfolding get_address_def by (rule command_result [OF x(1) get_address_apdu_ok [OF tb]])
  then show ?thesis using x(2) l tb_lawsD(8) [OF tb, of 0 20 data] by auto
qed

lemma connected_delete:
  assumes "runs_on (cli_env c)" "connected w s h ch"
  shows "\<exists>s'. wallet_delete c w s = (Inr (), s')"
proof -
  have w: "wallet_ready w" "m_dev (m_io (m_framer w)) = Some h" "ready s h ch"
    "\<not> m_dev_lock (m_io (m_framer w))" "env_api (cli_env c) = api"
    using assms by (simp_all add: connected_def runs_on_def framer_at_def frame_reset_def)
  obtain s1 where "api_close api (Some h) s = (Inr (), s1)" using ready_closes [OF w(3)] by blast
  then show ?thesis
    using w by (simp add: wallet_delete_def wallet_close_def wbind_def wio_def hidpp_close_def lock_guard_def
        wallet_ready_def)
qed

lemma get_address_run:
  assumes "accepts c argv vm" "argv ! 1 = ''get-address''" "vm ''index'' = Some (PO_Uint32 index)"
    and "runs_on (cli_env c)"
    and init: "wallet_init (cli_env c) NANOS_PID_16_APP (nanos_wallet_new (env_tb (cli_env c)))
      (cli_hid_init c s) = (Inr True, w1, s1)"
  shows "\<exists>h ch. m_dev (m_io (m_framer w1)) = Some h \<and> ready s1 h ch \<and>
    (\<forall>pad data sw w2.
       dialogues (put ch) (get ch) [(Get_Address index (po_count vm ''silent''), pad, data, sw)] (world s1) =
         Some w2 \<longrightarrow>
       (\<exists>s'. cli_main c argv s = Some
         (if sw = 0x9000 then (Exit 0, address_output c vm (take 20 data), s')
          else (Exit 1, [Cerr (''Unable to get address: '' @ ledger_status_to_string sw @ newline)], s'))))"
proof -
  obtain h ch where hc: "connected w1 s1 h ch" using wallet_init_connects [OF init assms(4)] by blast
  have run: "\<exists>s'. cli_main c argv s = Some
      (if sw = 0x9000 then (Exit 0, address_output c vm (take 20 data), s')
       else (Exit 1, [Cerr (''Unable to get address: '' @ ledger_status_to_string sw @ newline)], s'))"
    if d: "dialogues (put ch) (get ch) [(Get_Address index (po_count vm ''silent''), pad, data, sw)] (world s1) =
      Some w2" for pad data sw w2
  proof -
    let ?r = "if sw = 0x9000 then Inr (take 20 data)
      else Inl (Exchange_Error (''Unable to get address: '' @ ledger_status_to_string sw) sw)"
    obtain w3 s3 where g: "get_address (cli_env c) index (po_count vm ''silent'') w1 s1 = Some (?r, w3, s3)"
      "connected w3 s3 h ch" using connected_get_address [OF assms(4) hc d] by blast
    obtain s4 where "wallet_delete c w3 s3 = (Inr (), s4)" using connected_delete [OF assms(4) g(2)] by blast
    then have "action_get_address c vm s = Some (bind_res ?r (\<lambda>a. Inr (0, address_output c vm a)), s4)"
      by (intro action_get_address_run [OF init assms(3) g(1)]) (auto split: if_splits)
    then show ?thesis
      using cli_main_command [OF assms(1), of "action_get_address c" s] assms(2) by (simp add: action_map_def)
  qed
  then show ?thesis using hc unfolding connected_def by blast
qed

end

text \<open>The options a command line is parsed with, when it is parsed at all.\<close>

definition parsed_with :: "'s cli \<Rightarrow> string list \<Rightarrow> po_option list \<Rightarrow> bool" where
  "parsed_with c argv desc \<longleftrightarrow>
     (if length argv = 1 then desc = main_opts
      else length argv \<ge> 2 \<and> action_map c (argv ! 1) \<noteq> None \<and> desc = opts_map (argv ! 1) main_opts)"

lemma main_result_cases:
  assumes "cli_main c argv s = Some (r, out, s')"
  shows "case r of Exit code \<Rightarrow> code = 0 \<or> code = 1
    | Terminate e \<Rightarrow> \<not> is_exception e \<or> (\<exists>desc. parsed_with c argv desc \<and> cli_parse c desc argv = Inl e)"
proof -
  note main = assms
  have h: "\<not> is_exception e \<or> (\<exists>desc. parsed_with c argv desc \<and> cli_parse c desc argv = Inl e)"
    if "handleArgs c desc argv = (Inl e, o')" "parsed_with c argv desc" for desc e o'
    using handleArgs_fault [of c desc argv e] that by auto
  consider "length argv = 1" | "length argv \<noteq> 1" "\<not> length argv \<ge> 2"
    | "length argv \<ge> 2" "action_map c (argv ! 1) = None"
    | action where "length argv \<ge> 2" "action_map c (argv ! 1) = Some action" by fastforce
  then show ?thesis
  proof cases
    case 1
    then have p: "parsed_with c argv main_opts" by (simp add: parsed_with_def)
    show ?thesis using main h [OF _ p] 1
      by (auto simp: cli_main_def split: sum.splits prod.splits)
  next
    case 4
    let ?desc = "opts_map (argv ! 1) main_opts"
    have p: "parsed_with c argv ?desc" using 4 by (simp add: parsed_with_def)
    obtain hr o1 where hr: "handleArgs c ?desc argv = (hr, o1)" by fastforce
    show ?thesis
    proof (cases hr)
      case (Inl e)
      then show ?thesis using main 4 hr h [OF _ p, of e o1] by (auto simp: cli_main_def Let_def)
    next
      case (Inr x)
      obtain ret vm where x: "x = (ret, vm)" by fastforce
      show ?thesis
      proof (cases "ret \<and> \<not> po_count vm ''help''")
        case True
        then obtain ar s1 where a: "action vm s = Some (ar, s1)"
          using main 4 hr Inr x by (cases "action vm s") (auto simp: cli_main_def)
        show ?thesis using main 4 hr Inr x True a action_codes [OF 4(2), of vm s]
          by (cases ar) (auto simp: cli_main_def Let_def split: if_splits)
      qed (use main 4 hr Inr x in \<open>auto simp: cli_main_def split: if_splits\<close>)
    qed
  qed (use main in \<open>auto simp: cli_main_def\<close>)
qed

section \<open>Properties\<close>

text \<open>
  C28. The program exits with 0 or 1, and otherwise ends only by undefined behaviour, a deadlock, or
  an exception of the option parser. That exception is not caught: it ends the process, with
  nothing written, before any device is touched. The exception for a missing option is
  caught: the program exits with 1 after its text and the usage. Whatever
  exception an action throws is caught and ends the program with 1 and its text on the error
  stream. An unknown command, which is any first argument that is not one of the three, also
  \<^verbatim>\<open>--help\<close>, exits with 1 and is never parsed.
\<close>

theorem cli_main_ends:
  "(cli_main c argv s = Some (r, out, s') \<longrightarrow>
      (case r of Exit code \<Rightarrow> code = 0 \<or> code = 1
       | Terminate e \<Rightarrow> \<not> is_exception e \<or> (\<exists>desc. parsed_with c argv desc \<and> cli_parse c desc argv = Inl e))) \<and>
   (parsed_with c argv desc \<and> cli_parse c desc argv = Inl e \<longrightarrow> cli_main c argv s = Some (Terminate e, [], s)) \<and>
   (parsed_with c argv desc \<and> cli_parse c desc argv = Inr vm \<and> \<not> po_count vm ''help'' \<and>
      cli_notify c vm = Inl e \<and> is_exception e \<longrightarrow>
      (\<exists>more. cli_main c argv s =
         Some (Exit 1, [Cerr (''Error:'' @ newline @ ''  ''), Cerr (what (cli_lib_what c e) e),
           Cerr (newline @ newline), Cout (cli_usage c desc @ newline)] @ more, s))) \<and>
   (accepts c argv vm \<and> action_map c (argv ! 1) = Some action \<and> action vm s = Some (Inl e, s1) \<and>
      is_exception e \<longrightarrow>
      cli_main c argv s = Some (Exit 1, [Cerr (what (cli_lib_what c e) e @ newline)], s1)) \<and>
   (length argv \<ge> 2 \<and> argv ! 1 \<notin> {''get-address'', ''sign-tx'', ''app-version''} \<longrightarrow>
      cli_main c argv s = Some (Exit 1, [Cerr (''Unknown command: '' @ argv ! 1 @ newline @ newline),
        Cout (cli_usage c main_opts @ newline)], s))"
proof (intro conjI impI)
  assume "cli_main c argv s = Some (r, out, s')"
  then show "case r of Exit code \<Rightarrow> code = 0 \<or> code = 1
    | Terminate e \<Rightarrow> \<not> is_exception e \<or> (\<exists>desc. parsed_with c argv desc \<and> cli_parse c desc argv = Inl e)"
    by (rule main_result_cases)
next
  assume "parsed_with c argv desc \<and> cli_parse c desc argv = Inl e"
  then show "cli_main c argv s = Some (Terminate e, [], s)"
    by (auto simp: parsed_with_def cli_main_def handleArgs_def split: if_splits)
next
  assume "parsed_with c argv desc \<and> cli_parse c desc argv = Inr vm \<and> \<not> po_count vm ''help'' \<and>
    cli_notify c vm = Inl e \<and> is_exception e"
  then show "\<exists>more. cli_main c argv s =
      Some (Exit 1, [Cerr (''Error:'' @ newline @ ''  ''), Cerr (what (cli_lib_what c e) e),
        Cerr (newline @ newline), Cout (cli_usage c desc @ newline)] @ more, s)"
    by (auto simp: parsed_with_def cli_main_def handleArgs_def split: if_splits)
next
  assume a: "accepts c argv vm \<and> action_map c (argv ! 1) = Some action \<and> action vm s = Some (Inl e, s1) \<and>
    is_exception e"
  show "cli_main c argv s = Some (Exit 1, [Cerr (what (cli_lib_what c e) e @ newline)], s1)"
    by (subst cli_main_command) (use a in auto)
next
  assume "length argv \<ge> 2 \<and> argv ! 1 \<notin> {''get-address'', ''sign-tx'', ''app-version''}"
  then show "cli_main c argv s = Some (Exit 1, [Cerr (''Unknown command: '' @ argv ! 1 @ newline @ newline),
      Cout (cli_usage c main_opts @ newline)], s)"
    by (auto simp: cli_main_def action_map_def)
qed

text \<open>
  C27. \<^verbatim>\<open>mhwallet get-address\<close> on linux, from its arguments to the packets on the descriptor: when
  \<^verbatim>\<open>init\<close> finds and opens the application, the wallet holds an open hidraw device, and whenever
  the kernel takes the packets of the address command on its descriptor and answers with the
  packets of a response, the program closes the device and prints the text of the first 20 bytes
  of the response, after \<^verbatim>\<open>Address:\<close> unless \<^verbatim>\<open>--inline\<close> was given, and exits with 0; when the status
  of the response is another, it prints the text of the status on the error stream and exits
  with 1.
\<close>

theorem cli_get_address_correct:
  assumes "accepts c argv vm" and "argv ! 1 = ''get-address''" and "vm ''index'' = Some (PO_Uint32 index)"
    and "env_api (cli_env c) = linux_api os" and "env_build (cli_env c) = posix_build"
    and "tb_laws (env_tb (cli_env c))"
    and "wallet_init (cli_env c) NANOS_PID_16_APP (nanos_wallet_new (env_tb (cli_env c))) (cli_hid_init c s) =
      (Inr True, w1, s1)"
  shows "\<exists>h f. m_dev (m_io (m_framer w1)) = Some h \<and> lx_ready s1 h f \<and>
    (\<forall>pad data sw v.
       dialogues (fd_put os f) (fd_get os f) [(Get_Address index (po_count vm ''silent''), pad, data, sw)]
         (lx_world s1) = Some v \<longrightarrow>
       (\<exists>s'. cli_main c argv s = Some
         (if sw = 0x9000 then
            (Exit 0, [Cout (if po_count vm ''inline'' then cli_address_text c (take 20 data)
               else ''Address: '' @ cli_address_text c (take 20 data) @ newline)], s')
          else (Exit 1, [Cerr (''Unable to get address: '' @ ledger_status_to_string sw @ newline)], s'))))"
proof -
  have "lxp.runs_on os (cli_env c)" using assms(4-6) by (simp add: lxp.runs_on_def)
  from lxcp.get_address_run [OF assms(1-3) this assms(7)] show ?thesis unfolding address_output_def .
qed

section \<open>Examples\<close>

text \<open>
  The machine of the linux examples, whose Ledger runs an application with the product id the
  program asks for, and a command line whose options are all at their defaults.
\<close>

definition app_lines :: "nat \<Rightarrow> (string \<times> string) list" where
  "app_lines n =
     (if n = 3 then [(''HID_ID'', hid_id_value 3 0x2c97 0x1005), (''HID_NAME'', ''Nano''), (''HID_UNIQ'', ''7'')]
      else [(''HID_NAME'', ''K''), (''HID_UNIQ'', ''8'')])"

definition app_os :: "(int \<times> int list) linux_os" where
  "app_os = demo_os\<lparr>udev_sysattr :=
     (\<lambda>w d k. if k = ''uevent'' then Some (uevent_text (app_lines (the d))) else None)\<rparr>"

definition app_env :: "(int \<times> int list) linux_state env" where
  "app_env = linux_env\<lparr>env_api := linux_api app_os\<rparr>"

definition app_cli :: "(int \<times> int list) linux_state cli" where
  "app_cli =
     \<lparr>cli_env = app_env, cli_hid_init = (\<lambda>s. s), cli_hid_exit = (\<lambda>s. s),
      cli_parse = (\<lambda>desc argv. Inr [''index'' \<mapsto> PO_Uint32 0]), cli_notify = (\<lambda>vm. Inr ()),
      cli_usage = (\<lambda>desc. ''usage''), cli_address_text = (\<lambda>bs. ''Mx'' @ concat (map hex_byte bs)),
      cli_lib_what = (\<lambda>e. ''error'')\<rparr>"

lemma app_lines_wf: "uevent_wf (app_lines n)"
  by (simp add: app_lines_def uevent_wf_def hid_id_value_no_nl)

lemma app_uevent_keyboard: "parse_uevent_info (Some (uevent_text (app_lines 2))) =
   Inr (False, \<lparr>ue_bus_type = None, ue_vendor_id = None, ue_product_id = None, ue_serial = Some ''8'',
     ue_name = Some ''K'', found_id = False, found_serial = True, found_name = True\<rparr>)"
  unfolding parse_uevent_info_def option.case uevent_lines_text [OF app_lines_wf] Let_def
  by (simp add: app_lines_def uevent_key_def uevent_init_def)

lemma app_uevent_nano: "parse_uevent_info (Some (uevent_text (app_lines 3))) =
   Inr (True, \<lparr>ue_bus_type = Some 3, ue_vendor_id = Some 0x2c97, ue_product_id = Some 0x1005,
     ue_serial = Some ''7'', ue_name = Some ''Nano'', found_id = True, found_serial = True,
     found_name = True\<rparr>)"
  unfolding parse_uevent_info_def option.case uevent_lines_text [OF app_lines_wf] Let_def
  by (simp add: app_lines_def uevent_key_def uevent_init_def sscanf_hid_id)

definition app_nano :: dev_info where
  "app_nano = demo_nano\<lparr>di_product_id := 0x1005\<rparr>"

lemma app_enumerate:
  "lx_enumerate app_os vid pid s = (Inr (if id_matches vid pid 0x2c97 0x1005 then [app_nano] else []), s)"
  by (simp add: lx_enumerate_def hid_init_def app_os_def demo_os_def lx_enum_entry_def Let_def
      app_uevent_keyboard app_uevent_nano BUS_USB_def BUS_BLUETOOTH_def app_nano_def demo_nano_def
      lx_bus_fields_def calloc_dev_info_def copy_udev_string_def utf8_to_wchar_t_def)

lemma app_open_path:
  "lx_world s = (3, cl) \<Longrightarrow> lx_open_path app_os p s =
     (Inr (Some (length (lx_heap s))),
      s\<lparr>lx_heap := lx_heap s @ [Some demo_device], last_global_error_str := None\<rparr>)"
  using demo_numbered
  by (cases s) (simp add: lx_open_path_def app_os_def demo_os_def hid_init_def register_global_error_def
      utf8_to_wchar_t_def lx_read_descriptor_def new_hid_device_def register_device_error_def
      c_memcpy_def lx_numbered_def demo_device_def)

lemma app_env_sel [simp]:
  "env_api app_env = linux_api app_os" "env_tb app_env = tb_vec" "env_build app_env = posix_build"
  "cli_env app_cli = app_env" "cli_hid_init app_cli s = s"
  by (simp_all add: app_env_def linux_env_def posix_build_def app_cli_def)

lemma app_open:
  "hidpp_open (linux_api app_os) (hidpp_device_ids LEDGER_VID NANOS_PID_16_APP) (demo_state 3) =
    (Inr True, (hidpp_device_ids LEDGER_VID NANOS_PID_16_APP)\<lparr>m_dev := Some 0\<rparr>,
     (demo_state 3)\<lparr>lx_heap := [Some demo_device]\<rparr>)"
proof -
  have "lx_open app_os 0x2c97 0x1005 None (demo_state 3) =
      (Inr (Some 0), (demo_state 3)\<lparr>lx_heap := [Some demo_device]\<rparr>)"
    using app_open_path [of "demo_state 3" "[]"]
    by (simp add: lx_open_def app_enumerate id_matches_def app_nano_def demo_nano_def demo_state_def
        register_global_error_def utf8_to_wchar_t_def)
  then show ?thesis
    by (simp add: hidpp_open_def lock_guard_def hidpp_device_ids_def linux_api_def LEDGER_VID_def
        NANOS_PID_16_APP_def lx_set_nonblocking_def lx_deref_def lx_put_def demo_device_def)
qed

lemma app_wallet_init:
  "\<exists>w1. wallet_init app_env NANOS_PID_16_APP (nanos_wallet_new tb_vec) (demo_state 3) =
    (Inr True, w1, (demo_state 3)\<lparr>lx_heap := [Some demo_device]\<rparr>)"
proof -
  have e: "wenumerate app_env LEDGER_VID NANOS_PID_ROOT w s = (Inr [], w, s)"
    "wenumerate app_env LEDGER_VID NANOS_PID_16_APP w s = (Inr [app_nano], w, s)" for w s
    by (simp_all add: wenumerate_def enumerate_devices_def linux_api_def app_enumerate
        id_matches_def LEDGER_VID_def NANOS_PID_16_APP_def NANOS_PID_ROOT_def)
  have d: "hidpp_assign (m_io (m_framer (nanos_wallet_new tb_vec)))
      (hidpp_copy (hidpp_device_ids LEDGER_VID NANOS_PID_16_APP)) = hidpp_device_ids LEDGER_VID NANOS_PID_16_APP"
    "m_devLock (nanos_wallet_new tb_vec) = False" "di_vendor_id app_nano = LEDGER_VID"
    by (simp_all add: nanos_wallet_new_def hidpp_assign_def hidpp_copy_def hidpp_device_ids_def
        frame_io_apdu_new_def app_nano_def demo_nano_def LEDGER_VID_def)
  show ?thesis
    using app_open d
    by (simp add: wallet_init_def wlock_def wbind_def e assign_framer_def open_framer_def wio_def
        io_valid_def hidpp_valid_def frame_io_apdu_new_def Let_def)
qed

lemma app_accepts: "length argv \<ge> 2 \<Longrightarrow> accepts app_cli argv [''index'' \<mapsto> PO_Uint32 0]"
  by (simp add: accepts_def app_cli_def po_count_def)

theorem cli_get_address_correct_witness:
  "\<exists>s'. cli_main app_cli [''mhwallet'', ''get-address''] (demo_state 3) =
    Some (Exit 0, [Cout (''Address: Mx'' @ concat (replicate 20 ''07'') @ newline)], s')"
proof -
  let ?vm = "[''index'' \<mapsto> PO_Uint32 0] :: variables_map" and ?argv = "[''mhwallet'', ''get-address'']"
  let ?s1 = "(demo_state 3)\<lparr>lx_heap := [Some demo_device]\<rparr>"
  obtain w1 where i: "wallet_init (cli_env app_cli) NANOS_PID_16_APP (nanos_wallet_new (env_tb (cli_env app_cli)))
      (cli_hid_init app_cli (demo_state 3)) = (Inr True, w1, ?s1)"
    using app_wallet_init by auto
  have g: "get_all (fd_get app_os f) [demo_answer] w = Some w" "put_all (fd_put app_os f) ps w = Some w" for f ps w
    by (simp add: fd_get_def app_os_def demo_os_def)
      (induction ps, simp_all add: fd_put_def app_os_def demo_os_def)
  have "dialogue (fd_put app_os f) (fd_get app_os f) a (0, replicate 20 7, 0x9000) w = Some w" for f a w
    unfolding dialogue.simps demo_answer_packets by (simp add: g del: get_all.simps)
  then have d: "dialogues (fd_put app_os f) (fd_get app_os f)
      [(Get_Address 0 (po_count ?vm ''silent''), 0, replicate 20 7, 0x9000)] w = Some w" for f w
    by (simp del: dialogue.simps)
  have "accepts app_cli ?argv ?vm" by (rule app_accepts) simp
  from cli_get_address_correct [OF this _ _ _ _ _ i, of 0 app_os] obtain f where
    f: "\<forall>pad data sw v.
       dialogues (fd_put app_os f) (fd_get app_os f) [(Get_Address 0 (po_count ?vm ''silent''), pad, data, sw)]
         (lx_world ?s1) = Some v \<longrightarrow>
       (\<exists>s'. cli_main app_cli ?argv (demo_state 3) = Some
         (if sw = 0x9000 then
            (Exit 0, [Cout (if po_count ?vm ''inline'' then cli_address_text app_cli (take 20 data)
               else ''Address: '' @ cli_address_text app_cli (take 20 data) @ newline)], s')
          else (Exit 1, [Cerr (''Unable to get address: '' @ ledger_status_to_string sw @ newline)], s')))"
    by (auto simp: tb_vec_laws simp del: dialogues.simps)
  have n: "\<not> po_count ?vm ''inline''" by (simp add: po_count_def)
  obtain s' where "cli_main app_cli ?argv (demo_state 3) = Some (Exit 0,
       [Cout (''Address: '' @ cli_address_text app_cli (take 20 (replicate 20 7)) @ newline)], s')"
    using f [THEN spec, THEN spec, THEN spec, THEN spec, THEN mp, OF d] n by auto
  moreover have "hex_byte 7 = ''07''" by (simp add: hex_byte_def)
  ultimately show ?thesis by (simp add: app_cli_def)
qed

text \<open>
  The program against the scripted device: an application that is open delivers the packets it is
  given; an option the parser does not know is an exception.
\<close>

definition demo_cli :: "u8 list list cli" where
  "demo_cli =
     \<lparr>cli_env = script_env, cli_hid_init = (\<lambda>s. s), cli_hid_exit = (\<lambda>s. s),
      cli_parse = (\<lambda>desc argv. if length argv = 2 then Inr [''index'' \<mapsto> PO_Uint32 0]
        else Inl (Runtime_Error ''unrecognised option'')),
      cli_notify = (\<lambda>vm. Inr ()),
      cli_usage = (\<lambda>desc. ''usage''), cli_address_text = (\<lambda>bs. ''Mx'' @ concat (map hex_byte bs)),
      cli_lib_what = (\<lambda>e. ''error'')\<rparr>"

lemma script_wallet_init:
  "wallet_init script_env NANOS_PID_16_APP (nanos_wallet_new tb_vec) s = (Inr True, script_wallet, s)"
  by (simp add: wallet_init_def wlock_def wbind_def wenumerate_def enumerate_devices_def script_env_def
      script_api_def NANOS_PID_ROOT_def NANOS_PID_16_APP_def LEDGER_VID_def NANOS_PID_def nanos_wallet_new_def
      assign_framer_def open_framer_def wio_def hidpp_open_def lock_guard_def hidpp_assign_def hidpp_copy_def
      frame_io_apdu_new_def hidpp_device_ids_def io_valid_def hidpp_valid_def script_wallet_def
      script_framer_def Let_def)

lemma demo_cli_sel [simp]:
  "cli_env demo_cli = script_env" "cli_hid_init demo_cli s = s" "env_tb script_env = tb_vec"
  by (simp_all add: demo_cli_def script_env_def)

lemma script_wallet_delete:
  assumes "wallet_ready w" "framer_at 0 (m_framer w)"
  shows "\<exists>s'. wallet_delete demo_cli w s = (Inr (), s')"
  using assms
  by (auto simp: wallet_delete_def wallet_close_def wbind_def wio_def hidpp_close_def lock_guard_def
      wallet_ready_def framer_at_def io_valid_def hidpp_valid_def script_env_def script_api_def)

text \<open>The user refuses: the device answers with the status 0x6985.\<close>

lemma demo_refused:
  "\<exists>s'. action_get_address demo_cli [''index'' \<mapsto> PO_Uint32 0]
      (response_packets 0 (response (replicate 20 0xab) 0x6985)) =
    Some (Inl (Exchange_Error (''Unable to get address: '' @ ledger_status_to_string 0x6985) 0x6985), s')"
proof -
  let ?vm = "[''index'' \<mapsto> PO_Uint32 0] :: variables_map"
  let ?s = "response_packets 0 (response (replicate 20 0xab) 0x6985)"
  have r: "responds script_env (m_framer script_wallet) (command_apdu 2 (of_bool (po_count ?vm ''silent'')) (be32 0))
      ?s 0 (replicate 20 0xab) 0x6985"
    using script_responds [of "command_apdu 2 0 (be32 0)" "replicate 20 0xab" 0 "0x6985"]
    by (simp add: script_wallet_def command_apdu_wf po_count_def)
  obtain w2 s2 where g: "get_address (cli_env demo_cli) 0 (po_count ?vm ''silent'') script_wallet ?s =
      Some (Inl (Exchange_Error (''Unable to get address: '' @ ledger_status_to_string 0x6985) 0x6985), w2, s2)"
    "wallet_ready w2" "framer_at 0 (m_framer w2)"
    using get_address_ok [OF script_wallet_ready r] by auto
  obtain s3 where d: "wallet_delete demo_cli w2 s2 = (Inr (), s3)" using script_wallet_delete [OF g(2,3)] by blast
  have i: "wallet_init (cli_env demo_cli) NANOS_PID_16_APP (nanos_wallet_new (env_tb (cli_env demo_cli)))
      (cli_hid_init demo_cli ?s) = (Inr True, script_wallet, ?s)" by (simp add: script_wallet_init)
  show ?thesis using action_get_address_run [OF i _ g(1) _ d] by simp
qed

theorem cli_main_ends_witness:
  "cli_main demo_cli [''mhwallet'', ''--help''] [] =
     Some (Exit 1, [Cerr (''Unknown command: --help'' @ newline @ newline), Cout (''usage'' @ newline)], []) \<and>
   cli_main demo_cli [''mhwallet'', ''get-address'', ''--slient''] [] =
     Some (Terminate (Runtime_Error ''unrecognised option''), [], []) \<and>
   (\<exists>s'. cli_main demo_cli [''mhwallet'', ''get-address'']
       (response_packets 0 (response (replicate 20 0xab) 0x6985)) =
     Some (Exit 1, [Cerr (''Unable to get address: '' @ ledger_status_to_string 0x6985 @ newline)], s'))"
proof (intro conjI)
  show "cli_main demo_cli [''mhwallet'', ''--help''] [] =
      Some (Exit 1, [Cerr (''Unknown command: --help'' @ newline @ newline), Cout (''usage'' @ newline)], [])"
    using cli_main_ends [of demo_cli "[''mhwallet'', ''--help'']" "[]"] by (simp add: demo_cli_def)
next
  show "cli_main demo_cli [''mhwallet'', ''get-address'', ''--slient''] [] =
      Some (Terminate (Runtime_Error ''unrecognised option''), [], [])"
    using cli_main_ends [of demo_cli "[''mhwallet'', ''get-address'', ''--slient'']" "[]"]
    by (auto simp: demo_cli_def parsed_with_def action_map_def)
next
  let ?vm = "[''index'' \<mapsto> PO_Uint32 0] :: variables_map" and ?argv = "[''mhwallet'', ''get-address'']"
  have "accepts demo_cli ?argv ?vm" "action_map demo_cli (?argv ! 1) = Some (action_get_address demo_cli)"
    by (simp_all add: accepts_def demo_cli_def po_count_def action_map_def)
  then show "\<exists>s'. cli_main demo_cli ?argv (response_packets 0 (response (replicate 20 0xab) 0x6985)) =
      Some (Exit 1, [Cerr (''Unable to get address: '' @ ledger_status_to_string 0x6985 @ newline)], s')"
    using cli_main_ends [of demo_cli ?argv "response_packets 0 (response (replicate 20 0xab) 0x6985)"] demo_refused
    by fastforce
qed

end
