(* ===== verification/Queued_Port.thy ===== *)
theory Queued_Port
  imports Stack Report_Queue
begin

text \<open>
  The channel of a backend with a read thread, which puts the reports into the queue of the device:
  some have come since the last call, in front of them are those already queued, and only on an
  empty queue the reader waits for the next one. Stack_Mac and Stack_Libusb use it.
\<close>

text \<open>The queues of the open handles, and the world.\<close>

type_synonym 'w queued_world = "(nat \<Rightarrow> u8 list list) \<times> 'w"

definition queue_up :: "u8 list list \<Rightarrow> u8 list list \<Rightarrow> u8 list list" where
  "queue_up fs q = fold (\<lambda>f q. bounded_snoc q f) fs q"

lemma queue_up_simps [simp]: "queue_up [] q = q" "queue_up (f # fs) q = queue_up fs (bounded_snoc q f)"
  by (simp_all add: queue_up_def)

fun queued_put :: "('k \<Rightarrow> u8 list \<Rightarrow> 'w \<Rightarrow> 'w option) \<Rightarrow> nat \<times> 'k \<Rightarrow> u8 list \<Rightarrow> 'w queued_world \<Rightarrow> 'w queued_world option" where
  "queued_put put (h, k) p (qs, w) = map_option (Pair qs) (put k p w)"

fun queued_get ::
    "('k \<Rightarrow> 'w \<Rightarrow> (u8 list list \<times> 'w) option) \<Rightarrow> ('k \<Rightarrow> 'w \<Rightarrow> (u8 list \<times> 'w) option) \<Rightarrow>
     nat \<times> 'k \<Rightarrow> 'w queued_world \<Rightarrow> (u8 list \<times> 'w queued_world) option" where
  "queued_get since await (h, k) (qs, w) =
     (case since k w of
        None \<Rightarrow> None
      | Some (fs, w1) \<Rightarrow>
          (case queue_up fs (qs h) of
             f # q \<Rightarrow> Some (f, qs(h := q), w1)
           | [] \<Rightarrow> map_option (\<lambda>(f, w2). (f, qs(h := []), w2)) (await k w1)))"

lemma queued_putE:
  assumes "queued_put put (h, k) p (qs, w) = Some v"
  obtains w1 where "put k p w = Some w1" "v = (qs, w1)"
  using assms by auto

text \<open>A report comes from the queue, or is the next one to arrive.\<close>

lemma queued_getE:
  assumes "queued_get since await (h, k) (qs, w) = Some (f, v)"
  obtains (queued) fs q w1 where "since k w = Some (fs, w1)" "queue_up fs (qs h) = f # q" "v = (qs(h := q), w1)"
    | (awaited) fs w1 w2 where "since k w = Some (fs, w1)" "queue_up fs (qs h) = []" "await k w1 = Some (f, w2)"
        "v = (qs(h := []), w2)"
  using assms by (auto split: option.splits list.splits)

lemma put_all_const: "(\<And>p. p \<in> set ps \<Longrightarrow> put p w = Some w) \<Longrightarrow> put_all put ps w = Some w"
  by (induction ps) simp_all

text \<open>No packet of an exchange is empty.\<close>

lemma wire_packets_not_Nil: "p \<in> set (wire_packets seq bs) \<Longrightarrow> p \<noteq> []"
proof (induction seq bs rule: wire_packets.induct)
  case (1 seq bs)
  then show ?case by (auto simp: wire_packets.simps [of seq bs] packet_header_def split: if_splits)
qed

lemma queued_put_all:
  "put_all (queued_put put (h, k)) ps (qs, w) = map_option (Pair qs) (put_all (put k) ps w)"
proof (induction ps arbitrary: w)
  case (Cons p ps)
  then show ?case by (cases "put k p w") simp_all
qed simp

end
