(* ===== verification/Mac_Reader.thy ===== *)
theory Mac_Reader
  imports Mac_Thread
begin

text \<open>
  The read thread of the mac backend and a caller in a blocking \<^verbatim>\<open>hid_read\<close>, interleaved
  (\<^verbatim>\<open>src/src/hid/mac/hid.c\<close>, 543-668 and 809-920). Every stretch of code under the device's mutex
  is one step. No wake-up is lost, and the caller gets the reports in order; both by the contract
  \<open>ordered_reader\<close> that the libusb backend keeps too.
\<close>

section \<open>Both threads\<close>

text \<open>Where the read thread is: in its event loop, about to wake the sleepers, or past that.\<close>

datatype mc_reader_thread = MT_Loop | MT_Wake | MT_End

record mc_system =
  ms_dev :: mc_device
  ms_reader :: reader_pc
  ms_thread :: mc_reader_thread

text \<open>
  The two places where the reader tests the state, with the mutex held: on entry, the queue comes
  first; after a wake-up in \<^verbatim>\<open>cond_wait\<close>, the flags do.
\<close>

definition mc_hand_out :: "nat \<Rightarrow> mc_system \<Rightarrow> mc_system" where
  "mc_hand_out n s = (case mc_take n (ms_dev s) of (r, d) \<Rightarrow> s\<lparr>ms_dev := d, ms_reader := R_Back r\<rparr>)"

definition mc_stopping :: "mc_device \<Rightarrow> bool" where
  "mc_stopping d \<longleftrightarrow> mc_shutdown_thread d \<or> mc_disconnected d"

definition mc_enter :: "nat \<Rightarrow> mc_system \<Rightarrow> mc_system" where
  "mc_enter n s =
     (if rq_root (mc_reports (ms_dev s)) \<noteq> None then mc_hand_out n s
      else if mc_stopping (ms_dev s) then s\<lparr>ms_reader := R_Back (Inr (- 1, []))\<rparr>
      else s\<lparr>ms_reader := R_Wait\<rparr>)"

definition mc_resume :: "nat \<Rightarrow> mc_system \<Rightarrow> mc_system" where
  "mc_resume n s =
     (if mc_stopping (ms_dev s) then s\<lparr>ms_reader := R_Back (Inr (- 1, []))\<rparr>
      else if rq_root (mc_reports (ms_dev s)) \<noteq> None then mc_hand_out n s
      else s\<lparr>ms_reader := R_Wait\<rparr>)"

text \<open>
  The event loop runs the callbacks; it ends with the code \<^verbatim>\<open>CFRunLoopRunInMode\<close> returned, or at
  the test of the flags. \<^verbatim>\<open>hid_close\<close> sets its flag at any time.
\<close>

inductive mc_step :: "reader_event \<Rightarrow> mc_system \<Rightarrow> mc_system \<Rightarrow> bool" where
  enter: "ms_reader s = R_Out \<Longrightarrow> mc_step (Check n) s (mc_enter n s)"
| spurious: "ms_reader s = R_Wait \<Longrightarrow> mc_step Quiet s (s\<lparr>ms_reader := R_Woken\<rparr>)"
| resume: "ms_reader s = R_Woken \<Longrightarrow> mc_step (Check n) s (mc_resume n s)"
| leave: "ms_reader s = R_Back r \<Longrightarrow> mc_step Quiet s (s\<lparr>ms_reader := R_Out\<rparr>)"
| report: "ms_thread s = MT_Loop \<Longrightarrow> hid_report_callback data (ms_dev s) = Some (Inr (signal, d)) \<Longrightarrow>
    mc_step (Report data) s (s\<lparr>ms_dev := d, ms_reader := wake_reader signal (ms_reader s)\<rparr>)"
| removal: "ms_thread s = MT_Loop \<Longrightarrow> mc_step Quiet s (s\<lparr>ms_dev := hid_device_removal_callback (ms_dev s)\<rparr>)"
| finished: "ms_thread s = MT_Loop \<Longrightarrow>
    mc_step Quiet s (s\<lparr>ms_dev := (ms_dev s)\<lparr>mc_disconnected := True\<rparr>, ms_thread := MT_Wake\<rparr>)"
| failed: "ms_thread s = MT_Loop \<Longrightarrow>
    mc_step Quiet s (s\<lparr>ms_dev := (ms_dev s)\<lparr>mc_shutdown_thread := True\<rparr>, ms_thread := MT_Wake\<rparr>)"
| test: "ms_thread s = MT_Loop \<Longrightarrow> mc_stopping (ms_dev s) \<Longrightarrow> mc_step Quiet s (s\<lparr>ms_thread := MT_Wake\<rparr>)"
| closing: "mc_step Quiet s (s\<lparr>ms_dev := (ms_dev s)\<lparr>mc_shutdown_thread := True\<rparr>\<rparr>)"
| wake: "ms_thread s = MT_Wake \<Longrightarrow>
    mc_step Quiet s (s\<lparr>ms_thread := MT_End, ms_reader := wake_reader True (ms_reader s)\<rparr>)"

definition mc_start :: mc_system where
  "mc_start = \<lparr>ms_dev = mc_new_hid_device, ms_reader = R_Out, ms_thread = MT_Loop\<rparr>"

inductive mc_reach :: "mc_system \<Rightarrow> bool" where
  init: "mc_reach mc_start"
| step: "mc_reach s \<Longrightarrow> mc_step e s s' \<Longrightarrow> mc_reach s'"

section \<open>The steps and the functions\<close>

text \<open>
  The blocking read of Mac_Thread is these two tests: the entry, and one more test for each
  wake-up without an error.
\<close>

lemma mc_hand_out_dev:
  "ms_dev (mc_hand_out n s) = snd (mc_take n (ms_dev s))"
  "ms_reader (mc_hand_out n s) = R_Back (fst (mc_take n (ms_dev s)))"
  by (simp_all add: mc_hand_out_def split: prod.split)

lemma mc_read_enters:
  "mc_read_timeout n (- 1) (ms_dev s) wks =
     (case ms_reader (mc_enter n s) of
        R_Back r \<Rightarrow> Some (r, ms_dev (mc_enter n s))
      | _ \<Rightarrow> map_option (\<lambda>(res, d). if res = 0 then mc_take n d else (Inr (- 1, []), d))
               (cond_wait (ms_dev s) wks))"
  by (simp add: mc_read_timeout_def mc_enter_def mc_stopping_def mc_hand_out_dev)

lemma cond_wait_resumes:
  assumes "rq_root (mc_reports d) = None" "mw_res wk = 0" "mw_dev wk = ms_dev s"
  shows "map_option (\<lambda>(res, d). if res = 0 then mc_take n d else (Inr (- 1, []), d)) (cond_wait d (wk # wks)) =
     (case ms_reader (mc_resume n s) of
        R_Back r \<Rightarrow> Some (r, ms_dev (mc_resume n s))
      | _ \<Rightarrow> map_option (\<lambda>(res, d). if res = 0 then mc_take n d else (Inr (- 1, []), d))
               (cond_wait (ms_dev s) wks))"
  using assms
  by (cases "rq_root (mc_reports (ms_dev s))")
    (simp_all add: cond_wait.simps [of d "wk # wks"] cond_wait.simps [of "ms_dev s" wks] mc_resume_def mc_stopping_def
      mc_hand_out_dev Let_def)

section \<open>Invariant\<close>

definition mc_queue_of :: "mc_system \<Rightarrow> u8 list list" where
  "mc_queue_of s = rq_view (mc_reports (ms_dev s))"

definition mc_inv :: "mc_system \<Rightarrow> bool" where
  "mc_inv s \<longleftrightarrow> rq_inv (mc_reports (ms_dev s)) \<and> length (mc_queue_of s) \<le> 32 \<and>
     (ms_thread s \<noteq> MT_Loop \<longrightarrow> mc_stopping (ms_dev s)) \<and>
     (ms_reader s = R_Wait \<longrightarrow> mc_queue_of s = [] \<and> ms_thread s \<noteq> MT_End) \<and>
     (\<forall>r. ms_reader s = R_Back r \<longrightarrow> (\<exists>k bs. r = Inr (k, bs)))"

lemma mc_queue_Nil: "mc_inv s \<Longrightarrow> mc_queue_of s = [] \<longleftrightarrow> rq_root (mc_reports (ms_dev s)) = None"
  by (simp add: mc_inv_def mc_queue_of_def rq_view_Nil)

lemma mc_hand_out_ok:
  assumes "mc_inv s" "rq_root (mc_reports (ms_dev s)) \<noteq> None"
  shows "mc_inv (mc_hand_out n s) \<and>
    (\<exists>x. mc_queue_of s = x # mc_queue_of (mc_hand_out n s) \<and>
       handed_out (Check n) (ms_reader (mc_hand_out n s)) = [take n x])"
proof -
  obtain x xs where v: "rq_view (mc_reports (ms_dev s)) = x # xs"
    using mc_queue_Nil [OF assms(1)] assms(2) by (cases "mc_queue_of s") (auto simp: mc_queue_of_def)
  obtain q' where "mc_take n (ms_dev s) =
      (Inr (int (length (take n x)), take n x), (ms_dev s)\<lparr>mc_reports := q'\<rparr>)" "rq_inv q'" "rq_view q' = xs"
    using mc_take_view [OF _ v] assms(1) by (auto simp: mc_inv_def)
  then show ?thesis using assms(1) v
    by (auto simp: mc_hand_out_def mc_inv_def mc_queue_of_def mc_stopping_def)
qed

lemma mc_check_ok:
  assumes "mc_inv s" "s' = mc_enter n s \<or> s' = mc_resume n s"
  shows "mc_inv s' \<and> (mc_queue_of s' = mc_queue_of s \<and> handed_out (Check n) (ms_reader s') = [] \<or>
    (\<exists>x. mc_queue_of s = x # mc_queue_of s' \<and> handed_out (Check n) (ms_reader s') = [take n x]))"
proof -
  consider "rq_root (mc_reports (ms_dev s)) \<noteq> None" "s' = mc_hand_out n s"
    | "s' = s\<lparr>ms_reader := R_Back (Inr (- 1, []))\<rparr>"
    | "rq_root (mc_reports (ms_dev s)) = None" "\<not> mc_stopping (ms_dev s)" "s' = s\<lparr>ms_reader := R_Wait\<rparr>"
    using assms(2) by (auto simp: mc_enter_def mc_resume_def split: if_splits)
  then show ?thesis
  proof cases
    case 1
    then show ?thesis using mc_hand_out_ok [OF assms(1)] by simp
  next
    case 2
    then show ?thesis using assms(1) by (simp add: mc_inv_def mc_queue_of_def)
  next
    case 3
    then show ?thesis using assms(1) mc_queue_Nil [OF assms(1)] by (auto simp: mc_inv_def mc_queue_of_def)
  qed
qed

lemma hid_report_callback_ok:
  assumes "hid_report_callback data d = Some (Inr (signal, d'))" "rq_inv (mc_reports d)"
  shows "\<exists>q. d' = d\<lparr>mc_reports := q\<rparr> \<and> rq_inv q \<and> rq_view q = bounded_snoc (rq_view (mc_reports d)) data \<and>
    (rq_view (mc_reports d) = [] \<longrightarrow> signal)"
proof -
  obtain sig q where "mc_attach data (mc_reports d) = Some (Inr (sig, q))" "rq_inv q"
    "rq_view q = bounded_snoc (rq_view (mc_reports d)) data" "rq_view (mc_reports d) = [] \<longrightarrow> sig"
    using mc_queue.attach_ok [OF assms(2)] by blast
  then show ?thesis using assms(1) by (auto simp: hid_report_callback_def)
qed

lemma mc_step_ok:
  assumes "mc_step e s s'" "mc_inv s"
  shows "mc_inv s' \<and> (e = Quiet \<longrightarrow> mc_queue_of s' = mc_queue_of s) \<and>
    (\<forall>d. e = Report d \<longrightarrow> mc_queue_of s' = bounded_snoc (mc_queue_of s) d) \<and>
    (\<forall>n. e = Check n \<longrightarrow> s' = mc_enter n s \<or> s' = mc_resume n s)"
  using assms(1)
proof (cases rule: mc_step.cases)
  case (enter n)
  then show ?thesis using mc_check_ok [OF assms(2)] by blast
next
  case (resume n)
  then show ?thesis using mc_check_ok [OF assms(2)] by blast
next
  case (report data signal d)
  obtain q where "d = (ms_dev s)\<lparr>mc_reports := q\<rparr>" "rq_inv q"
    "rq_view q = bounded_snoc (rq_view (mc_reports (ms_dev s))) data" "rq_view (mc_reports (ms_dev s)) = [] \<longrightarrow> signal"
    using hid_report_callback_ok [OF report(4)] assms(2) by (auto simp: mc_inv_def)
  then show ?thesis using report assms(2)
    by (auto simp: mc_inv_def mc_queue_of_def mc_stopping_def bounded_snoc_def wake_reader_def)
qed (use assms(2) in \<open>auto simp: mc_inv_def mc_queue_of_def mc_stopping_def wake_reader_def
      hid_device_removal_callback_def\<close>)

lemma mc_reach_inv: "mc_reach s \<Longrightarrow> mc_inv s"
proof (induction rule: mc_reach.induct)
  case init
  show ?case by (simp add: mc_inv_def mc_start_def mc_new_hid_device_def mc_queue_of_def)
next
  case (step s e s')
  then show ?case using mc_step_ok by blast
qed

interpretation mc_reader: ordered_reader mc_step ms_reader mc_queue_of mc_inv
proof unfold_locales
  fix e n d and s s' :: mc_system
  assume ok: "mc_inv s"
  show "length (mc_queue_of s) \<le> 32" using ok by (simp add: mc_inv_def)
  show "mc_inv s'" if "mc_step e s s'" using mc_step_ok [OF that ok] by simp
  show "mc_queue_of s' = mc_queue_of s" if "mc_step Quiet s s'" using mc_step_ok [OF that ok] by simp
  show "mc_queue_of s' = bounded_snoc (mc_queue_of s) d" if "mc_step (Report d) s s'"
    using mc_step_ok [OF that ok] by simp
  show "mc_queue_of s' = mc_queue_of s \<and> handed_out (Check n) (ms_reader s') = [] \<or>
      (\<exists>x. mc_queue_of s = x # mc_queue_of s' \<and> handed_out (Check n) (ms_reader s') = [take n x])"
    if "mc_step (Check n) s s'"
    using mc_step_ok [OF that ok] mc_check_ok [OF ok] by simp
qed

section \<open>Properties\<close>

text \<open>The steps after which a reader that sleeps on a stopping device is back.\<close>

definition mc_move :: "mc_system \<Rightarrow> mc_system \<Rightarrow> bool" where
  "mc_move s s' \<longleftrightarrow> (\<exists>e. mc_step e s s')"

lemma mc_stepI [intro]: "mc_step e s s' \<Longrightarrow> mc_move s s'"
  by (auto simp: mc_move_def)

lemma mc_back_after:
  assumes "mc_step e s s1" "\<exists>s'. mc_move\<^sup>*\<^sup>* s1 s' \<and> ms_reader s' = R_Back r"
  shows "\<exists>s'. mc_move\<^sup>*\<^sup>* s s' \<and> ms_reader s' = R_Back r"
  using assms by (meson converse_rtranclp_into_rtranclp mc_stepI)

lemma mc_broadcast_returns:
  assumes "ms_thread s = MT_Wake" "ms_reader s = R_Wait" "mc_stopping (ms_dev s)"
  shows "\<exists>s'. mc_move\<^sup>*\<^sup>* s s' \<and> ms_reader s' = R_Back (Inr (- 1, []))"
proof (rule mc_back_after [OF mc_step.wake [OF assms(1)]], rule mc_back_after [OF mc_step.resume])
  let ?s1 = "s\<lparr>ms_thread := MT_End, ms_reader := wake_reader True (ms_reader s)\<rparr>"
  show "ms_reader ?s1 = R_Woken" using assms(2) by (simp add: wake_reader_def)
  show "\<exists>s'. mc_move\<^sup>*\<^sup>* (mc_resume 0 ?s1) s' \<and> ms_reader s' = R_Back (Inr (- 1, []))"
    using assms(3) by (intro exI [of _ "mc_resume 0 ?s1"]) (simp add: mc_resume_def)
qed

lemma mc_stopping_returns:
  assumes "mc_inv s" "ms_reader s = R_Wait" "mc_stopping (ms_dev s)"
  shows "\<exists>s'. mc_move\<^sup>*\<^sup>* s s' \<and> ms_reader s' = R_Back (Inr (- 1, []))"
proof (cases "ms_thread s")
  case MT_Loop
  show ?thesis
    by (rule mc_back_after [OF mc_step.test [OF MT_Loop assms(3)]], rule mc_broadcast_returns)
      (use assms in simp_all)
next
  case MT_Wake
  then show ?thesis using mc_broadcast_returns assms by blast
next
  case MT_End
  then show ?thesis using assms by (simp add: mc_inv_def)
qed

text \<open>
  C10. The mac backend loses no wake-up either: whatever the order of reports, removal, errors of the
  run loop, spurious wake-ups and \<^verbatim>\<open>hid_close\<close>, a reader asleep means an empty queue and a read
  thread that has not yet made its broadcast. So when the device is going away, which the flags say
  without the mutex, the reader can still be brought back, with -1; and no read ends in a memory
  fault.
\<close>

theorem mc_no_lost_wakeup:
  assumes "mc_reach s"
  shows "(ms_reader s = R_Wait \<longrightarrow> rq_root (mc_reports (ms_dev s)) = None \<and> ms_thread s \<noteq> MT_End) \<and>
    (ms_reader s = R_Wait \<and> (mc_shutdown_thread (ms_dev s) \<or> mc_disconnected (ms_dev s)) \<longrightarrow>
       (\<exists>s'. mc_move\<^sup>*\<^sup>* s s' \<and> ms_reader s' = R_Back (Inr (- 1, [])))) \<and>
    ms_reader s \<noteq> R_Back (Inl e)"
proof -
  have inv: "mc_inv s" by (rule mc_reach_inv [OF assms])
  show ?thesis
    using inv mc_queue_Nil [OF inv] mc_stopping_returns [OF inv]
    by (auto simp: mc_inv_def mc_stopping_def)
qed

theorem mc_no_lost_wakeup_witness:
  "\<exists>s. mc_reach s \<and> ms_reader s = R_Wait \<and> mc_disconnected (ms_dev s) \<and>
    (\<exists>s'. mc_move\<^sup>*\<^sup>* s s' \<and> ms_reader s' = R_Back (Inr (- 1, [])))"
proof -
  let ?s1 = "mc_enter 64 mc_start"
  let ?s2 = "?s1\<lparr>ms_dev := hid_device_removal_callback (ms_dev ?s1)\<rparr>"
  have s1: "ms_reader ?s1 = R_Wait" "ms_thread ?s1 = MT_Loop"
    by (simp_all add: mc_enter_def mc_start_def mc_new_hid_device_def mc_stopping_def rq_empty_def)
  have "mc_reach ?s1" by (rule mc_reach.step [OF mc_reach.init], rule mc_step.enter) (simp add: mc_start_def)
  then have r: "mc_reach ?s2" using mc_reach.step mc_step.removal [OF s1(2)] by blast
  have "ms_reader ?s2 = R_Wait" "mc_disconnected (ms_dev ?s2)"
    using s1(1) by (simp_all add: hid_device_removal_callback_def)
  then show ?thesis using mc_no_lost_wakeup [OF r] r by blast
qed

text \<open>
  C11. What a caller of the mac backend gets from blocking reads of \<open>n\<close> bytes, in any interleaving
  with the callbacks: the reports in the order of their callbacks, each once and cut to \<open>n\<close>
  bytes, except those dropped: when a report arrives while 32 wait, the oldest of them goes, and
  nothing is dropped otherwise. The reports leave the queue in the order of their arrival, handed
  out or dropped, and with those that wait they are all that arrived. A read that returns -1 because
  the device is going away takes none.
\<close>

theorem mc_reports_in_order:
  assumes "reader_history mc_step ms_reader mc_queue_of n mc_start s arrived got lost"
  shows "(\<exists>ks. subseq (ks @ mc_queue_of s) arrived \<and> got = map (take n) ks) \<and>
    length arrived = length got + length (mc_queue_of s) + lost \<and>
    (\<exists>xs. arrived = map snd xs @ mc_queue_of s \<and>
      got = map (take n \<circ> snd) (filter fst xs) \<and> lost = length (filter (Not \<circ> fst) xs)) \<and>
    (lost = 0 \<and> (\<forall>d \<in> set arrived. length d \<le> n) \<longrightarrow> got @ mc_queue_of s = arrived)"
proof -
  have s0: "mc_inv mc_start" "mc_queue_of mc_start = []"
    using mc_reach_inv [OF mc_reach.init] by (simp_all add: mc_start_def mc_new_hid_device_def mc_queue_of_def)
  show ?thesis
  proof (intro conjI impI)
    show "got @ mc_queue_of s = arrived" if "lost = 0 \<and> (\<forall>d \<in> set arrived. length d \<le> n)"
      using mc_reader.all_reports_in_order [OF _ s0] assms that by blast
  qed (use mc_reader.reports_in_order [OF assms s0] mc_reader.reports_fifo [OF assms s0] in blast)+
qed

theorem mc_reports_in_order_witness:
  "\<exists>s. reader_history mc_step ms_reader mc_queue_of 64 mc_start s [[1, 2]] [] 0 \<and> mc_queue_of s = [[1, 2]]"
proof -
  obtain d where d: "hid_report_callback [1, 2] (ms_dev mc_start) = Some (Inr (True, d))"
    using mc_queue.attach_ok [of rq_empty "[1, 2]"]
    by (auto simp: mc_start_def hid_report_callback_def mc_new_hid_device_def)
  let ?s1 = "mc_start\<lparr>ms_dev := d, ms_reader := wake_reader True (ms_reader mc_start)\<rparr>"
  have "mc_step (Report [1, 2]) mc_start ?s1"
    by (rule mc_step.report) (simp add: mc_start_def, rule d)
  then have "reader_history mc_step ms_reader mc_queue_of 64 mc_start ?s1 ([] @ delivered (Report [1, 2]))
      ([] @ handed_out (Report [1, 2]) (ms_reader ?s1)) (0 + dropped (Report [1, 2]) (mc_queue_of mc_start))"
    by (intro reader_history.step [OF reader_history.start]) simp_all
  then have h: "reader_history mc_step ms_reader mc_queue_of 64 mc_start ?s1 [[1, 2]] [] 0"
    by (simp add: mc_queue_of_def mc_start_def mc_new_hid_device_def)
  from mc_reports_in_order [OF h] have "mc_queue_of ?s1 = [[1, 2]]" by simp
  with h show ?thesis by blast
qed

end
