(* ===== verification/Mac_Backend.thy ===== *)
theory Mac_Backend
  imports Mac_Reader
begin

text \<open>
  The mac backend as a value of the interface (\<^verbatim>\<open>src/src/hid/mac/hid.c\<close>). What the run loop of a
  device dispatches is a parameter: some events between two calls, and one after the other while a
  caller waits in \<^verbatim>\<open>hid_read\<close>. The read thread acts on them by the steps of Mac_Reader. The backend
  keeps the contract \<open>hid_backend\<close>.
\<close>

section \<open>A read with its read thread\<close>

text \<open>
  What \<^verbatim>\<open>CFRunLoopRunInMode\<close> does next: it dispatches a report or the removal of the device, or
  returns with a code. The callback of the removal stops the run loop, and the code for that ends
  the loop of the read thread.
\<close>

datatype run_loop_event = Input_Report "u8 list" | Removal | Finished | Failed

text \<open>
  \<open>rl_since k w\<close>: what it dispatched for the device \<open>k\<close> since the last call; \<open>rl_next k w\<close>: what it
  dispatches next when a caller waits, \<open>None\<close> when nothing ever comes.
\<close>

record 'w run_loop =
  rl_since :: "nat \<Rightarrow> 'w \<Rightarrow> run_loop_event list \<times> 'w"
  rl_next :: "nat \<Rightarrow> 'w \<Rightarrow> (run_loop_event \<times> 'w) option"

fun mc_dispatch :: "run_loop_event \<Rightarrow> mc_system \<Rightarrow> mc_system res option" where
  "mc_dispatch (Input_Report data) s =
     (case hid_report_callback data (ms_dev s) of
        None \<Rightarrow> None
      | Some (Inl e) \<Rightarrow> Some (Inl e)
      | Some (Inr (signal, d)) \<Rightarrow>
          Some (Inr (s\<lparr>ms_dev := d, ms_reader := wake_reader signal (ms_reader s)\<rparr>)))"
| "mc_dispatch Removal s =
     Some (Inr (s\<lparr>ms_dev := (hid_device_removal_callback (ms_dev s))\<lparr>mc_shutdown_thread := True\<rparr>,
       ms_thread := MT_Wake\<rparr>))"
| "mc_dispatch Finished s =
     Some (Inr (s\<lparr>ms_dev := (ms_dev s)\<lparr>mc_disconnected := True\<rparr>, ms_thread := MT_Wake\<rparr>))"
| "mc_dispatch Failed s =
     Some (Inr (s\<lparr>ms_dev := (ms_dev s)\<lparr>mc_shutdown_thread := True\<rparr>, ms_thread := MT_Wake\<rparr>))"

text \<open>The events between two calls; the loop of the read thread ends with the flags.\<close>

fun mc_meanwhile :: "run_loop_event list \<Rightarrow> mc_system \<Rightarrow> mc_system res option" where
  "mc_meanwhile [] s = Some (Inr s)"
| "mc_meanwhile (event # events) s =
     (if ms_thread s = MT_Loop \<and> \<not> mc_stopping (ms_dev s) then
        (case mc_dispatch event s of
           None \<Rightarrow> None
         | Some (Inl e) \<Rightarrow> Some (Inl e)
         | Some (Inr s1) \<Rightarrow> mc_meanwhile events s1)
      else Some (Inr s))"

text \<open>
  While a caller waits, one schedule of \<open>mc_step\<close>: the reader goes on when it can, else the read thread does. \<open>None\<close>: the
  read never returns.
\<close>

partial_function (option) mc_run ::
    "'w run_loop \<Rightarrow> nat \<Rightarrow> nat \<Rightarrow> mc_system \<Rightarrow> 'w \<Rightarrow> ((int \<times> u8 list) res \<times> mc_device \<times> 'w) option" where
  "mc_run rl k n s w =
     (case ms_reader s of
        R_Back r \<Rightarrow> Some (r, ms_dev s, w)
      | R_Out \<Rightarrow> mc_run rl k n (mc_enter n s) w
      | R_Woken \<Rightarrow> mc_run rl k n (mc_resume n s) w
      | R_Wait \<Rightarrow>
          (case ms_thread s of
             MT_End \<Rightarrow> None
           | MT_Wake \<Rightarrow> mc_run rl k n (s\<lparr>ms_thread := MT_End, ms_reader := wake_reader True (ms_reader s)\<rparr>) w
           | MT_Loop \<Rightarrow>
               if mc_stopping (ms_dev s) then mc_run rl k n (s\<lparr>ms_thread := MT_Wake\<rparr>) w
               else
                 (case rl_next rl k w of
                    None \<Rightarrow> None
                  | Some (event, w1) \<Rightarrow>
                      (case mc_dispatch event s of
                         None \<Rightarrow> None
                       | Some (Inl e) \<Rightarrow> Some (Inl e, ms_dev s, w1)
                       | Some (Inr s1) \<Rightarrow> mc_run rl k n s1 w1))))"

lemma mc_run_back [simp]: "ms_reader s = R_Back r \<Longrightarrow> mc_run rl k n s w = Some (r, ms_dev s, w)"
  by (subst mc_run.simps) simp

definition mac_read ::
    "'w run_loop \<Rightarrow> ptr \<Rightarrow> nat \<Rightarrow> 'w mac_state \<Rightarrow> ((int \<times> u8 list) res \<times> 'w mac_state) option" where
  "mac_read rl dev n s =
     (case bind_res (mc_deref dev s) (\<lambda>(h, d). bind_res (the_handle d) (\<lambda>k. Inr (h, d, k))) of
        Inl e \<Rightarrow> Some (Inl e, s)
      | Inr (h, d, k) \<Rightarrow>
          (let (events, w) = rl_since rl k (mc_world s);
               s = s\<lparr>mc_world := w\<rparr>
           in case mc_meanwhile events \<lparr>ms_dev = d, ms_reader = R_Out, ms_thread = MT_Loop\<rparr> of
                None \<Rightarrow> None
              | Some (Inl e) \<Rightarrow> Some (Inl e, s)
              | Some (Inr m) \<Rightarrow>
                  if mc_blocking d then
                    map_option (\<lambda>(r, d1, w). (r, mc_put h (Some d1) (s\<lparr>mc_world := w\<rparr>))) (mc_run rl k n m w)
                  else map_option (\<lambda>(r, d1). (r, mc_put h (Some d1) s)) (mc_read n (ms_dev m) [])))"

definition mac_api :: "'w mac_os \<Rightarrow> 'w run_loop \<Rightarrow> ('w \<Rightarrow> int) \<Rightarrow> 'w mac_state hid_api" where
  "mac_api os rl errno =
     \<lparr>api_enumerate = (\<lambda>v p s. or_never s (mc_enumerate os v p s)),
      api_open = (\<lambda>v p sn s. or_never s (mc_open os v p sn s)),
      api_open_path = mc_open_path os, api_set_nonblocking = mc_set_nonblocking,
      api_read = (\<lambda>dev n s. or_never s (mac_read rl dev n s)), api_write = mc_write os,
      api_close = (\<lambda>dev s. or_never s (mc_close os dev s)),
      api_error = (\<lambda>dev s. Inr (mc_error dev)), api_errno = (\<lambda>s. errno (mc_world s))\<rparr>"

section \<open>The run is a run of the two threads\<close>

lemma mc_dispatch_steps:
  assumes "mc_dispatch event s = Some (Inr s1)" "ms_thread s = MT_Loop"
  shows "(\<exists>e. mc_step e s s1) \<or> (\<exists>s2. mc_step Quiet s s2 \<and> mc_step Quiet s2 s1)"
proof (cases event)
  case Removal
  let ?s2 = "s\<lparr>ms_dev := hid_device_removal_callback (ms_dev s)\<rparr>"
  have "mc_step Quiet s ?s2" by (rule mc_step.removal [OF assms(2)])
  moreover have "mc_step Quiet ?s2 s1" using mc_step.failed [of ?s2] assms Removal by simp
  ultimately show ?thesis by blast
qed (use assms in \<open>auto split: option.splits sum.splits intro: mc_step.intros\<close>)

text \<open>What a blocking read keeps of the device, and what it gives back.\<close>

definition mc_good :: "mc_device \<Rightarrow> bool" where
  "mc_good d \<longleftrightarrow> mc_handle d \<noteq> None \<and> rq_inv (mc_reports d) \<and> length (rq_view (mc_reports d)) \<le> 32"

definition run_ok :: "nat \<Rightarrow> ptr \<Rightarrow> bool \<Rightarrow> mc_system \<Rightarrow> bool" where
  "run_ok n k b s \<longleftrightarrow> mc_inv s \<and> mc_handle (ms_dev s) = k \<and> mc_blocking (ms_dev s) = b \<and>
     (\<forall>r. ms_reader s = R_Back r \<longrightarrow> good_result n r)"

lemma mc_take_good:
  assumes "rq_inv (mc_reports d)" "rq_root (mc_reports d) \<noteq> None"
  shows "\<exists>x q. mc_take n d = (Inr (int (length (take n x)), take n x), d\<lparr>mc_reports := q\<rparr>) \<and>
    rq_inv q \<and> rq_view (mc_reports d) = x # rq_view q"
proof -
  obtain x xs where "rq_view (mc_reports d) = x # xs"
    using rq_view_Nil [OF assms(1)] assms(2) by (cases "rq_view (mc_reports d)") auto
  then show ?thesis using mc_take_view [OF assms(1)] by metis
qed

lemma mc_check_run_ok:
  assumes "run_ok n k b s" "s' = mc_enter n s \<or> s' = mc_resume n s"
  shows "run_ok n k b s'"
proof -
  have inv: "mc_inv s'" using mc_check_ok [OF _ assms(2)] assms(1) by (simp add: run_ok_def)
  have q: "rq_inv (mc_reports (ms_dev s))" using assms(1) by (simp add: run_ok_def mc_inv_def)
  show ?thesis
    using assms inv mc_take_good [OF q, of n]
    by (auto simp: run_ok_def mc_enter_def mc_resume_def mc_hand_out_def split: if_splits)
qed

lemma mc_dispatch_run_ok:
  assumes "run_ok n k b s" "ms_thread s = MT_Loop" "\<forall>r. ms_reader s \<noteq> R_Back r"
  shows "\<exists>s1. mc_dispatch event s = Some (Inr s1) \<and> run_ok n k b s1 \<and> (\<forall>r. ms_reader s1 \<noteq> R_Back r)"
proof -
  have q: "rq_inv (mc_reports (ms_dev s))" using assms(1) by (simp add: run_ok_def mc_inv_def)
  have "\<exists>s1. mc_dispatch event s = Some (Inr s1)"
  proof (cases event)
    case (Input_Report data)
    obtain sig q where "mc_attach data (mc_reports (ms_dev s)) = Some (Inr (sig, q))"
      using mc_queue.attach_ok [OF q] by blast
    then show ?thesis using Input_Report by (simp add: hid_report_callback_def)
  qed simp_all
  then obtain s1 where s1: "mc_dispatch event s = Some (Inr s1)" by blast
  then have inv: "mc_inv s1"
    using mc_dispatch_steps [OF s1 assms(2)] mc_step_ok assms(1) by (auto simp: run_ok_def)
  have "mc_handle (ms_dev s1) = k \<and> mc_blocking (ms_dev s1) = b \<and> (\<forall>r. ms_reader s1 \<noteq> R_Back r)"
    using s1 assms(1,3)
    by (cases event) (auto simp: run_ok_def hid_report_callback_def hid_device_removal_callback_def wake_reader_def
        split: option.splits sum.splits if_splits)
  then show ?thesis using s1 inv by (auto simp: run_ok_def)
qed

lemma mc_meanwhile_run_ok:
  assumes "run_ok n k b s" "\<forall>r. ms_reader s \<noteq> R_Back r"
  shows "\<exists>s1. mc_meanwhile events s = Some (Inr s1) \<and> run_ok n k b s1"
  using assms
proof (induction events arbitrary: s)
  case (Cons event events)
  show ?case
  proof (cases "ms_thread s = MT_Loop \<and> \<not> mc_stopping (ms_dev s)")
    case True
    then show ?thesis using mc_dispatch_run_ok [OF Cons.prems(1) _ Cons.prems(2), of event] Cons.IH by auto
  qed (use Cons.prems in auto)
qed simp

lemma mc_thread_run_ok:
  assumes "run_ok n k b s" "mc_step Quiet s s1" "ms_dev s1 = ms_dev s" "\<forall>r. ms_reader s1 \<noteq> R_Back r"
  shows "run_ok n k b s1"
  using assms mc_step_ok [OF assms(2)] by (simp add: run_ok_def)

lemma mc_run_good:
  assumes "mc_run rl dev n s w = Some y"
  shows "run_ok n k b s \<Longrightarrow> good_result n (fst y) \<and> mc_good ((fst (snd y))\<lparr>mc_handle := Some dev\<rparr>) \<and>
    mc_handle (fst (snd y)) = k \<and> mc_blocking (fst (snd y)) = b"
proof (induction rule: mc_run.raw_induct [OF _ assms, case_names step])
  case (step run rl dev n s w y)
  note IH = step(1) and eq = step(2) and ok = step(3)
  show ?case
  proof (cases "ms_reader s")
    case (R_Back r)
    then show ?thesis using eq ok by (auto simp: run_ok_def mc_inv_def mc_good_def mc_queue_of_def)
  next
    case R_Out
    then show ?thesis using eq IH mc_check_run_ok [OF ok] by simp
  next
    case R_Woken
    then show ?thesis using eq IH mc_check_run_ok [OF ok] by simp
  next
    case R_Wait
    show ?thesis
    proof (cases "ms_thread s")
      case MT_End
      then show ?thesis using eq R_Wait by simp
    next
      case MT_Wake
      have "run_ok n k b (s\<lparr>ms_thread := MT_End, ms_reader := wake_reader True (ms_reader s)\<rparr>)"
        by (rule mc_thread_run_ok [OF ok mc_step.wake [OF MT_Wake]]) (simp_all add: R_Wait wake_reader_def)
      then show ?thesis using eq IH R_Wait MT_Wake by simp
    next
      case MT_Loop
      show ?thesis
      proof (cases "mc_stopping (ms_dev s)")
        case True
        have "run_ok n k b (s\<lparr>ms_thread := MT_Wake\<rparr>)"
          by (rule mc_thread_run_ok [OF ok mc_step.test [OF MT_Loop True]]) (simp_all add: R_Wait)
        then show ?thesis using eq IH R_Wait MT_Loop True by simp
      next
        case False
        then obtain event w1 where ev: "rl_next rl dev w = Some (event, w1)"
          using eq R_Wait MT_Loop by (cases "rl_next rl dev w") auto
        obtain s1 where "mc_dispatch event s = Some (Inr s1)" "run_ok n k b s1"
          using mc_dispatch_run_ok [OF ok MT_Loop] R_Wait by auto
        then show ?thesis using eq IH R_Wait MT_Loop False ev by simp
      qed
    qed
  qed
qed

section \<open>The contract\<close>

definition mac_alive :: "'w mac_state \<Rightarrow> nat \<Rightarrow> bool" where
  "mac_alive s h \<longleftrightarrow> (\<exists>d. mc_deref (Some h) s = Inr (h, d) \<and> mc_good d)"

lemma mac_alive_heap: "mc_heap s' = mc_heap s \<Longrightarrow> mac_alive s' = mac_alive s"
  by (rule ext) (simp add: mac_alive_def mc_deref_def)

lemma mac_alive_put:
  assumes "mc_deref (Some h) s = Inr (h, d0)" "mc_good d" "mc_heap s' = (mc_heap s)[h := Some d]" "mac_alive s h"
  shows "mac_alive s' = mac_alive s"
proof
  fix i
  show "mac_alive s' i = mac_alive s i"
    using assms by (cases "i = h") (auto simp: mac_alive_def mc_deref_def handle_at_Inr)
qed

lemma mac_alive_free:
  assumes "mc_deref (Some h) s = Inr (h, d)" "mc_heap s' = (mc_heap s)[h := None]"
  shows "mac_alive s' = (mac_alive s)(h := False)"
proof
  fix i
  show "mac_alive s' i = ((mac_alive s)(h := False)) i"
    using assms by (cases "i = h") (auto simp: mac_alive_def mc_deref_def handle_at_Inr)
qed

lemma mac_aliveE:
  assumes "mac_alive s h"
  obtains d k where "mc_deref (Some h) s = Inr (h, d)" "mc_good d" "mc_handle d = Some k"
  using assms by (auto simp: mac_alive_def mc_good_def)

lemma mc_hid_init_heap: "mc_hid_init os s = (r, s') \<Longrightarrow> mc_heap s' = mc_heap s"
  by (auto simp: mc_hid_init_def init_hid_manager_def Let_def split: prod.splits if_splits)

lemma mc_enumerate_heap: "mc_enumerate os v p s = Some (r, s') \<Longrightarrow> mc_heap s' = mc_heap s"
  by (auto simp: mc_enumerate_def Let_def split: prod.splits if_splits option.splits dest!: mc_hid_init_heap)

definition fresh_device :: "mc_device \<Rightarrow> bool" where
  "fresh_device d \<longleftrightarrow> (\<exists>k len. d = mc_new_hid_device\<lparr>mc_handle := Some k, mc_max_input_report_len := len\<rparr>)"

lemma fresh_deviceI [simp, intro]:
  "fresh_device (mc_new_hid_device\<lparr>mc_handle := Some k, mc_max_input_report_len := len\<rparr>)"
  by (auto simp: fresh_device_def)

text \<open>A successful open adds a device at the end of the heap; any other leaves the heap alone.\<close>

lemma mc_open_path_effect:
  assumes "mc_open_path os path s = (r, s')"
  shows "case r of
      Inr (Some h) \<Rightarrow> h = length (mc_heap s) \<and> (\<exists>d. fresh_device d \<and> mc_heap s' = mc_heap s @ [Some d])
    | _ \<Rightarrow> mc_heap s' = mc_heap s"
proof -
  obtain i s1 where "mc_hid_init os s = (i, s1)" by fastforce
  then show ?thesis using assms mc_hid_init_heap [of os s i s1]
    by (auto simp: mc_open_path_def mc_return_error_def Let_def split: prod.splits if_splits option.splits)
qed

lemma mc_open_effect:
  assumes "mc_open os v p sn s = Some (r, s')"
  shows "case r of
      Inr (Some h) \<Rightarrow> h = length (mc_heap s) \<and> (\<exists>d. fresh_device d \<and> mc_heap s' = mc_heap s @ [Some d])
    | _ \<Rightarrow> mc_heap s' = mc_heap s"
proof -
  obtain e s1 where e: "mc_enumerate os v p s = Some (e, s1)"
    using assms by (auto simp: mc_open_def split: option.splits)
  then have h: "mc_heap s1 = mc_heap s" by (rule mc_enumerate_heap)
  show ?thesis
    using assms e h mc_open_path_effect [of os _ s1 r s']
    by (auto simp: mc_open_def split: sum.splits option.splits)
qed

lemma mac_alive_snoc:
  assumes "mc_heap s' = mc_heap s @ [Some d]" "mc_good d"
  shows "mac_alive s' = (mac_alive s)(length (mc_heap s) := True)"
proof
  fix i
  show "mac_alive s' i = ((mac_alive s)(length (mc_heap s) := True)) i"
    using assms by (cases "i = length (mc_heap s)") (auto simp: mac_alive_def mc_deref_def handle_at_Inr nth_append)
qed

lemma mc_new_good: "fresh_device d \<Longrightarrow> mc_good d"
  by (auto simp: fresh_device_def mc_good_def mc_new_hid_device_def)

lemma mac_open_alive:
  assumes "case r of
      Inr (Some h) \<Rightarrow> h = length (mc_heap s) \<and> (\<exists>d. fresh_device d \<and> mc_heap s' = mc_heap s @ [Some d])
    | _ \<Rightarrow> mc_heap s' = mc_heap s"
  shows "r = Inr (Some h) \<Longrightarrow> mac_alive s' h \<and> \<not> mac_alive s h" "mac_alive s i \<Longrightarrow> mac_alive s' i"
proof -
  have fresh: "\<not> mac_alive s (length (mc_heap s))" by (simp add: mac_alive_def mc_deref_def handle_at_def)
  consider (opened) d where "r = Inr (Some (length (mc_heap s)))" "fresh_device d"
      "mc_heap s' = mc_heap s @ [Some d]"
    | (same) "\<forall>h. r \<noteq> Inr (Some h)" "mc_heap s' = mc_heap s"
    using assms by (auto split: sum.splits option.splits)
  then have "(\<forall>h. r = Inr (Some h) \<longrightarrow> mac_alive s' h \<and> \<not> mac_alive s h) \<and> (\<forall>i. mac_alive s i \<longrightarrow> mac_alive s' i)"
  proof cases
    case opened
    then show ?thesis using mac_alive_snoc [OF opened(3) mc_new_good [OF opened(2)]] fresh by simp
  next
    case same
    then show ?thesis using mac_alive_heap [OF same(2)] by simp
  qed
  then show "r = Inr (Some h) \<Longrightarrow> mac_alive s' h \<and> \<not> mac_alive s h" "mac_alive s i \<Longrightarrow> mac_alive s' i"
    by blast+
qed

lemma mc_read_good:
  assumes "mc_good d" "\<not> mc_blocking d"
  shows "\<exists>r d1. mc_read n d [] = Some (r, d1) \<and> good_result n r \<and> mc_good d1"
proof -
  have q: "rq_inv (mc_reports d)" using assms(1) by (simp add: mc_good_def)
  show ?thesis
  proof (cases "rq_root (mc_reports d)")
    case None
    then show ?thesis using assms by (simp add: mc_read_def mc_read_timeout_def)
  next
    case (Some a)
    then show ?thesis using assms mc_take_good [OF q, of n]
      by (auto simp: mc_read_def mc_read_timeout_def mc_good_def)
  qed
qed

lemma mac_start_ok:
  assumes "mc_good d"
  shows "run_ok n (mc_handle d) (mc_blocking d) \<lparr>ms_dev = d, ms_reader = R_Out, ms_thread = MT_Loop\<rparr>"
  using assms by (simp add: run_ok_def mc_inv_def mc_good_def mc_queue_of_def)

lemma mac_read_effect:
  assumes "mac_alive s h" "mac_read rl (Some h) n s = Some (r, s')"
  shows "good_result n r \<and> mac_alive s' = mac_alive s"
proof -
  obtain d k where d: "mc_deref (Some h) s = Inr (h, d)" "mc_good d" "mc_handle d = Some k"
    using mac_aliveE [OF assms(1)] .
  have put: "mac_alive (mc_put h (Some d1) (s\<lparr>mc_world := w\<rparr>)) = mac_alive s" if "mc_good d1" for d1 w
    by (rule mac_alive_put [OF d(1) that _ assms(1)]) (simp add: mc_put_def)
  obtain events w0 where ev: "rl_since rl k (mc_world s) = (events, w0)" by fastforce
  obtain m where m: "mc_meanwhile events \<lparr>ms_dev = d, ms_reader = R_Out, ms_thread = MT_Loop\<rparr> = Some (Inr m)"
    and ok: "run_ok n (Some k) (mc_blocking d) m"
    using mc_meanwhile_run_ok [OF mac_start_ok [OF d(2)]] d(3) by force
  show ?thesis
  proof (cases "mc_blocking d")
    case True
    then obtain d1 w where run: "mc_run rl k n m w0 = Some (r, d1, w)"
      and s': "s' = mc_put h (Some d1) (s\<lparr>mc_world := w\<rparr>)"
      using assms(2) d m by (auto simp: mac_read_def the_handle_def ev)
    from mc_run_good [OF run ok] have "good_result n r" "mc_good d1"
      by (simp_all add: mc_good_def)
    then show ?thesis using put s' by simp
  next
    case False
    have "mc_good (ms_dev m)" "\<not> mc_blocking (ms_dev m)"
      using ok False by (auto simp: run_ok_def mc_inv_def mc_good_def mc_queue_of_def)
    then show ?thesis using assms(2) d m False mc_read_good [of "ms_dev m" n] put [of _ w0]
      by (auto simp: mac_read_def the_handle_def ev)
  qed
qed

lemma mc_close_effect:
  assumes "mac_alive s h"
  shows "\<exists>s'. mc_close os (Some h) s = Some (Inr (), s') \<and> mac_alive s' = (mac_alive s)(h := False)"
proof -
  obtain d k where d: "mc_deref (Some h) s = Inr (h, d)" "mc_good d" "mc_handle d = Some k"
    using mac_aliveE [OF assms] .
  obtain q where q: "mc_drain (mc_reports d) = Some (Inr q)" "rq_inv q" "rq_view q = []"
    using mc_queue.drain_empties [of "mc_reports d"] d(2) by (auto simp: mc_good_def)
  have root: "rq_root q = None" using rq_view_Nil [OF q(2)] q(3) by simp
  have free: "mc_free_reports (rq_heap q) None = Some (Inr (rq_heap q))"
    by (subst mc_free_reports.simps) simp
  obtain gone w where stop: "mo_stop os k (if \<not> mc_disconnected d then mo_unregister os k (mc_world s) else mc_world s) =
      (gone, w)" by fastforce
  obtain w1 where "mc_close os (Some h) s = Some (Inr (), mc_put h None (s\<lparr>mc_world := w1\<rparr>))"
    using d q(1) root free stop
    by (cases "mc_disconnected d") (auto simp: mc_close_def the_handle_def Let_def)
  moreover have "mac_alive (mc_put h None (s\<lparr>mc_world := w1\<rparr>)) = (mac_alive s)(h := False)"
    by (rule mac_alive_free [OF d(1)]) (simp add: mc_put_def)
  ultimately show ?thesis by blast
qed

lemma mac_apiD:
  "api_open (mac_api os rl errno) v p sn s = (Inr x, s') \<Longrightarrow> mc_open os v p sn s = Some (Inr x, s')"
  "api_open (mac_api os rl errno) v p sn s = (r, s') \<Longrightarrow> mc_open os v p sn s = Some (r, s') \<or> s' = s"
  by (auto simp: mac_api_def or_never_def split: option.splits)

interpretation mac: hid_backend "mac_api os rl errno" mac_alive
  for os :: "'w mac_os" and rl :: "'w run_loop" and errno
proof
  fix v p and s s' :: "'w mac_state" and ra
  assume "api_enumerate (mac_api os rl errno) v p s = (ra, s')"
  then show "mac_alive s' = mac_alive s"
    using mac_alive_heap [OF mc_enumerate_heap] by (auto simp: mac_api_def or_never_def split: option.splits)
next
  fix v p sn and s s' :: "'w mac_state" and h
  assume "api_open (mac_api os rl errno) v p sn s = (Inr (Some h), s')"
  then show "mac_alive s' h \<and> \<not> mac_alive s h"
    using mac_open_alive(1) [OF mc_open_effect [OF mac_apiD(1)] refl] by blast
next
  fix path and s s' :: "'w mac_state" and h
  assume "api_open_path (mac_api os rl errno) path s = (Inr (Some h), s')"
  then show "mac_alive s' h \<and> \<not> mac_alive s h"
    using mac_open_alive(1) [OF mc_open_path_effect refl, of os path s h s'] by (simp add: mac_api_def)
next
  fix v p sn and s s' :: "'w mac_state" and r k
  assume "api_open (mac_api os rl errno) v p sn s = (r, s')" "mac_alive s k"
  then show "mac_alive s' k"
    using mac_open_alive(2) [OF mc_open_effect] mac_apiD(2) by blast
next
  fix path and s s' :: "'w mac_state" and r k
  assume "api_open_path (mac_api os rl errno) path s = (r, s')" "mac_alive s k"
  then show "mac_alive s' k"
    using mac_open_alive(2) [OF mc_open_path_effect, of os path s r s' k] by (simp add: mac_api_def)
next
  fix s s' :: "'w mac_state" and h b ri
  assume a: "mac_alive s h" "api_set_nonblocking (mac_api os rl errno) (Some h) b s = (ri, s')"
  obtain d k where d: "mc_deref (Some h) s = Inr (h, d)" "mc_good d" "mc_handle d = Some k"
    using mac_aliveE [OF a(1)] .
  have good: "mc_good (d\<lparr>mc_blocking := (b = 0)\<rparr>)" using d(2) by (simp add: mc_good_def)
  have s': "ri = Inr 0" "s' = mc_put h (Some (d\<lparr>mc_blocking := (b = 0)\<rparr>)) s"
    using a(2) d(1) by (auto simp: mac_api_def mc_set_nonblocking_def)
  have "mac_alive s' = mac_alive s"
    by (rule mac_alive_put [OF d(1) good _ a(1)]) (simp add: s' mc_put_def)
  then show "ri = Inr 0 \<and> mac_alive s' = mac_alive s" using s' by simp
next
  fix s s' :: "'w mac_state" and h n rr
  assume "mac_alive s h" "api_read (mac_api os rl errno) (Some h) n s = (rr, s')"
  then show "(rr = Inl Deadlock \<or>
        (\<exists>k bs. rr = Inr (k, bs) \<and> (k = - 1 \<and> bs = [] \<or> k = int (length bs)) \<and> length bs \<le> n))
       \<and> mac_alive s' = mac_alive s"
    using mac_read_effect [of s h rl n rr s']
    by (auto simp: mac_api_def or_never_def good_result_def split: option.splits)
next
  fix s s' :: "'w mac_state" and h data ri
  assume a: "mac_alive s h" "data \<noteq> []" "api_write (mac_api os rl errno) (Some h) data s = (ri, s')"
  obtain d k where d: "mc_deref (Some h) s = Inr (h, d)" "mc_good d" "mc_handle d = Some k"
    using mac_aliveE [OF a(1)] .
  show "(\<exists>k. ri = Inr k \<and> - 1 \<le> k) \<and> mac_alive s' = mac_alive s"
    using a(2,3) d mac_alive_heap [of s' s]
    by (auto simp: mac_api_def mc_write_def set_report_def the_handle_def c_index_def Let_def
        split: if_splits prod.splits)
next
  fix s s' :: "'w mac_state" and h ru
  assume "mac_alive s h" "api_close (mac_api os rl errno) (Some h) s = (ru, s')"
  then show "if ru = Inr () then mac_alive s' = (mac_alive s)(h := False) else \<exists>e. ru = Inl e \<and> \<not> cpp_exception e"
    using mc_close_effect [of s h os] by (auto simp: mac_api_def or_never_def)
next
  fix s :: "'w mac_state" and h
  show "\<exists>e. api_error (mac_api os rl errno) (Some h) s = Inr e" by (simp add: mac_api_def)
qed

end
