(* ===== verification/Stack_Mac.thy ===== *)
theory Stack_Mac
  imports Stack_Linux Queued_Port Mac_Backend Mac_Correct
begin

text \<open>
  The stack on a mac: the backend is a port, whose channel is an \<^verbatim>\<open>IOHIDDeviceRef\<close> with its run
  loop and the queue of the device. A packet of the framer goes out as an output report whose number
  is its first byte; a report comes back through the callback, the queue and, when a reader
  waits, its wake-up.
\<close>

section \<open>The device as a channel\<close>

definition mac_put :: "'w mac_os \<Rightarrow> nat \<Rightarrow> u8 list \<Rightarrow> 'w \<Rightarrow> 'w option" where
  "mac_put os k p w =
     (case p of
        [] \<Rightarrow> None
      | number # rest \<Rightarrow>
          (case mo_set_report os k kIOHIDReportTypeOutput number (if number = 0 then rest else p) w of
             (ok, w1) \<Rightarrow> if ok then Some w1 else None))"

text \<open>
  The packets of an exchange begin with the high byte of the channel, which is therefore the number
  of the output report IOKit is given; windows builds put the 0 of an unnumbered report in front.
\<close>

lemma wire_packets_report_id:
  "p \<in> set (wire_packets seq bs) \<Longrightarrow>
    mac_put os k p w =
      (case mo_set_report os k kIOHIDReportTypeOutput 1 p w of (ok, w1) \<Rightarrow> if ok then Some w1 else None)"
proof (induction seq bs rule: wire_packets.induct)
  case (1 seq bs)
  have "be16 0x0101 = [1, 1]" by (simp add: be16_def)
  then show ?case
    using 1 by (auto simp: wire_packets.simps [of seq bs] packet_header_def mac_put_def split: if_splits)
qed

text \<open>What the run loop dispatches are reports.\<close>

fun reports_of :: "run_loop_event list \<Rightarrow> u8 list list option" where
  "reports_of [] = Some []"
| "reports_of (Input_Report f # events) = map_option (Cons f) (reports_of events)"
| "reports_of (event # events) = None"

definition mac_since :: "'w run_loop \<Rightarrow> nat \<Rightarrow> 'w \<Rightarrow> (u8 list list \<times> 'w) option" where
  "mac_since rl k w = (case rl_since rl k w of (events, w1) \<Rightarrow> map_option (\<lambda>fs. (fs, w1)) (reports_of events))"

definition mac_await :: "'w run_loop \<Rightarrow> nat \<Rightarrow> 'w \<Rightarrow> (u8 list \<times> 'w) option" where
  "mac_await rl k w = (case rl_next rl k w of Some (Input_Report f, w1) \<Rightarrow> Some (f, w1) | _ \<Rightarrow> None)"

section \<open>The backend on it\<close>

text \<open>An open device in blocking mode, connected.\<close>

definition mac_idle :: "mc_device \<Rightarrow> bool" where
  "mac_idle d \<longleftrightarrow> mc_good d \<and> mc_blocking d \<and> \<not> mc_stopping d"

definition mac_ready :: "'w mac_state \<Rightarrow> nat \<Rightarrow> nat \<times> nat \<Rightarrow> bool" where
  "mac_ready s h c \<longleftrightarrow>
     (\<exists>d k. c = (h, k) \<and> mc_deref (Some h) s = Inr (h, d) \<and> mac_idle d \<and> mc_handle d = Some k)"

definition mac_queues :: "'w mac_state \<Rightarrow> 'w queued_world" where
  "mac_queues s =
     (\<lambda>h. case mc_deref (Some h) s of Inl _ \<Rightarrow> [] | Inr (_, d) \<Rightarrow> rq_view (mc_reports d), mc_world s)"

lemma mac_ready_put:
  assumes "mc_deref (Some h) s = Inr (h, d0)" "mac_idle d" "mc_handle d = Some k"
  shows "mac_ready (mc_put h (Some d) (s\<lparr>mc_world := w\<rparr>)) h (h, k)" "mac_ready (mc_put h (Some d) s) h (h, k)"
  using assms by (auto simp: mac_ready_def mc_deref_def mc_put_def handle_at_Inr)

lemma mac_queues_put:
  assumes "mc_deref (Some h) s = Inr (h, d0)"
  shows "mac_queues (mc_put h (Some d) (s\<lparr>mc_world := w\<rparr>)) =
    ((fst (mac_queues s))(h := rq_view (mc_reports d)), w)"
proof -
  have "handle_at ((mc_heap s)[h := Some d]) (Some h) = Inr (h, d)"
    using assms by (auto simp: mc_deref_def handle_at_Inr)
  moreover have "handle_at ((mc_heap s)[h := Some d]) (Some i) = handle_at (mc_heap s) (Some i)" if "i \<noteq> h" for i
    using that by (simp add: handle_at_def)
  ultimately show ?thesis by (auto simp: mac_queues_def mc_deref_def mc_put_def)
qed

lemma fresh_idle: "fresh_device d \<Longrightarrow> mac_idle d"
  using mc_new_good by (auto simp: fresh_device_def mac_idle_def mc_stopping_def mc_new_hid_device_def)

lemma mac_opened_ready:
  assumes "h = length (mc_heap s)" "fresh_device d" "mc_heap s' = mc_heap s @ [Some d]"
  shows "\<exists>c s1. mc_set_nonblocking (Some h) 0 s' = (Inr 0, s1) \<and> mac_ready s1 h c"
proof -
  have d: "mc_deref (Some h) s' = Inr (h, d)" using assms(1,3) by (simp add: mc_deref_def handle_at_Inr)
  obtain k where k: "mc_handle d = Some k" using fresh_idle [OF assms(2)] by (auto simp: mac_idle_def mc_good_def)
  have "mac_idle (d\<lparr>mc_blocking := True\<rparr>)"
    using fresh_idle [OF assms(2)] by (simp add: mac_idle_def mc_good_def mc_stopping_def)
  then have "mac_ready (mc_put h (Some (d\<lparr>mc_blocking := True\<rparr>)) s') h (h, k)"
    using mac_ready_put(2) [OF d] k by simp
  then show ?thesis using d by (auto simp: mc_set_nonblocking_def)
qed

lemma mac_write_ready:
  assumes "mac_ready s h c" "queued_put (mac_put os) c p (mac_queues s) = Some v"
  shows "\<exists>n s1. mc_write os (Some h) p s = (Inr n, s1) \<and> mac_ready s1 h c \<and> mac_queues s1 = v"
proof -
  obtain d k where d: "c = (h, k)" "mc_deref (Some h) s = Inr (h, d)" "mac_idle d" "mc_handle d = Some k"
    using assms(1) by (auto simp: mac_ready_def)
  obtain w1 where w1: "mac_put os k p (mc_world s) = Some w1" "v = (fst (mac_queues s), w1)"
    using assms(2) by (auto simp: d(1) mac_queues_def)
  obtain number rest where p: "p = number # rest"
    "mo_set_report os k kIOHIDReportTypeOutput number (if number = 0 then rest else p) (mc_world s) = (True, w1)"
    using w1(1) by (auto simp: mac_put_def split: list.splits prod.splits if_splits)
  have "mc_write os (Some h) p s = (Inr (int (length p)), s\<lparr>mc_world := w1\<rparr>)"
    using d p by (auto simp: mc_write_def set_report_def the_handle_def c_index_def mac_idle_def mc_stopping_def Let_def)
  moreover have "mac_ready (s\<lparr>mc_world := w1\<rparr>) h c" using d by (auto simp: mac_ready_def mc_deref_def)
  moreover have "mac_queues (s\<lparr>mc_world := w1\<rparr>) = v" using w1(2) by (simp add: mac_queues_def mc_deref_def)
  ultimately show ?thesis by simp
qed

text \<open>The reports that came since the last call are in the queue.\<close>

lemma mac_meanwhile_reports:
  assumes "reports_of events = Some fs" "mac_idle d"
  shows "\<exists>d1. mc_meanwhile events \<lparr>ms_dev = d, ms_reader = R_Out, ms_thread = MT_Loop\<rparr> =
      Some (Inr \<lparr>ms_dev = d1, ms_reader = R_Out, ms_thread = MT_Loop\<rparr>) \<and> mac_idle d1 \<and>
    mc_handle d1 = mc_handle d \<and> rq_view (mc_reports d1) = queue_up fs (rq_view (mc_reports d))"
  using assms
proof (induction events arbitrary: d fs rule: reports_of.induct)
  case (2 f events)
  obtain gs where fs: "fs = f # gs" "reports_of events = Some gs" using "2.prems"(1) by auto
  obtain sig q where q: "mc_attach f (mc_reports d) = Some (Inr (sig, q))" "rq_inv q"
    "rq_view q = bounded_snoc (rq_view (mc_reports d)) f"
    using mc_queue.attach_ok [of "mc_reports d" f] "2.prems"(2) by (auto simp: mac_idle_def mc_good_def)
  have "length (rq_view q) \<le> 32" using "2.prems"(2) q(3)
    by (auto simp: mac_idle_def mc_good_def bounded_snoc_def)
  then have "mac_idle (d\<lparr>mc_reports := q\<rparr>)"
    using "2.prems"(2) q(2) by (simp add: mac_idle_def mc_good_def mc_stopping_def)
  from "2.IH" [OF fs(2) this] show ?case
    using "2.prems"(2) q(1,3) fs(1) by (simp add: mac_idle_def hid_report_callback_def wake_reader_def)
qed auto

lemma mc_run_queued:
  assumes "mac_idle d" "rq_view (mc_reports d) = f # q"
  shows "\<exists>d1. mc_run rl k n \<lparr>ms_dev = d, ms_reader = R_Out, ms_thread = MT_Loop\<rparr> w =
      Some (Inr (int (length (take n f)), take n f), d1, w) \<and> mac_idle d1 \<and> mc_handle d1 = mc_handle d \<and>
    rq_view (mc_reports d1) = q"
proof -
  have inv: "rq_inv (mc_reports d)" using assms(1) by (simp add: mac_idle_def mc_good_def)
  have root: "rq_root (mc_reports d) \<noteq> None" using rq_view_Nil [OF inv] assms(2) by auto
  obtain q1 where q1: "mc_take n d = (Inr (int (length (take n f)), take n f), d\<lparr>mc_reports := q1\<rparr>)"
    "rq_inv q1" "rq_view q1 = q" using mc_take_view [OF inv assms(2)] by metis
  have "mac_idle (d\<lparr>mc_reports := q1\<rparr>)"
    using assms q1(2,3) by (simp add: mac_idle_def mc_good_def mc_stopping_def)
  then show ?thesis using root q1(1,3)
    by (subst mc_run.simps) (simp add: mc_enter_def mc_hand_out_def)
qed

text \<open>
  On an empty queue the reader goes to sleep, the run loop dispatches the report, the callback puts
  it into the queue and wakes the reader, which takes it out again.
\<close>

lemma mc_run_awaited:
  assumes "mac_idle d" "rq_view (mc_reports d) = []" "rl_next rl k w = Some (Input_Report f, w1)"
  shows "\<exists>d1. mc_run rl k n \<lparr>ms_dev = d, ms_reader = R_Out, ms_thread = MT_Loop\<rparr> w =
      Some (Inr (int (length (take n f)), take n f), d1, w1) \<and> mac_idle d1 \<and> mc_handle d1 = mc_handle d \<and>
    rq_view (mc_reports d1) = []"
proof -
  have q: "rq_inv (mc_reports d)" "rq_root (mc_reports d) = None" "\<not> mc_stopping d"
    using assms(1,2) rq_view_Nil by (auto simp: mac_idle_def mc_good_def)
  obtain q1 where q1: "mc_attach f (mc_reports d) = Some (Inr (True, q1))" "rq_inv q1" "rq_view q1 = [f]"
    using mc_queue.attach_ok [OF q(1), of f] assms(2) by (auto simp: bounded_snoc_def)
  then have r: "rq_root q1 \<noteq> None" using rq_view_Nil [OF q1(2)] by auto
  let ?d = "d\<lparr>mc_reports := q1\<rparr>"
  obtain q2 where q2: "mc_take n ?d = (Inr (int (length (take n f)), take n f), ?d\<lparr>mc_reports := q2\<rparr>)"
      "rq_inv q2" "rq_view q2 = []" using mc_take_view [of ?d f "[]" n] q1(2,3) by auto
  have idle: "mac_idle (d\<lparr>mc_reports := q2\<rparr>)"
    using assms(1) q2(2,3) by (simp add: mac_idle_def mc_good_def mc_stopping_def)
  have ns: "\<not> mc_stopping ?d" using q(3) by (simp add: mc_stopping_def)
  have "mc_run rl k n \<lparr>ms_dev = d, ms_reader = R_Out, ms_thread = MT_Loop\<rparr> w =
      Some (Inr (int (length (take n f)), take n f), d\<lparr>mc_reports := q2\<rparr>, w1)"
    apply (subst mc_run.simps)
    apply (simp add: mc_enter_def q)
    apply (subst mc_run.simps)
    apply (simp add: q assms(3) hid_report_callback_def q1(1) wake_reader_def)
    apply (subst mc_run.simps)
    apply (simp add: mc_resume_def ns r mc_hand_out_def q2(1))
    done
  then show ?thesis using idle q2(3) by auto
qed

lemma mac_read_ready:
  assumes "mac_ready s h c" "queued_get (mac_since rl) (mac_await rl) c (mac_queues s) = Some (f, v)" "length f = n"
  shows "\<exists>s1. mac_read rl (Some h) n s = Some (Inr (int n, f), s1) \<and> mac_ready s1 h c \<and> mac_queues s1 = v"
proof -
  obtain d k where d: "c = (h, k)" "mc_deref (Some h) s = Inr (h, d)" "mac_idle d" "mc_handle d = Some k"
    using assms(1) by (auto simp: mac_ready_def)
  obtain events w0 where ev: "rl_since rl k (mc_world s) = (events, w0)" by fastforce
  have qs: "mac_queues s = (fst (mac_queues s), mc_world s)" "fst (mac_queues s) h = rq_view (mc_reports d)"
    using d(2) by (simp_all add: mac_queues_def)
  obtain fs where fs: "reports_of events = Some fs"
    using assms(2) ev by (auto simp: mac_queues_def d(1) mac_since_def split: option.splits)
  obtain d1 where m: "mc_meanwhile events \<lparr>ms_dev = d, ms_reader = R_Out, ms_thread = MT_Loop\<rparr> =
      Some (Inr \<lparr>ms_dev = d1, ms_reader = R_Out, ms_thread = MT_Loop\<rparr>)" "mac_idle d1" "mc_handle d1 = Some k"
    and v1: "rq_view (mc_reports d1) = queue_up fs (rq_view (mc_reports d))"
    using mac_meanwhile_reports [OF fs d(3)] d(4) by auto
  have g: "queued_get (mac_since rl) (mac_await rl) (h, k) (fst (mac_queues s), mc_world s) = Some (f, v)"
    using assms(2) qs(1) d(1) by simp
  have since: "mac_since rl k (mc_world s) = Some (gs, w1) \<Longrightarrow> gs = fs \<and> w1 = w0" for gs w1
    by (simp add: mac_since_def ev fs)
  have "\<exists>d2 w2. mc_run rl k n \<lparr>ms_dev = d1, ms_reader = R_Out, ms_thread = MT_Loop\<rparr> w0 =
      Some (Inr (int n, f), d2, w2) \<and> mac_idle d2 \<and> mc_handle d2 = Some k \<and>
      v = ((fst (mac_queues s))(h := rq_view (mc_reports d2)), w2)"
    using g
  proof (cases rule: queued_getE)
    case (queued gs q w1)
    then have "rq_view (mc_reports d1) = f # q" "w1 = w0" using since v1 qs(2) by auto
    then show ?thesis using mc_run_queued [OF m(2), of f q rl k n w0] m(3) assms(3) queued(3) by auto
  next
    case (awaited gs w1 w2)
    then have "rq_view (mc_reports d1) = []" "rl_next rl k w0 = Some (Input_Report f, w2)"
      using since v1 qs(2) by (auto simp: mac_await_def split: option.splits run_loop_event.splits)
    then show ?thesis using mc_run_awaited [OF m(2), of rl k w0 f w2 n] m(3) assms(3) awaited(4) by auto
  qed
  then obtain d2 w2 where r: "mc_run rl k n \<lparr>ms_dev = d1, ms_reader = R_Out, ms_thread = MT_Loop\<rparr> w0 =
      Some (Inr (int n, f), d2, w2)" "mac_idle d2" "mc_handle d2 = Some k"
    and v: "v = ((fst (mac_queues s))(h := rq_view (mc_reports d2)), w2)" by blast
  have "mac_read rl (Some h) n s = Some (Inr (int n, f), mc_put h (Some d2) (s\<lparr>mc_world := w2\<rparr>))"
    using d m(1) r(1) ev by (simp add: mac_read_def the_handle_def mac_idle_def)
  then show ?thesis using mac_ready_put(1) [OF d(2) r(2,3)] mac_queues_put [OF d(2)] v d(1) by auto
qed

interpretation mcp: packet_port "mac_api os rl errno" mac_alive posix_build mac_ready mac_queues
    "queued_put (mac_put os)" "queued_get (mac_since rl) (mac_await rl)"
  for os :: "'w mac_os" and rl :: "'w run_loop" and errno
proof unfold_locales
  fix s :: "'w mac_state" and h c
  assume "mac_ready s h c"
  then show "mac_alive s h" by (auto simp: mac_ready_def mac_alive_def mac_idle_def)
next
  fix v pid sn h and s s1 :: "'w mac_state"
  assume "api_open (mac_api os rl errno) v pid sn s = (Inr (Some h), s1)"
  from mc_open_effect [OF mac_apiD(1) [OF this]]
  show "\<exists>c s2. api_set_nonblocking (mac_api os rl errno) (Some h) 0 s1 = (Inr 0, s2) \<and> mac_ready s2 h c"
    using mac_opened_ready [of h s _ s1] by (auto simp: mac_api_def)
next
  fix path h and s s1 :: "'w mac_state"
  assume "api_open_path (mac_api os rl errno) path s = (Inr (Some h), s1)"
  then have "mc_open_path os path s = (Inr (Some h), s1)" by (simp add: mac_api_def)
  from mc_open_path_effect [OF this]
  show "\<exists>c s2. api_set_nonblocking (mac_api os rl errno) (Some h) 0 s1 = (Inr 0, s2) \<and> mac_ready s2 h c"
    using mac_opened_ready [of h s _ s1] by (auto simp: mac_api_def)
next
  fix s :: "'w mac_state" and h c p v
  assume "mac_ready s h c" "queued_put (mac_put os) c p (mac_queues s) = Some v"
  from mac_write_ready [OF this]
  show "\<exists>n s1. api_write (mac_api os rl errno) (Some h) (if b_win32 posix_build then 0 # p else p) s = (Inr n, s1) \<and>
      mac_ready s1 h c \<and> mac_queues s1 = v"
    by (simp add: mac_api_def posix_build_def)
next
  fix s :: "'w mac_state" and h c f v
  assume a: "mac_ready s h c" "queued_get (mac_since rl) (mac_await rl) c (mac_queues s) = Some (f, v)" "length f = 64"
  from mac_read_ready [OF this] obtain s1 where
    "mac_read rl (Some h) 64 s = Some (Inr (64, f), s1)" "mac_ready s1 h c" "mac_queues s1 = v" by auto
  then show "\<exists>bs s1. api_read (mac_api os rl errno) (Some h) (if b_msc posix_build then 65 else 64) s =
        (Inr (int (length bs), bs), s1) \<and> (if b_msc posix_build then bs \<noteq> [] \<and> tl bs = f else bs = f) \<and>
      mac_ready s1 h c \<and> mac_queues s1 = v \<and> api_error (mac_api os rl errno) (Some h) s1 = Inr None"
    using a(3) by (intro exI [of _ f] exI [of _ s1]) (simp add: mac_api_def or_never_def posix_build_def mc_error_def)
qed

section \<open>Property\<close>

text \<open>
  C14. From \<^verbatim>\<open>init\<close> to the results on a mac: after a successful \<^verbatim>\<open>init\<close> the wallet holds an open device
  in blocking mode, and every sequence of address and signature commands whose packets IOKit takes
  as output reports, numbered by their first byte, and whose answers the run loop of the device
  dispatches as input reports, gives for every command the data or the status of its own answer. The
  reports may come while the caller waits or any number of them before it reads; those queued come
  first, and no read waits for ever.
\<close>

theorem mac_session:
  assumes "env_api env = mac_api os rl errno" and "env_build env = posix_build" and "tb_laws (env_tb env)"
    and "wallet_init env pid (nanos_wallet_new (env_tb env)) s = (Inr True, w1, s1)"
  shows "\<exists>h c. m_dev (m_io (m_framer w1)) = Some h \<and> mac_ready s1 h c \<and>
    (\<forall>script v. dialogues (queued_put (mac_put os) c) (queued_get (mac_since rl) (mac_await rl) c) script
         (mac_queues s1) = Some v \<longrightarrow>
       (\<exists>w' s'. perform_all env (map fst script) w1 s1 = Some (map (\<lambda>(q, x). reply_to q x) script, w', s') \<and>
          wallet_ready w' \<and> mac_ready s' h c \<and> mac_queues s' = v))"
proof -
  have "mcp.runs_on os rl errno env" using assms(1-3) by (simp add: mcp.runs_on_def)
  from mcp.init_session [OF assms(4) this] show ?thesis .
qed

text \<open>A mac with a wallet on it: the same answer is there before every read.\<close>

definition nano_mac :: "unit mac_os" where
  "nano_mac = demo_mac
     \<lparr>mo_property := (\<lambda>w d k. if k = ''VendorID'' then Some (CF_Number (uint LEDGER_VID))
        else if k = ''ProductID'' then Some (CF_Number (uint NANOS_PID)) else None)\<rparr>"

lemma nano_mac_sel:
  "mo_devices nano_mac w = Some [Some 1]" "mo_entry nano_mac w path = Some 0" "mo_create nano_mac e w = (Some 1, w)"
  "mo_open nano_mac k w = (True, w)" "mo_start nano_mac k l w = w" "mo_release_entry nano_mac e w = w"
  "mo_service_path nano_mac w d = Some ''IOService:/Nano''" "mo_run_loop nano_mac w = (kCFRunLoopRunTimedOut, w)"
  "mo_set_report nano_mac k t i bs w = (True, w)"
  by (simp_all add: nano_mac_def demo_mac_def)

definition nano_mac_state :: "mc_device option list \<Rightarrow> unit mac_state" where
  "nano_mac_state heap = \<lparr>mc_world = (), hid_mgr = True, mc_heap = heap\<rparr>"

definition nano_mac_device :: mc_device where
  "nano_mac_device = mc_new_hid_device\<lparr>mc_handle := Some 1, mc_max_input_report_len := 0\<rparr>"

definition nano_run_loop :: "unit run_loop" where
  "nano_run_loop = \<lparr>rl_since = (\<lambda>k w. ([Input_Report demo_answer], w)), rl_next = (\<lambda>k w. None)\<rparr>"

definition nano_mac_env :: "unit mac_state env" where
  "nano_mac_env = \<lparr>env_build = posix_build, env_tb = tb_vec, env_api = mac_api nano_mac nano_run_loop (\<lambda>w. 0),
     env_lib = \<lparr>narrow = (\<lambda>_. None), tl_strerror = (\<lambda>_. [])\<rparr>, env_sleep = (\<lambda>_ s. s)\<rparr>"

lemma nano_mac_env_sel [simp]:
  "env_api nano_mac_env = mac_api nano_mac nano_run_loop (\<lambda>w. 0)" "env_tb nano_mac_env = tb_vec"
  by (simp_all add: nano_mac_env_def)

lemma nano_mac_ids:
  "get_vendor_id nano_mac w d = LEDGER_VID" "get_product_id nano_mac w d = NANOS_PID"
  by (simp_all add: get_vendor_id_def get_product_id_def get_int_property_def nano_mac_def LEDGER_VID_def NANOS_PID_def)

lemma nano_mac_no_string:
  assumes "length buf = 256" "prop \<in> {''SerialNumber'', ''Manufacturer'', ''Product''}"
  shows "get_string_property nano_mac w d prop buf 256 = Inr (- 1, Some 0 # tl buf)"
  using assms by (cases buf) (auto simp: get_string_property_def nano_mac_def c_memcpy_def overwrite_def)

lemma nano_mac_record:
  "\<exists>r. mc_record nano_mac () 1 = Inr r \<and> di_vendor_id r = LEDGER_VID \<and> di_product_id r = NANOS_PID \<and>
    di_path r = Some ''IOService:/Nano''"
  by (simp add: mc_record_def get_serial_number_def get_manufacturer_string_def get_product_string_def
      nano_mac_no_string nano_mac_ids nano_mac_sel)

lemma nano_mac_enumerate:
  "\<exists>r. di_vendor_id r = LEDGER_VID \<and> di_product_id r = NANOS_PID \<and> di_path r = Some ''IOService:/Nano'' \<and>
    (\<forall>v p heap. mc_enumerate nano_mac v p (nano_mac_state heap) =
       Some (Inr (if id_matches v p LEDGER_VID NANOS_PID then [r] else []), nano_mac_state heap))"
proof -
  have ev: "process_pending_events nano_mac w = Some w" for w
    by (subst process_pending_events.simps) (simp add: nano_mac_sel)
  obtain r where "mc_record nano_mac () 1 = Inr r" "di_vendor_id r = LEDGER_VID" "di_product_id r = NANOS_PID"
    "di_path r = Some ''IOService:/Nano''" using nano_mac_record by blast
  then show ?thesis
    by (intro exI [of _ r])
      (simp add: mc_enumerate_def mc_hid_init_def nano_mac_state_def ev nano_mac_sel nano_mac_ids)
qed

lemma nano_mac_open:
  "mc_open nano_mac LEDGER_VID NANOS_PID None (nano_mac_state heap) =
    Some (Inr (Some (length heap)), nano_mac_state (heap @ [Some nano_mac_device]))"
proof -
  obtain r where "di_vendor_id r = LEDGER_VID" "di_product_id r = NANOS_PID" "di_path r = Some ''IOService:/Nano''"
    "mc_enumerate nano_mac LEDGER_VID NANOS_PID (nano_mac_state heap) =
       Some (Inr (if id_matches LEDGER_VID NANOS_PID LEDGER_VID NANOS_PID then [r] else []), nano_mac_state heap)"
    using nano_mac_enumerate by blast
  moreover have "get_max_report_length nano_mac w k = 0" for w k
    by (simp add: get_max_report_length_def get_int_property_def nano_mac_def)
  then have "mc_open_path nano_mac path (nano_mac_state heap) =
      (Inr (Some (length heap)), nano_mac_state (heap @ [Some nano_mac_device]))" for path
    by (simp add: mc_open_path_def mc_hid_init_def nano_mac_state_def nano_mac_sel nano_mac_device_def)
  ultimately show ?thesis by (simp add: mc_open_def id_matches_def)
qed

lemma nano_mac_init:
  "\<exists>w1. wallet_init nano_mac_env NANOS_PID (nanos_wallet_new tb_vec) (nano_mac_state []) =
    (Inr True, w1, nano_mac_state [Some nano_mac_device]) \<and> m_dev (m_io (m_framer w1)) = Some 0"
proof -
  obtain r where r: "di_vendor_id r = LEDGER_VID" "di_product_id r = NANOS_PID"
    and en: "mc_enumerate nano_mac v p (nano_mac_state heap) =
       Some (Inr (if id_matches v p LEDGER_VID NANOS_PID then [r] else []), nano_mac_state heap)" for v p heap
    using nano_mac_enumerate by blast
  have e: "wenumerate nano_mac_env LEDGER_VID NANOS_PID_ROOT w (nano_mac_state heap) = (Inr [], w, nano_mac_state heap)"
    "wenumerate nano_mac_env LEDGER_VID NANOS_PID w (nano_mac_state heap) = (Inr [r], w, nano_mac_state heap)"
    for w heap
    by (simp_all add: wenumerate_def enumerate_devices_def mac_api_def or_never_def en
        id_matches_def LEDGER_VID_def NANOS_PID_def NANOS_PID_ROOT_def)
  have "nano_mac_device\<lparr>mc_blocking := True\<rparr> = nano_mac_device"
    by (simp add: nano_mac_device_def mc_new_hid_device_def)
  then have n: "mc_set_nonblocking (Some 0) 0 (nano_mac_state [Some nano_mac_device]) =
      (Inr 0, nano_mac_state [Some nano_mac_device])"
    by (simp add: mc_set_nonblocking_def mc_deref_def handle_at_def nano_mac_state_def mc_put_def)
  have o: "hidpp_open (mac_api nano_mac nano_run_loop (\<lambda>w. 0)) (hidpp_device_ids LEDGER_VID NANOS_PID) (nano_mac_state []) =
    (Inr True, (hidpp_device_ids LEDGER_VID NANOS_PID)\<lparr>m_dev := Some 0\<rparr>, nano_mac_state [Some nano_mac_device])"
    using nano_mac_open [of "[]"] n
    by (simp add: hidpp_open_def lock_guard_def hidpp_device_ids_def mac_api_def or_never_def LEDGER_VID_def NANOS_PID_def)
  have d: "hidpp_assign (m_io (m_framer (nanos_wallet_new tb_vec))) (hidpp_copy (hidpp_device_ids LEDGER_VID NANOS_PID)) =
      hidpp_device_ids LEDGER_VID NANOS_PID" "m_devLock (nanos_wallet_new tb_vec) = False"
    by (simp_all add: nanos_wallet_new_def hidpp_assign_def hidpp_copy_def hidpp_device_ids_def frame_io_apdu_new_def)
  show ?thesis
    using o d r
    by (simp add: wallet_init_def wlock_def wbind_def e assign_framer_def open_framer_def wio_def
        io_valid_def hidpp_valid_def frame_io_apdu_new_def Let_def)
qed

lemma nano_mac_get_all:
  "qs h = [] \<Longrightarrow> get_all (queued_get (mac_since nano_run_loop) (mac_await nano_run_loop) (h, k)) [demo_answer] (qs, w) =
    Some (qs, w)"
  by (auto simp: mac_since_def nano_run_loop_def bounded_snoc_def)

lemma nano_mac_dialogue:
  assumes "qs h = []"
  shows "dialogue (queued_put (mac_put nano_mac) (h, k)) (queued_get (mac_since nano_run_loop) (mac_await nano_run_loop) (h, k))
    a (0, replicate 20 7, 0x9000) (qs, w) = Some (qs, w)"
proof -
  have "put_all (mac_put nano_mac k) (wire_packets 0 (message (apdu_bytes a))) w = Some w"
    by (rule put_all_const) (simp add: wire_packets_report_id nano_mac_sel)
  then show ?thesis unfolding dialogue.simps demo_answer_packets queued_put_all
    using nano_mac_get_all [of qs h k w] assms by (simp del: get_all.simps)
qed

theorem mac_session_witness:
  "\<exists>w1 s1 w' s'. wallet_init nano_mac_env NANOS_PID (nanos_wallet_new tb_vec) (nano_mac_state []) = (Inr True, w1, s1) \<and>
     perform_all nano_mac_env [Get_Address 0 False, Get_Address 5 True] w1 s1 =
       Some ([Inr (Address (replicate 20 7)), Inr (Address (replicate 20 7))], w', s')"
proof -
  let ?s1 = "nano_mac_state [Some nano_mac_device]"
  let ?x = "(0, replicate 20 7, 0x9000) :: answer"
  let ?script = "[(Get_Address 0 False, ?x), (Get_Address 5 True, ?x)]"
  obtain w1 where i: "wallet_init nano_mac_env NANOS_PID (nanos_wallet_new (env_tb nano_mac_env)) (nano_mac_state []) =
      (Inr True, w1, ?s1)" using nano_mac_init by auto
  have b: "env_build nano_mac_env = posix_build" "tb_laws (env_tb nano_mac_env)"
    by (simp_all add: nano_mac_env_def tb_vec_laws)
  obtain h c where c: "mac_ready ?s1 h c" and run: "\<And>v. dialogues (queued_put (mac_put nano_mac) c)
      (queued_get (mac_since nano_run_loop) (mac_await nano_run_loop) c) ?script (mac_queues ?s1) = Some v \<Longrightarrow>
      \<exists>w' s'. perform_all nano_mac_env (map fst ?script) w1 ?s1 = Some (map (\<lambda>(q, x). reply_to q x) ?script, w', s')"
    using mac_session [OF nano_mac_env_sel(1) b i] by blast
  obtain k where "c = (h, k)" using c by (auto simp: mac_ready_def)
  moreover obtain qs where "mac_queues ?s1 = (qs, ())" "qs h = []"
    by (cases h) (simp_all add: mac_queues_def mc_deref_def handle_at_def nano_mac_state_def nano_mac_device_def
        mc_new_hid_device_def)
  ultimately obtain w' s' where
    "perform_all nano_mac_env (map fst ?script) w1 ?s1 = Some (map (\<lambda>(q, x). reply_to q x) ?script, w', s')"
    using run by (auto simp: nano_mac_dialogue simp del: dialogue.simps)
  then show ?thesis using i by auto
qed

end
