(* ===== verification/Libusb_Backend.thy ===== *)
theory Libusb_Backend
  imports Libusb_Thread Handles
begin

text \<open>
  The libusb backend as a value of the interface (\<^verbatim>\<open>src/src/hid/libusb/hid.c\<close>): its devices in a list,
  each with its read thread. What \<^verbatim>\<open>libusb_handle_events\<close> reports is a parameter: some events between
  two calls, and one after the other while a caller waits in \<^verbatim>\<open>hid_read\<close>; the read thread acts on
  them by the steps of Libusb_Thread. A read thread starts with what its first submission returned.
  The backend keeps the contract \<open>hid_backend\<close>; it can close the devices whose first submission
  succeeded and which have one read thread, and waits for ever when the submission failed.
\<close>

section \<open>State\<close>

text \<open>An open device with the state of its read thread, on a list of handles.\<close>

record lu_open_device =
  lo_dev :: lu_device
  lo_sys :: lu_system

record 'w lu_library =
  ll_state :: "'w libusb_state"
  ll_heap :: "lu_open_device option list"

definition lu_deref :: "ptr \<Rightarrow> 'w lu_library \<Rightarrow> (nat \<times> lu_open_device) res" where
  "lu_deref p s = handle_at (ll_heap s) p"

definition ll_world :: "'w lu_library \<Rightarrow> 'w" where
  "ll_world s = lu_world (ll_state s)"

definition lu_put :: "nat \<Rightarrow> lu_open_device option \<Rightarrow> 'w \<Rightarrow> 'w lu_library \<Rightarrow> 'w lu_library" where
  "lu_put h d w s = s\<lparr>ll_state := (ll_state s)\<lparr>lu_world := w\<rparr>, ll_heap := (ll_heap s)[h := d]\<rparr>"

section \<open>A read with its read thread\<close>

text \<open>
  A transfer of the device comes back with its status, its bytes and the result of submitting it
  again, or the handling of the events fails for good.
\<close>

datatype usb_event = Transfer transfer_status "u8 list" int | Fatal

text \<open>
  \<open>ue_since k w\<close>: the events on the handle \<open>k\<close> since the last call; \<open>ue_next k w\<close>: the next one when
  a caller waits, \<open>None\<close> when nothing ever comes.
\<close>

record 'w usb_events =
  ue_since :: "nat \<Rightarrow> 'w \<Rightarrow> usb_event list \<times> 'w"
  ue_next :: "nat \<Rightarrow> 'w \<Rightarrow> (usb_event \<times> 'w) option"

text \<open>A transfer that is not pending does not call back.\<close>

fun lu_dispatch :: "usb_event \<Rightarrow> lu_system \<Rightarrow> lu_system res option" where
  "lu_dispatch (Transfer status buffer submit) s =
     (if sys_pending s then
        (case read_callback status buffer submit (sys_shared s) of
           None \<Rightarrow> None
         | Some (Inl e) \<Rightarrow> Some (Inl e)
         | Some (Inr (signal, again, sh)) \<Rightarrow>
             Some (Inr (s\<lparr>sys_shared := sh, sys_reader := wake_reader signal (sys_reader s),
               sys_pending := again \<and> submit = 0\<rparr>)))
      else Some (Inr s))"
| "lu_dispatch Fatal s =
     Some (Inr (if sys_thread s = T_Events then s\<lparr>sys_thread := T_Cancel\<rparr> else s))"

text \<open>The read thread between two events: the tests of its two loops, and the broadcast.\<close>

definition lu_leave_events :: "lu_system \<Rightarrow> lu_system" where
  "lu_leave_events s =
     (if sys_thread s = T_Events \<and> shutdown_thread (sys_shared s) then s\<lparr>sys_thread := T_Cancel\<rparr> else s)"

definition lu_leave_cancel :: "lu_system \<Rightarrow> lu_system" where
  "lu_leave_cancel s =
     (if sys_thread s = T_Cancel \<and> cancelled (sys_shared s) then s\<lparr>sys_thread := T_Wake\<rparr> else s)"

definition lu_broadcast :: "lu_system \<Rightarrow> lu_system" where
  "lu_broadcast s =
     (if sys_thread s = T_Wake
      then s\<lparr>sys_thread := T_End, sys_reader := wake_reader True (sys_reader s)\<rparr> else s)"

definition lu_settle :: "lu_system \<Rightarrow> lu_system" where
  "lu_settle s = lu_broadcast (lu_leave_cancel (lu_leave_events s))"

fun lu_meanwhile :: "usb_event list \<Rightarrow> lu_system \<Rightarrow> lu_system res option" where
  "lu_meanwhile [] s = Some (Inr (lu_settle s))"
| "lu_meanwhile (event # events) s =
     (let s = lu_settle s in
      if sys_thread s = T_End then Some (Inr s)
      else case lu_dispatch event s of
             None \<Rightarrow> None
           | Some (Inl e) \<Rightarrow> Some (Inl e)
           | Some (Inr s1) \<Rightarrow> lu_meanwhile events s1)"

text \<open>
  While a caller waits, one schedule of \<open>lu_step\<close>: the reader goes on when it can, else the read
  thread does. \<open>None\<close>: the read never returns.
\<close>

partial_function (option) lu_run ::
    "'w usb_events \<Rightarrow> nat \<Rightarrow> nat \<Rightarrow> lu_system \<Rightarrow> 'w \<Rightarrow> ((int \<times> u8 list) res \<times> lu_system \<times> 'w) option" where
  "lu_run ue k n s w =
     (case sys_reader s of
        R_Back r \<Rightarrow> Some (r, s\<lparr>sys_reader := R_Out\<rparr>, w)
      | R_Out \<Rightarrow> lu_run ue k n (reader_check n s) w
      | R_Woken \<Rightarrow> lu_run ue k n (reader_check n s) w
      | R_Wait \<Rightarrow>
          (if sys_reader (lu_settle s) \<noteq> R_Wait then lu_run ue k n (lu_settle s) w
           else
             (case ue_next ue k w of
                None \<Rightarrow> None
              | Some (event, w1) \<Rightarrow>
                  (case lu_dispatch event (lu_settle s) of
                     None \<Rightarrow> None
                   | Some (Inl e) \<Rightarrow> Some (Inl e, s, w1)
                   | Some (Inr s1) \<Rightarrow> lu_run ue k n s1 w1))))"

lemma lu_run_back [simp]: "sys_reader s = R_Back r \<Longrightarrow> lu_run ue k n s w = Some (r, s\<lparr>sys_reader := R_Out\<rparr>, w)"
  by (subst lu_run.simps) simp

section \<open>The operations on handles\<close>

definition usb_read ::
    "'w usb_events \<Rightarrow> ptr \<Rightarrow> nat \<Rightarrow> 'w lu_library \<Rightarrow> ((int \<times> u8 list) res \<times> 'w lu_library) option" where
  "usb_read ue dev n s =
     (case lu_deref dev s of
        Inl e \<Rightarrow> Some (Inl e, s)
      | Inr (h, d) \<Rightarrow>
          (let k = lu_handle (lo_dev d);
               (events, w) = ue_since ue k (ll_world s)
           in case lu_meanwhile events (lo_sys d) of
                None \<Rightarrow> None
              | Some (Inl e) \<Rightarrow> Some (Inl e, lu_put h (Some d) w s)
              | Some (Inr m) \<Rightarrow>
                  if lu_blocking (lo_dev d) then
                    map_option (\<lambda>(r, m1, w). (r, lu_put h (Some (d\<lparr>lo_sys := m1\<rparr>)) w s)) (lu_run ue k n m w)
                  else
                    map_option
                      (\<lambda>(r, q). (r, lu_put h
                         (Some (d\<lparr>lo_sys := m\<lparr>sys_shared := (sys_shared m)\<lparr>input_reports := q\<rparr>\<rparr>\<rparr>)) w s))
                      (lu_read (lo_dev d) n (sys_shared m) [])))"

text \<open>
  A device that was opened becomes a new handle, with its read thread started: it begins where the
  first submission left it, of the thread started last when there are several.
\<close>

definition usb_opened :: "lu_device option res \<times> 'w libusb_state \<Rightarrow> 'w lu_library \<Rightarrow> ptr res \<times> 'w lu_library" where
  "usb_opened r s =
     (case r of
        (Inr (Some d), st) \<Rightarrow>
          (Inr (Some (length (ll_heap s))),
           s\<lparr>ll_state := st, ll_heap := ll_heap s @ [Some \<lparr>lo_dev = d, lo_sys = lu_start (lu_submit d)\<rparr>]\<rparr>)
      | (Inr None, st) \<Rightarrow> (Inr None, s\<lparr>ll_state := st\<rparr>)
      | (Inl e, st) \<Rightarrow> (Inl e, s\<lparr>ll_state := st\<rparr>))"

text \<open>
  \<^verbatim>\<open>hid_close\<close> joins the read thread, which ends if a transfer is pending or was cancelled; then it
  frees the device, which the threads of further alternate settings, never joined, still use.
\<close>

definition usb_close :: "'w libusb_os \<Rightarrow> ptr \<Rightarrow> 'w lu_library \<Rightarrow> (unit res \<times> 'w lu_library) option" where
  "usb_close os dev s =
     (case dev of
        None \<Rightarrow> Some (Inr (), s)
      | Some _ \<Rightarrow>
          (case lu_deref dev s of
             Inl e \<Rightarrow> Some (Inl e, s)
           | Inr (h, d) \<Rightarrow>
               (if \<not> (sys_pending (lo_sys d) \<or> cancelled (sys_shared (lo_sys d))) then None
                else if lu_readers (lo_dev d) \<noteq> 1 then Some (Inl (UB Use_After_Free), s)
                else
                  map_option (\<lambda>(r, w). (bind_res r (\<lambda>_. Inr ()), lu_put h None w s))
                    (lu_close os (Some ((lo_dev d)\<lparr>lu_reports := input_reports (sys_shared (lo_sys d))\<rparr>)) (ll_world s)))))"

definition usb_api :: "'w libusb_os \<Rightarrow> 'w usb_events \<Rightarrow> ('w \<Rightarrow> int) \<Rightarrow> 'w lu_library hid_api" where
  "usb_api os ue errno =
     \<lparr>api_enumerate = (\<lambda>v p s. case lu_enumerate os v p (ll_state s) of (r, st) \<Rightarrow> (r, s\<lparr>ll_state := st\<rparr>)),
      api_open = (\<lambda>v p sn s. usb_opened (lu_open os v p sn (ll_state s)) s),
      api_open_path = (\<lambda>path s. case path of
         None \<Rightarrow> (Inl (UB Null_Pointer), s) | Some p \<Rightarrow> usb_opened (lu_open_path os p (ll_state s)) s),
      api_set_nonblocking = (\<lambda>dev nonblock s. case lu_deref dev s of
         Inl e \<Rightarrow> (Inl e, s)
       | Inr (h, d) \<Rightarrow>
           (case lu_set_nonblocking nonblock (lo_dev d) of
              (r, d1) \<Rightarrow> (Inr r, lu_put h (Some (d\<lparr>lo_dev := d1\<rparr>)) (ll_world s) s))),
      api_read = (\<lambda>dev n s. or_never s (usb_read ue dev n s)),
      api_write = (\<lambda>dev data s. case lu_deref dev s of
         Inl e \<Rightarrow> (Inl e, s)
       | Inr (h, d) \<Rightarrow>
           (case lu_write os (lo_dev d) data (ll_world s) of (r, w) \<Rightarrow> (r, lu_put h (Some d) w s))),
      api_close = (\<lambda>dev s. or_never s (usb_close os dev s)),
      api_error = (\<lambda>dev s. Inr (lu_error None)), api_errno = (\<lambda>s. errno (ll_world s))\<rparr>"

section \<open>The run is a run of the two threads\<close>

text \<open>
  \<open>armed\<close>: the first submission succeeded, so a transfer is pending or was cancelled; if it failed,
  neither is ever the case.
\<close>

definition run_fine :: "bool \<Rightarrow> nat \<Rightarrow> lu_system \<Rightarrow> bool" where
  "run_fine armed n s \<longleftrightarrow> lu_inv s \<and>
     (if armed then sys_pending s \<or> cancelled (sys_shared s)
      else \<not> sys_pending s \<and> \<not> cancelled (sys_shared s)) \<and>
     (\<forall>r. sys_reader s = R_Back r \<longrightarrow> good_result n r)"

lemma run_fine_step:
  assumes "lu_step e s s'" "run_fine c n s" "\<forall>r. sys_reader s' \<noteq> R_Back r"
  shows "run_fine c n s'"
proof -
  have i: "lu_inv s" using assms(2) by (simp add: run_fine_def)
  then have "sys_thread s = T_Events \<or> sys_thread s = T_Cancel" if "\<not> cancelled (sys_shared s)"
    using that by (cases "sys_thread s") (auto simp: lu_inv_def)
  then show ?thesis
    using lu_step_inv [OF assms(1) i] lu_step_pending [OF assms(1)] lu_step_stuck [OF assms(1)] assms(2,3)
    by (auto simp: run_fine_def split: if_splits)
qed

lemma lu_leave_cases:
  "lu_leave_events s = s \<or> lu_step Quiet s (lu_leave_events s)"
  "lu_leave_cancel s = s \<or> lu_step Quiet s (lu_leave_cancel s)"
  "lu_broadcast s = s \<or> lu_step Quiet s (lu_broadcast s)"
  by (auto simp: lu_leave_events_def lu_leave_cancel_def lu_broadcast_def intro: lu_step.intros)

lemma lu_settle_fine:
  assumes "run_fine c n s" "\<forall>r. sys_reader s \<noteq> R_Back r"
  shows "run_fine c n (lu_settle s) \<and> (\<forall>r. sys_reader (lu_settle s) \<noteq> R_Back r)"
proof -
  let ?a = "lu_leave_events s"
  let ?b = "lu_leave_cancel ?a"
  have r: "\<forall>r. sys_reader ?a \<noteq> R_Back r" "\<forall>r. sys_reader ?b \<noteq> R_Back r" "\<forall>r. sys_reader (lu_settle s) \<noteq> R_Back r"
    using assms(2) by (simp_all add: lu_settle_def lu_leave_events_def lu_leave_cancel_def lu_broadcast_def wake_reader_def)
  have "run_fine c n ?a" using lu_leave_cases(1) [of s] run_fine_step [OF _ assms(1) r(1)] assms(1) by metis
  then have "run_fine c n ?b" using lu_leave_cases(2) [of ?a] run_fine_step [OF _ _ r(2)] by metis
  then have "run_fine c n (lu_settle s)" using lu_leave_cases(3) [of ?b] run_fine_step [OF _ _ r(3)]
    by (metis lu_settle_def)
  then show ?thesis using r(3) by blast
qed

text \<open>Between two events the thread is in one of its loops, or it has ended and nobody waits.\<close>

lemma lu_settle_thread:
  assumes "run_fine c n s"
  shows "sys_thread (lu_settle s) \<noteq> T_Wake"
    and "sys_reader (lu_settle s) = R_Wait \<Longrightarrow> sys_thread (lu_settle s) \<noteq> T_End"
  using assms
  by (auto simp: run_fine_def lu_inv_def lu_settle_def lu_leave_events_def lu_leave_cancel_def lu_broadcast_def
      wake_reader_def split: if_splits)

lemma read_callback_some:
  assumes "lu_shared_ok sh"
  shows "\<exists>signal again sh1. read_callback status buffer submit sh = Some (Inr (signal, again, sh1))"
proof -
  obtain sig q where "lu_attach buffer (input_reports sh) = Some (Inr (sig, q))"
    using lu_attach_ok [of "input_reports sh" buffer] assms by (auto simp: lu_shared_ok_def)
  then show ?thesis by (auto simp: read_callback_def Let_def)
qed

lemma lu_dispatch_fine:
  assumes "run_fine c n s" "sys_thread s = T_Events \<or> sys_thread s = T_Cancel" "\<forall>r. sys_reader s \<noteq> R_Back r"
  shows "\<exists>s1. lu_dispatch event s = Some (Inr s1) \<and> run_fine c n s1 \<and> (\<forall>r. sys_reader s1 \<noteq> R_Back r)"
proof (cases event)
  case (Transfer status buffer submit)
  show ?thesis
  proof (cases "sys_pending s")
    case True
    obtain signal again sh where rc: "read_callback status buffer submit (sys_shared s) = Some (Inr (signal, again, sh))"
      using read_callback_some [of "sys_shared s" status buffer submit] assms(1)
      by (auto simp: run_fine_def lu_inv_def)
    have "run_fine c n (s\<lparr>sys_shared := sh, sys_reader := wake_reader signal (sys_reader s),
        sys_pending := again \<and> submit = 0\<rparr>)"
      by (rule run_fine_step [OF lu_step.callback [OF assms(2) True rc] assms(1)])
        (use assms(3) in \<open>simp add: wake_reader_def\<close>)
    then show ?thesis using Transfer True rc assms(3) by (simp add: wake_reader_def)
  qed (use Transfer assms in auto)
next
  case Fatal
  then show ?thesis
    using assms run_fine_step [OF lu_step.stop assms(1)] by (cases "sys_thread s = T_Events") auto
qed

lemma lu_meanwhile_fine:
  assumes "run_fine c n s" "\<forall>r. sys_reader s \<noteq> R_Back r"
  shows "\<exists>s1. lu_meanwhile events s = Some (Inr s1) \<and> run_fine c n s1 \<and> (\<forall>r. sys_reader s1 \<noteq> R_Back r)"
  using assms
proof (induction events arbitrary: s)
  case Nil
  then show ?case using lu_settle_fine by simp
next
  case (Cons event events)
  let ?s = "lu_settle s"
  have f: "run_fine c n ?s" "\<forall>r. sys_reader ?s \<noteq> R_Back r" using lu_settle_fine [OF Cons.prems] by auto
  show ?case
  proof (cases "sys_thread ?s = T_End")
    case False
    then have "sys_thread ?s = T_Events \<or> sys_thread ?s = T_Cancel"
      using lu_settle_thread(1) [OF Cons.prems(1)] by (cases "sys_thread ?s") auto
    then show ?thesis using lu_dispatch_fine [OF f(1) _ f(2), of event] Cons.IH False by (auto simp: Let_def)
  qed (use f in \<open>auto simp: Let_def\<close>)
qed

lemma lu_settle_out: "sys_reader s = R_Out \<Longrightarrow> sys_reader (lu_settle s) = R_Out"
  by (simp add: lu_settle_def lu_leave_events_def lu_leave_cancel_def lu_broadcast_def wake_reader_def)

lemma lu_dispatch_out: "lu_dispatch event s = Some (Inr s1) \<Longrightarrow> sys_reader s = R_Out \<Longrightarrow> sys_reader s1 = R_Out"
  by (cases event) (auto simp: wake_reader_def split: if_splits option.splits sum.splits)

lemma lu_meanwhile_out: "lu_meanwhile events s = Some (Inr s1) \<Longrightarrow> sys_reader s = R_Out \<Longrightarrow> sys_reader s1 = R_Out"
proof (induction events arbitrary: s)
  case (Cons event events)
  then show ?case using lu_settle_out [of s] lu_dispatch_out [of event "lu_settle s"]
    by (auto simp: Let_def split: if_splits option.splits sum.splits)
qed (use lu_settle_out in auto)

lemma reader_check_fine:
  assumes "run_fine c n s"
  shows "run_fine c n (reader_check n s)"
proof -
  have inv: "lu_inv s" using assms by (simp add: run_fine_def)
  have q: "rq_inv (input_reports (sys_shared s))" using inv by (simp add: lu_inv_def lu_shared_ok_def)
  have "good_result n r" if r: "sys_reader (reader_check n s) = R_Back r" for r
  proof (cases "rq_view (input_reports (sys_shared s))")
    case Nil
    then show ?thesis using r rq_view_Nil [OF q] by (auto simp: reader_check_def Let_def split: if_splits)
  next
    case (Cons x xs)
    then show ?thesis using r rq_view_Nil [OF q] lu_queue.take_ok [OF q Cons, of n]
      by (auto simp: reader_check_def Let_def lu_take_def)
  qed
  then show ?thesis using reader_check_inv [OF inv] assms by (simp add: run_fine_def)
qed

lemma lu_run_fine:
  assumes "lu_run ue k n s w = Some y"
  shows "run_fine c n s \<Longrightarrow> good_result n (fst y) \<and> run_fine c n (fst (snd y)) \<and> sys_reader (fst (snd y)) = R_Out"
proof (induction rule: lu_run.raw_induct [OF _ assms, case_names step])
  case (step run ue k n s w y)
  note IH = step(1) and eq = step(2) and ok = step(3)
  show ?case
  proof (cases "sys_reader s")
    case (R_Back r)
    have "run_fine c n (s\<lparr>sys_reader := R_Out\<rparr>)"
      by (rule run_fine_step [OF lu_step.leave [OF R_Back] ok]) simp
    then show ?thesis using eq ok R_Back by (auto simp: run_fine_def)
  next
    case R_Out
    then show ?thesis using eq IH reader_check_fine [OF ok] by simp
  next
    case R_Woken
    then show ?thesis using eq IH reader_check_fine [OF ok] by simp
  next
    case R_Wait
    let ?s = "lu_settle s"
    have f: "run_fine c n ?s" "\<forall>r. sys_reader ?s \<noteq> R_Back r" using lu_settle_fine [OF ok] R_Wait by auto
    show ?thesis
    proof (cases "sys_reader ?s = R_Wait")
      case False
      then show ?thesis using eq IH R_Wait f(1) by simp
    next
      case True
      have "sys_thread ?s = T_Events \<or> sys_thread ?s = T_Cancel"
        using lu_settle_thread [OF ok] True by (cases "sys_thread ?s") auto
      moreover obtain event w1 where ev: "ue_next ue k w = Some (event, w1)"
        using eq R_Wait True by (cases "ue_next ue k w") auto
      ultimately obtain s1 where "lu_dispatch event ?s = Some (Inr s1)" "run_fine c n s1"
        using lu_dispatch_fine [OF f(1) _ f(2)] by blast
      then show ?thesis using eq IH R_Wait True ev by simp
    qed
  qed
qed

section \<open>The contract\<close>

text \<open>Between two calls nobody reads.\<close>

definition lu_good :: "lu_open_device \<Rightarrow> bool" where
  "lu_good d \<longleftrightarrow> run_fine (lu_submit (lo_dev d) = 0) 0 (lo_sys d) \<and> sys_reader (lo_sys d) = R_Out"

definition usb_alive :: "'w lu_library \<Rightarrow> nat \<Rightarrow> bool" where
  "usb_alive s h \<longleftrightarrow> (\<exists>d. lu_deref (Some h) s = Inr (h, d) \<and> lu_good d)"

lemma run_fine_at_rest: "sys_reader s = R_Out \<Longrightarrow> run_fine c n s \<longleftrightarrow> run_fine c m s"
  by (simp add: run_fine_def)

lemma usb_alive_heap: "ll_heap s' = ll_heap s \<Longrightarrow> usb_alive s' = usb_alive s"
  by (rule ext) (simp add: usb_alive_def lu_deref_def)

lemma usb_alive_put:
  assumes "lu_deref (Some h) s = Inr (h, d0)" "lu_good d" "usb_alive s h"
  shows "usb_alive (lu_put h (Some d) w s) = usb_alive s"
proof
  fix i
  show "usb_alive (lu_put h (Some d) w s) i = usb_alive s i"
    using assms by (cases "i = h") (auto simp: usb_alive_def lu_deref_def lu_put_def handle_at_Inr)
qed

lemma usb_alive_free:
  assumes "lu_deref (Some h) s = Inr (h, d)"
  shows "usb_alive (lu_put h None w s) = (usb_alive s)(h := False)"
proof
  fix i
  show "usb_alive (lu_put h None w s) i = ((usb_alive s)(h := False)) i"
    using assms by (cases "i = h") (auto simp: usb_alive_def lu_deref_def lu_put_def handle_at_Inr)
qed

lemma lu_start_good: "lu_good \<lparr>lo_dev = d, lo_sys = lu_start (lu_submit d)\<rparr>"
  by (simp add: lu_good_def run_fine_def lu_start_def lu_inv_def lu_shared_ok_def)

lemma usb_opened_alive:
  assumes "usb_opened r s = (rp, s')"
  shows "rp = Inr (Some h) \<Longrightarrow> usb_alive s' h \<and> \<not> usb_alive s h" "usb_alive s i \<Longrightarrow> usb_alive s' i"
proof -
  have fresh: "\<not> usb_alive s (length (ll_heap s))" by (simp add: usb_alive_def lu_deref_def handle_at_def)
  have new: "usb_alive (s\<lparr>ll_state := st, ll_heap := ll_heap s @ [Some \<lparr>lo_dev = d, lo_sys = lu_start (lu_submit d)\<rparr>]\<rparr>) i =
      (i = length (ll_heap s) \<or> usb_alive s i)" for st d i
    using lu_start_good by (auto simp: usb_alive_def lu_deref_def handle_at_Inr nth_append)
  obtain r0 st where r: "r = (r0, st)" by (cases r)
  consider (opened) d where "rp = Inr (Some (length (ll_heap s)))"
      "s' = s\<lparr>ll_state := st, ll_heap := ll_heap s @ [Some \<lparr>lo_dev = d, lo_sys = lu_start (lu_submit d)\<rparr>]\<rparr>"
    | (same) "\<forall>h. rp \<noteq> Inr (Some h)" "ll_heap s' = ll_heap s"
    using assms r by (auto simp: usb_opened_def split: sum.splits option.splits)
  then have "(\<forall>h. rp = Inr (Some h) \<longrightarrow> usb_alive s' h \<and> \<not> usb_alive s h) \<and> (\<forall>i. usb_alive s i \<longrightarrow> usb_alive s' i)"
  proof cases
    case opened
    then show ?thesis using fresh new by simp
  next
    case same
    then show ?thesis using usb_alive_heap [OF same(2)] by simp
  qed
  then show "rp = Inr (Some h) \<Longrightarrow> usb_alive s' h \<and> \<not> usb_alive s h" "usb_alive s i \<Longrightarrow> usb_alive s' i"
    by blast+
qed

lemma lu_read_now:
  assumes "run_fine c n m" "sys_reader m = R_Out" "\<not> lu_blocking dev"
  shows "\<exists>r q. lu_read dev n (sys_shared m) [] = Some (r, q) \<and> good_result n r \<and>
    run_fine c n (m\<lparr>sys_shared := (sys_shared m)\<lparr>input_reports := q\<rparr>\<rparr>)"
proof -
  let ?q = "input_reports (sys_shared m)"
  have ok: "rq_inv ?q" "length (rq_view ?q) \<le> 32" using assms(1) by (simp_all add: run_fine_def lu_inv_def lu_shared_ok_def)
  show ?thesis
  proof (cases "rq_view ?q")
    case Nil
    then show ?thesis using rq_view_Nil [OF ok(1)] assms by (simp add: lu_read_def lu_read_timeout_def)
  next
    case (Cons x xs)
    obtain q where "lu_return_data n ?q = Inr (take n x, q)" "rq_inv q" "rq_view q = xs"
      using lu_queue.take_ok [OF ok(1) Cons] by blast
    then show ?thesis using Cons rq_view_Nil [OF ok(1)] assms ok(2)
      by (auto simp: lu_read_def lu_read_timeout_def lu_take_def run_fine_def lu_inv_def lu_shared_ok_def)
  qed
qed

lemma usb_read_effect:
  assumes "usb_alive s h" "usb_read ue (Some h) n s = Some (r, s')"
  shows "good_result n r \<and> usb_alive s' = usb_alive s"
proof -
  obtain d where d: "lu_deref (Some h) s = Inr (h, d)" "lu_good d" using assms(1) by (auto simp: usb_alive_def)
  let ?k = "lu_handle (lo_dev d)" and ?c = "lu_submit (lo_dev d) = 0"
  have f: "run_fine ?c n (lo_sys d)" "sys_reader (lo_sys d) = R_Out"
    using d(2) run_fine_at_rest by (auto simp: lu_good_def)
  obtain events w where ev: "ue_since ue ?k (ll_world s) = (events, w)" by fastforce
  obtain m where m: "lu_meanwhile events (lo_sys d) = Some (Inr m)" "run_fine ?c n m" "\<forall>r. sys_reader m \<noteq> R_Back r"
    using lu_meanwhile_fine [OF f(1)] f(2) by force
  show ?thesis
  proof (cases "lu_blocking (lo_dev d)")
    case True
    then obtain m1 w1 where run: "lu_run ue ?k n m w = Some (r, m1, w1)" and s': "s' = lu_put h (Some (d\<lparr>lo_sys := m1\<rparr>)) w1 s"
      using assms(2) d(1) ev m(1) by (auto simp: usb_read_def)
    have "good_result n r" "lu_good (d\<lparr>lo_sys := m1\<rparr>)"
      using lu_run_fine [OF run m(2)] run_fine_at_rest by (auto simp: lu_good_def)
    then show ?thesis using s' usb_alive_put [OF d(1) _ assms(1)] by simp
  next
    case False
    obtain r1 q where rd: "lu_read (lo_dev d) n (sys_shared m) [] = Some (r1, q)" "good_result n r1"
      and fine: "run_fine ?c n (m\<lparr>sys_shared := (sys_shared m)\<lparr>input_reports := q\<rparr>\<rparr>)"
      using lu_read_now [OF m(2) lu_meanwhile_out [OF m(1) f(2)] False] by blast
    have "lu_good (d\<lparr>lo_sys := m\<lparr>sys_shared := (sys_shared m)\<lparr>input_reports := q\<rparr>\<rparr>\<rparr>)"
      using fine lu_meanwhile_out [OF m(1) f(2)] by (auto simp: lu_good_def run_fine_def split: if_splits)
    then show ?thesis using assms(2) d(1) ev m(1) rd False usb_alive_put [OF d(1) _ assms(1)]
      by (auto simp: usb_read_def)
  qed
qed

text \<open>The devices that can be closed: their one read thread submitted its first transfer.\<close>

definition usb_closable :: "'w lu_library \<Rightarrow> nat \<Rightarrow> bool" where
  "usb_closable s h \<longleftrightarrow>
     (\<exists>d. lu_deref (Some h) s = Inr (h, d) \<and> lu_submit (lo_dev d) = 0 \<and> lu_readers (lo_dev d) = 1)"

lemma usb_close_effect:
  assumes "usb_alive s h" "usb_close os (Some h) s = Some (r, s')"
  shows "if r = Inr () then usb_alive s' = (usb_alive s)(h := False) else \<exists>e. r = Inl e \<and> \<not> cpp_exception e"
proof -
  obtain d where d: "lu_deref (Some h) s = Inr (h, d)" "lu_good d" using assms(1) by (auto simp: usb_alive_def)
  have f: "rq_inv (input_reports (sys_shared (lo_sys d)))"
    using d(2) by (simp add: lu_good_def run_fine_def lu_inv_def lu_shared_ok_def)
  obtain q where "lu_drain (input_reports (sys_shared (lo_sys d))) = Some (Inr q)"
    using lu_queue.drain_empties [OF f] by blast
  then show ?thesis using d(1) assms(2) usb_alive_free [OF d(1)]
    by (auto simp: usb_close_def lu_close_def split: if_splits)
qed

text \<open>Otherwise it waits for ever, or frees a device another thread still uses.\<close>

lemma usb_close_fails:
  assumes "usb_alive s h" "lu_deref (Some h) s = Inr (h, d)"
  shows "lu_submit (lo_dev d) \<noteq> 0 \<Longrightarrow> usb_close os (Some h) s = None"
    and "lu_submit (lo_dev d) = 0 \<Longrightarrow> lu_readers (lo_dev d) \<noteq> 1 \<Longrightarrow>
      usb_close os (Some h) s = Some (Inl (UB Use_After_Free), s)"
  using assms by (auto simp: usb_alive_def lu_good_def run_fine_def usb_close_def)

lemma usb_close_returns:
  assumes "usb_alive s h" "usb_closable s h"
  shows "\<exists>s'. usb_close os (Some h) s = Some (Inr (), s')"
proof -
  obtain d where d: "lu_deref (Some h) s = Inr (h, d)" "lu_good d" using assms(1) by (auto simp: usb_alive_def)
  have s: "lu_submit (lo_dev d) = 0" "lu_readers (lo_dev d) = 1" using assms(2) d(1) by (auto simp: usb_closable_def)
  have f: "rq_inv (input_reports (sys_shared (lo_sys d)))" "sys_pending (lo_sys d) \<or> cancelled (sys_shared (lo_sys d))"
    using d(2) s(1) by (simp_all add: lu_good_def run_fine_def lu_inv_def lu_shared_ok_def)
  obtain q where "lu_drain (input_reports (sys_shared (lo_sys d))) = Some (Inr q)"
    using lu_queue.drain_empties [OF f(1)] by blast
  then show ?thesis using d(1) f(2) s(2) by (auto simp: usb_close_def lu_close_def)
qed

interpretation usb: hid_backend "usb_api os ue errno" usb_alive
  for os :: "'w libusb_os" and ue :: "'w usb_events" and errno
proof
  fix v p and s s' :: "'w lu_library" and ra
  assume "api_enumerate (usb_api os ue errno) v p s = (ra, s')"
  then show "usb_alive s' = usb_alive s"
    by (intro usb_alive_heap) (auto simp: usb_api_def split: prod.splits)
next
  fix v p sn and s s' :: "'w lu_library" and h
  assume "api_open (usb_api os ue errno) v p sn s = (Inr (Some h), s')"
  then show "usb_alive s' h \<and> \<not> usb_alive s h"
    by (auto simp: usb_api_def dest: usb_opened_alive(1))
next
  fix path and s s' :: "'w lu_library" and h
  assume "api_open_path (usb_api os ue errno) path s = (Inr (Some h), s')"
  then show "usb_alive s' h \<and> \<not> usb_alive s h"
    by (cases path) (auto simp: usb_api_def dest: usb_opened_alive(1))
next
  fix v p sn and s s' :: "'w lu_library" and r k
  assume "api_open (usb_api os ue errno) v p sn s = (r, s')" "usb_alive s k"
  then show "usb_alive s' k" by (auto simp: usb_api_def dest: usb_opened_alive(2))
next
  fix path and s s' :: "'w lu_library" and r k
  assume "api_open_path (usb_api os ue errno) path s = (r, s')" "usb_alive s k"
  then show "usb_alive s' k" by (cases path) (auto simp: usb_api_def dest: usb_opened_alive(2))
next
  fix s s' :: "'w lu_library" and h b ri
  assume a: "usb_alive s h" "api_set_nonblocking (usb_api os ue errno) (Some h) b s = (ri, s')"
  obtain d where d: "lu_deref (Some h) s = Inr (h, d)" "lu_good d" using a(1) by (auto simp: usb_alive_def)
  let ?d = "d\<lparr>lo_dev := (lo_dev d)\<lparr>lu_blocking := (b = 0)\<rparr>\<rparr>"
  have "lu_good ?d" using d(2) by (simp add: lu_good_def)
  then show "ri = Inr 0 \<and> usb_alive s' = usb_alive s"
    using a(2) d(1) usb_alive_put [OF d(1) _ a(1), of ?d "ll_world s"] by (simp add: usb_api_def lu_set_nonblocking_def)
next
  fix s s' :: "'w lu_library" and h n rr
  assume "usb_alive s h" "api_read (usb_api os ue errno) (Some h) n s = (rr, s')"
  then show "(rr = Inl Deadlock \<or>
        (\<exists>k bs. rr = Inr (k, bs) \<and> (k = - 1 \<and> bs = [] \<or> k = int (length bs)) \<and> length bs \<le> n))
       \<and> usb_alive s' = usb_alive s"
    using usb_read_effect [of s h ue n rr s']
    by (auto simp: usb_api_def or_never_def good_result_def split: option.splits)
next
  fix s s' :: "'w lu_library" and h data ri
  assume a: "usb_alive s h" "data \<noteq> []" "api_write (usb_api os ue errno) (Some h) data s = (ri, s')"
  obtain d where d: "lu_deref (Some h) s = Inr (h, d)" "lu_good d" using a(1) by (auto simp: usb_alive_def)
  obtain w where "s' = lu_put h (Some d) w s" "ri = fst (lu_write os (lo_dev d) data (ll_world s))"
    using a(3) d(1) by (auto simp: usb_api_def split: prod.splits)
  moreover have "\<exists>k. fst (lu_write os (lo_dev d) data w) = Inr k \<and> - 1 \<le> k" for w
    using a(2) by (auto simp: lu_write_def strip_report_id_def c_index_def split: prod.splits option.splits)
  ultimately show "(\<exists>k. ri = Inr k \<and> - 1 \<le> k) \<and> usb_alive s' = usb_alive s"
    using usb_alive_put [OF d a(1)] by simp
next
  fix s s' :: "'w lu_library" and h ru
  assume "usb_alive s h" "api_close (usb_api os ue errno) (Some h) s = (ru, s')"
  then show "if ru = Inr () then usb_alive s' = (usb_alive s)(h := False) else \<exists>e. ru = Inl e \<and> \<not> cpp_exception e"
    using usb_close_effect [of s h os ru s'] by (cases "usb_close os (Some h) s") (auto simp: usb_api_def or_never_def)
next
  fix s :: "'w lu_library" and h
  show "\<exists>e. api_error (usb_api os ue errno) (Some h) s = Inr e" by (simp add: usb_api_def)
qed

interpretation usbc: closing_backend "usb_api os ue errno" usb_alive usb_closable
  for os :: "'w libusb_os" and ue :: "'w usb_events" and errno
proof
  fix s :: "'w lu_library" and h
  assume "usb_alive s h" "usb_closable s h"
  then show "\<exists>s'. api_close (usb_api os ue errno) (Some h) s = (Inr (), s')"
    using usb_close_returns [of s h os] by (auto simp: usb_api_def or_never_def)
qed

end
