(* ===== verification/Stack_Libusb.thy ===== *)
theory Stack_Libusb
  imports Stack_Linux Queued_Port Libusb_Backend Libusb_Correct
begin

text \<open>
  The stack on libusb: the backend is a port, whose channel is the handle of the device with its
  endpoints and the queue its read thread fills. Transfers that time out come in between: the
  read thread submits them again and the reader goes on waiting.
\<close>

section \<open>The device as a channel\<close>

definition usb_put :: "'w libusb_os \<Rightarrow> lu_device \<Rightarrow> u8 list \<Rightarrow> 'w \<Rightarrow> 'w option" where
  "usb_put os d p w = (case lu_write os d p w of (Inr n, w1) \<Rightarrow> if 0 \<le> n then Some w1 else None | _ \<Rightarrow> None)"

text \<open>The reports among transfers that complete or time out, all submitted again with success.\<close>

fun completed :: "usb_event list \<Rightarrow> u8 list list option" where
  "completed [] = Some []"
| "completed (Transfer status f submit # events) =
     (if submit \<noteq> 0 then None
      else if status = TRANSFER_COMPLETED then map_option (Cons f) (completed events)
      else if status = TRANSFER_TIMED_OUT then completed events else None)"
| "completed (Fatal # events) = None"

text \<open>A device whose first submission failed delivers nothing.\<close>

definition usb_since :: "'w usb_events \<Rightarrow> lu_device \<Rightarrow> 'w \<Rightarrow> (u8 list list \<times> 'w) option" where
  "usb_since ue d w =
     (if lu_submit d \<noteq> 0 then None
      else case ue_since ue (lu_handle d) w of (events, w1) \<Rightarrow> map_option (\<lambda>fs. (fs, w1)) (completed events))"

text \<open>The first transfer that completes, after any number that time out.\<close>

partial_function (option) usb_await :: "'w usb_events \<Rightarrow> nat \<Rightarrow> 'w \<Rightarrow> (u8 list \<times> 'w) option" where
  "usb_await ue k w =
     (case ue_next ue k w of
        None \<Rightarrow> None
      | Some (event, w1) \<Rightarrow>
          (case event of
             Fatal \<Rightarrow> None
           | Transfer status f submit \<Rightarrow>
               if submit \<noteq> 0 then None
               else if status = TRANSFER_COMPLETED then Some (f, w1)
               else if status = TRANSFER_TIMED_OUT then usb_await ue k w1 else None))"

section \<open>The backend on it\<close>

text \<open>
  A read thread in its loop with a transfer pending, and nobody reading; a device is ready when it
  is good between two calls and its thread, if its first submission succeeded, is there.
\<close>

definition lu_idle :: "lu_system \<Rightarrow> bool" where
  "lu_idle s \<longleftrightarrow> run_fine True 0 s \<and> sys_reader s = R_Out \<and> sys_thread s = T_Events \<and> sys_pending s \<and>
     \<not> shutdown_thread (sys_shared s)"

definition usb_ready :: "'w lu_library \<Rightarrow> nat \<Rightarrow> nat \<times> lu_device \<Rightarrow> bool" where
  "usb_ready s h c \<longleftrightarrow>
     (\<exists>d. c = (h, lo_dev d) \<and> lu_deref (Some h) s = Inr (h, d) \<and> lu_blocking (lo_dev d) \<and>
       lu_good d \<and> (lu_submit (lo_dev d) = 0 \<longrightarrow> lu_idle (lo_sys d)))"

definition usb_queues :: "'w lu_library \<Rightarrow> 'w queued_world" where
  "usb_queues s =
     (\<lambda>h. case lu_deref (Some h) s of Inl _ \<Rightarrow> [] | Inr (_, d) \<Rightarrow> lu_queue_of (lo_sys d), ll_world s)"

lemma lu_deref_put:
  assumes "lu_deref (Some h) s = Inr (h, d0)"
  shows "lu_deref (Some i) (lu_put h (Some d) w s) = (if i = h then Inr (h, d) else lu_deref (Some i) s)"
  using assms by (auto simp: lu_deref_def lu_put_def handle_at_Inr) (auto simp: handle_at_def)

lemma usb_ready_put:
  assumes "lu_deref (Some h) s = Inr (h, d0)" "lu_blocking (lo_dev d)" "lu_good d"
    "lu_submit (lo_dev d) = 0 \<longrightarrow> lu_idle (lo_sys d)"
  shows "usb_ready (lu_put h (Some d) w s) h (h, lo_dev d)"
  using assms by (auto simp: usb_ready_def lu_deref_put)

lemma usb_queues_put:
  assumes "lu_deref (Some h) s = Inr (h, d0)"
  shows "usb_queues (lu_put h (Some d) w s) = ((fst (usb_queues s))(h := lu_queue_of (lo_sys d)), w)"
  using assms by (auto simp: usb_queues_def lu_deref_put) (simp add: ll_world_def lu_put_def)

lemma lu_start_idle: "lu_idle (lu_start 0)"
  using lu_start_good [of "lu_new_hid_device"] by (simp add: lu_idle_def lu_good_def lu_start_def lu_new_hid_device_def)

lemma usb_opened_ready:
  assumes "usb_opened r s = (Inr (Some h), s1)"
  shows "\<exists>c s2. api_set_nonblocking (usb_api os ue errno) (Some h) 0 s1 = (Inr 0, s2) \<and> usb_ready s2 h c"
proof -
  obtain d where d: "lu_deref (Some h) s1 = Inr (h, d)" "lo_sys d = lu_start (lu_submit (lo_dev d))"
    using assms by (auto simp: usb_opened_def lu_deref_def handle_at_def split: prod.splits sum.splits option.splits)
  let ?d = "d\<lparr>lo_dev := (lo_dev d)\<lparr>lu_blocking := True\<rparr>\<rparr>"
  have "lu_good ?d" using lu_start_good [of "lo_dev d"] d(2) by (simp add: lu_good_def)
  then have "usb_ready (lu_put h (Some ?d) (ll_world s1) s1) h (h, lo_dev ?d)"
    by (intro usb_ready_put [OF d(1)]) (simp_all add: d(2) lu_start_idle)
  then show ?thesis using d(1) by (auto simp: usb_api_def lu_set_nonblocking_def)
qed

lemma usb_write_ready:
  assumes "usb_ready s h c" "queued_put (usb_put os) c p (usb_queues s) = Some v"
  shows "\<exists>n s1. api_write (usb_api os ue errno) (Some h) p s = (Inr n, s1) \<and> usb_ready s1 h c \<and> usb_queues s1 = v"
proof -
  obtain d where d: "c = (h, lo_dev d)" "lu_deref (Some h) s = Inr (h, d)" "lu_blocking (lo_dev d)"
    "lu_good d" "lu_submit (lo_dev d) = 0 \<longrightarrow> lu_idle (lo_sys d)"
    using assms(1) by (auto simp: usb_ready_def)
  have q: "fst (usb_queues s) h = lu_queue_of (lo_sys d)" using d(2) by (simp add: usb_queues_def)
  obtain w1 where w1: "usb_put os (lo_dev d) p (ll_world s) = Some w1" "v = (fst (usb_queues s), w1)"
    using assms(2) by (auto simp: d(1) usb_queues_def)
  then obtain n where "lu_write os (lo_dev d) p (ll_world s) = (Inr n, w1)"
    by (auto simp: usb_put_def split: prod.splits sum.splits if_splits)
  then have "api_write (usb_api os ue errno) (Some h) p s = (Inr n, lu_put h (Some d) w1 s)"
    using d(2) by (simp add: usb_api_def)
  moreover have "usb_queues (lu_put h (Some d) w1 s) = v"
    using usb_queues_put [OF d(2)] w1(2) q by (simp add: fun_upd_idem)
  ultimately show ?thesis using usb_ready_put [OF d(2-5)] d(1) by auto
qed

text \<open>A transfer that completes puts its report into the queue; one that times out does nothing.\<close>

lemma lu_settle_loop:
  "sys_thread s = T_Events \<Longrightarrow> \<not> shutdown_thread (sys_shared s) \<Longrightarrow> lu_settle s = s"
  by (simp add: lu_settle_def lu_leave_events_def lu_leave_cancel_def lu_broadcast_def)

lemma lu_dispatch_completed:
  assumes "run_fine True n s" "sys_thread s = T_Events" "sys_pending s" "\<not> shutdown_thread (sys_shared s)"
    "\<forall>r. sys_reader s \<noteq> R_Back r" "status = TRANSFER_COMPLETED \<or> status = TRANSFER_TIMED_OUT"
  shows "\<exists>s1. lu_dispatch (Transfer status f 0) s = Some (Inr s1) \<and> run_fine True n s1 \<and> sys_thread s1 = T_Events \<and>
    sys_pending s1 \<and> \<not> shutdown_thread (sys_shared s1) \<and>
    lu_queue_of s1 = (if status = TRANSFER_COMPLETED then bounded_snoc (lu_queue_of s) f else lu_queue_of s) \<and>
    sys_reader s1 = wake_reader (status = TRANSFER_COMPLETED \<and> lu_queue_of s = []) (sys_reader s)"
proof -
  let ?q = "input_reports (sys_shared s)"
  have ok: "lu_shared_ok (sys_shared s)" using assms(1) by (simp add: run_fine_def lu_inv_def)
  obtain q where q: "lu_attach f ?q = Some (Inr (rq_view ?q = [], q))" "rq_view q = bounded_snoc (rq_view ?q) f"
    using lu_attach_ok [of ?q f] ok by (auto simp: lu_shared_ok_def)
  obtain s1 where s1: "lu_dispatch (Transfer status f 0) s = Some (Inr s1)" "run_fine True n s1"
    using lu_dispatch_fine [OF assms(1) _ assms(5)] assms(2) by blast
  show ?thesis
    using s1 assms(2-4,6) q by (auto simp: read_callback_def lu_queue_of_def Let_def)
qed

lemma lu_meanwhile_completed:
  assumes "completed events = Some fs" "lu_idle s"
  shows "\<exists>s1. lu_meanwhile events s = Some (Inr s1) \<and> lu_idle s1 \<and> lu_queue_of s1 = queue_up fs (lu_queue_of s)"
  using assms
proof (induction events arbitrary: s fs rule: completed.induct)
  case 1
  then show ?case using lu_settle_loop by (auto simp: lu_idle_def)
next
  case (2 status f submit events)
  have i: "run_fine True 0 s" "sys_thread s = T_Events" "sys_pending s" "\<not> shutdown_thread (sys_shared s)" "sys_reader s = R_Out"
    using "2.prems"(2) by (simp_all add: lu_idle_def)
  have st: "submit = 0" "status = TRANSFER_COMPLETED \<or> status = TRANSFER_TIMED_OUT"
    using "2.prems"(1) by (auto split: if_splits)
  obtain s1 where s1: "lu_dispatch (Transfer status f 0) s = Some (Inr s1)" "lu_idle s1"
    "lu_queue_of s1 = (if status = TRANSFER_COMPLETED then bounded_snoc (lu_queue_of s) f else lu_queue_of s)"
    using lu_dispatch_completed [OF i(1-4) _ st(2), of f] i(5) by (auto simp: lu_idle_def wake_reader_def)
  have run: "lu_meanwhile (Transfer status f submit # events) s = lu_meanwhile events s1"
    using s1(1) st(1) lu_settle_loop [OF i(2,4)] i(2) by simp
  show ?case
  proof (cases "status = TRANSFER_COMPLETED")
    case True
    then obtain gs where "completed events = Some gs" "fs = f # gs" using "2.prems"(1) st(1) by auto
    then show ?thesis using "2.IH"(1) [OF _ True _ s1(2)] st(1) s1(3) True unfolding run by simp
  next
    case False
    then have "completed events = Some fs" using "2.prems"(1) st by simp
    then show ?thesis using "2.IH"(2) [OF _ False _ _ s1(2)] st False s1(3) unfolding run by simp
  qed
qed simp

lemma lu_check_queued:
  assumes "run_fine True n s" "lu_queue_of s = f # q" "sys_thread s = T_Events" "sys_pending s" "\<not> shutdown_thread (sys_shared s)"
  shows "\<exists>s1. reader_check n s = s1\<lparr>sys_reader := R_Back (Inr (int (length (take n f)), take n f))\<rparr> \<and>
    lu_idle s1 \<and> lu_queue_of s1 = q"
proof -
  let ?q = "input_reports (sys_shared s)"
  have ok: "rq_inv ?q" "length (rq_view ?q) \<le> 32" using assms(1) by (simp_all add: run_fine_def lu_inv_def lu_shared_ok_def)
  have v: "rq_view ?q = f # q" using assms(2) by (simp add: lu_queue_of_def)
  obtain q1 where q1: "lu_return_data n ?q = Inr (take n f, q1)" "rq_inv q1" "rq_view q1 = q"
    using lu_queue.take_ok [OF ok(1) v] by blast
  let ?s1 = "s\<lparr>sys_shared := (sys_shared s)\<lparr>input_reports := q1\<rparr>, sys_reader := R_Out\<rparr>"
  have "lu_idle ?s1" using assms(1,3-5) q1 ok v
    by (auto simp: lu_idle_def run_fine_def lu_inv_def lu_shared_ok_def)
  moreover have "reader_check n s = ?s1\<lparr>sys_reader := R_Back (Inr (int (length (take n f)), take n f))\<rparr>"
    using q1(1) v rq_view_Nil [OF ok(1)] by (simp add: reader_check_def Let_def lu_take_def)
  moreover have "lu_queue_of ?s1 = q" using q1(3) by (simp add: lu_queue_of_def)
  ultimately show ?thesis by blast
qed

lemma lu_run_queued:
  assumes "run_fine True n s" "lu_queue_of s = f # q" "sys_thread s = T_Events" "sys_pending s"
    "\<not> shutdown_thread (sys_shared s)" "sys_reader s = R_Out \<or> sys_reader s = R_Woken"
  shows "\<exists>s1. lu_run ue k n s w = Some (Inr (int (length (take n f)), take n f), s1, w) \<and> lu_idle s1 \<and> lu_queue_of s1 = q"
proof -
  obtain s1 where s1: "reader_check n s = s1\<lparr>sys_reader := R_Back (Inr (int (length (take n f)), take n f))\<rparr>"
    "lu_idle s1" "lu_queue_of s1 = q" using lu_check_queued [OF assms(1-5)] by blast
  have "s1\<lparr>sys_reader := R_Out\<rparr> = s1" using s1(2) by (simp add: lu_idle_def)
  then show ?thesis using s1 assms(6) by (subst lu_run.simps) auto
qed

text \<open>Asleep on an empty queue, through all the transfers that time out, to the report.\<close>

lemma lu_run_asleep:
  assumes "usb_await ue k w = Some y"
  shows "run_fine True n s \<Longrightarrow> lu_queue_of s = [] \<Longrightarrow> sys_thread s = T_Events \<Longrightarrow> sys_pending s \<Longrightarrow>
    \<not> shutdown_thread (sys_shared s) \<Longrightarrow> sys_reader s = R_Wait \<Longrightarrow>
    \<exists>s1. lu_run ue k n s w = Some (Inr (int (length (take n (fst y))), take n (fst y)), s1, snd y) \<and> lu_idle s1 \<and>
      lu_queue_of s1 = []"
proof (induction arbitrary: s rule: usb_await.raw_induct [OF _ assms, case_names step])
  case (step await ue k w y)
  note IH = step(1) and eq = step(2) and s = step(3-8)
  obtain status f w1 where ev: "ue_next ue k w = Some (Transfer status f 0, w1)"
    "status = TRANSFER_COMPLETED \<and> y = (f, w1) \<or> status = TRANSFER_TIMED_OUT \<and> await ue k w1 = Some y"
    using eq by (auto split: option.splits usb_event.splits if_splits)
  obtain s1 where s1: "lu_dispatch (Transfer status f 0) s = Some (Inr s1)" "run_fine True n s1" "sys_thread s1 = T_Events"
    "sys_pending s1" "\<not> shutdown_thread (sys_shared s1)"
    "lu_queue_of s1 = (if status = TRANSFER_COMPLETED then [f] else [])"
    "sys_reader s1 = (if status = TRANSFER_COMPLETED then R_Woken else R_Wait)"
    using lu_dispatch_completed [OF s(1,3,4,5), of status f] s(2,6) ev(2)
    by (auto simp: wake_reader_def bounded_snoc_def split: if_splits)
  have run: "lu_run ue k n s w = lu_run ue k n s1 w1"
    using s(6) s1(1) ev(1) by (subst lu_run.simps) (simp add: lu_settle_loop [OF s(3,5)])
  show ?case
  proof (cases "status = TRANSFER_COMPLETED")
    case True
    then show ?thesis using run lu_run_queued [OF s1(2), of f "[]" ue k w1] s1 ev(2) by auto
  next
    case False
    then show ?thesis using run IH [of ue k w1 y s1] s1 ev(2) by auto
  qed
qed

lemma lu_run_awaited:
  assumes "lu_idle s" "lu_queue_of s = []" "usb_await ue k w = Some (f, w1)"
  shows "\<exists>s1. lu_run ue k n s w = Some (Inr (int (length (take n f)), take n f), s1, w1) \<and> lu_idle s1 \<and> lu_queue_of s1 = []"
proof -
  have i: "run_fine True n s" "sys_thread s = T_Events" "sys_pending s" "\<not> shutdown_thread (sys_shared s)" "sys_reader s = R_Out"
    using assms(1) run_fine_at_rest by (auto simp: lu_idle_def)
  have "rq_root (input_reports (sys_shared s)) = None"
    using assms(2) i(1) rq_view_Nil by (auto simp: lu_queue_of_def run_fine_def lu_inv_def lu_shared_ok_def)
  then have c: "reader_check n s = s\<lparr>sys_reader := R_Wait\<rparr>" using i(4) by (simp add: reader_check_def Let_def)
  then have run: "lu_run ue k n s w = lu_run ue k n (s\<lparr>sys_reader := R_Wait\<rparr>) w"
    using i(5) by (subst lu_run.simps) simp
  have "run_fine True n (s\<lparr>sys_reader := R_Wait\<rparr>)" using reader_check_fine [OF i(1)] c by simp
  from lu_run_asleep [OF assms(3) this] show ?thesis using run i assms(2) by (simp add: lu_queue_of_def)
qed

lemma usb_read_ready:
  assumes "usb_ready s h c" "queued_get (usb_since ue) (\<lambda>d. usb_await ue (lu_handle d)) c (usb_queues s) = Some (f, v)"
    "length f = n"
  shows "\<exists>s1. usb_read ue (Some h) n s = Some (Inr (int n, f), s1) \<and> usb_ready s1 h c \<and> usb_queues s1 = v"
proof -
  obtain d where d: "c = (h, lo_dev d)" "lu_deref (Some h) s = Inr (h, d)" "lu_blocking (lo_dev d)"
    and i: "lu_submit (lo_dev d) = 0 \<longrightarrow> lu_idle (lo_sys d)"
    using assms(1) by (auto simp: usb_ready_def)
  have sub: "lu_submit (lo_dev d) = 0"
    using assms(2) by (auto simp: usb_queues_def d(1) usb_since_def split: if_splits)
  then have d4: "lu_idle (lo_sys d)" using i by blast
  let ?k = "lu_handle (lo_dev d)"
  obtain events w0 where ev: "ue_since ue ?k (ll_world s) = (events, w0)" by fastforce
  have qs: "usb_queues s = (fst (usb_queues s), ll_world s)" "fst (usb_queues s) h = lu_queue_of (lo_sys d)"
    using d(2) by (simp_all add: usb_queues_def)
  obtain fs where fs: "completed events = Some fs"
    using assms(2) ev sub by (auto simp: usb_queues_def d(1) usb_since_def split: option.splits)
  obtain m where m: "lu_meanwhile events (lo_sys d) = Some (Inr m)" "lu_idle m"
    "lu_queue_of m = queue_up fs (lu_queue_of (lo_sys d))"
    using lu_meanwhile_completed [OF fs d4] by blast
  have fine: "run_fine True n m" "sys_thread m = T_Events" "sys_pending m" "\<not> shutdown_thread (sys_shared m)" "sys_reader m = R_Out"
    using m(2) run_fine_at_rest by (auto simp: lu_idle_def)
  have g: "queued_get (usb_since ue) (\<lambda>d. usb_await ue (lu_handle d)) (h, lo_dev d) (fst (usb_queues s), ll_world s) =
      Some (f, v)" using assms(2) qs(1) d(1) by simp
  have since: "usb_since ue (lo_dev d) (ll_world s) = Some (gs, w1) \<Longrightarrow> gs = fs \<and> w1 = w0" for gs w1
    by (simp add: usb_since_def ev fs sub)
  have "\<exists>m1 w2. lu_run ue ?k n m w0 = Some (Inr (int n, f), m1, w2) \<and> lu_idle m1 \<and>
      v = ((fst (usb_queues s))(h := lu_queue_of m1), w2)"
    using g
  proof (cases rule: queued_getE)
    case (queued gs q w1)
    then have "lu_queue_of m = f # q" "w1 = w0" using since m(3) qs(2) by auto
    then show ?thesis
      using lu_run_queued [OF fine(1) _ fine(2-4), of f q ue ?k w0] fine(5) assms(3) queued(3) by auto
  next
    case (awaited gs w1 w2)
    then have "lu_queue_of m = []" "usb_await ue ?k w0 = Some (f, w2)" using since m(3) qs(2) by auto
    then show ?thesis using lu_run_awaited [OF m(2), of ue ?k w0 f w2 n] assms(3) awaited(4) by auto
  qed
  then obtain m1 w2 where r: "lu_run ue ?k n m w0 = Some (Inr (int n, f), m1, w2)" "lu_idle m1"
    and v: "v = ((fst (usb_queues s))(h := lu_queue_of m1), w2)" by blast
  have "usb_read ue (Some h) n s = Some (Inr (int n, f), lu_put h (Some (d\<lparr>lo_sys := m1\<rparr>)) w2 s)"
    using d m(1) r(1) ev by (simp add: usb_read_def)
  moreover have "lu_good (d\<lparr>lo_sys := m1\<rparr>)" using r(2) sub by (simp add: lu_good_def lu_idle_def)
  ultimately show ?thesis
    using usb_ready_put [OF d(2), of "d\<lparr>lo_sys := m1\<rparr>" w2] usb_queues_put [OF d(2), of "d\<lparr>lo_sys := m1\<rparr>" w2] v r(2) d(1,3)
    by auto
qed

interpretation usbp: packet_port "usb_api os ue errno" usb_alive posix_build usb_ready usb_queues
    "queued_put (usb_put os)" "queued_get (usb_since ue) (\<lambda>d. usb_await ue (lu_handle d))"
  for os :: "'w libusb_os" and ue :: "'w usb_events" and errno
proof unfold_locales
  fix s :: "'w lu_library" and h c
  assume "usb_ready s h c"
  then show "usb_alive s h" by (auto simp: usb_ready_def usb_alive_def)
next
  fix v pid sn h and s s1 :: "'w lu_library"
  assume "api_open (usb_api os ue errno) v pid sn s = (Inr (Some h), s1)"
  then have "usb_opened (lu_open os v pid sn (ll_state s)) s = (Inr (Some h), s1)" by (simp add: usb_api_def)
  from usb_opened_ready [OF this]
  show "\<exists>c s2. api_set_nonblocking (usb_api os ue errno) (Some h) 0 s1 = (Inr 0, s2) \<and> usb_ready s2 h c" .
next
  fix path h and s s1 :: "'w lu_library"
  assume "api_open_path (usb_api os ue errno) path s = (Inr (Some h), s1)"
  then obtain p where "usb_opened (lu_open_path os p (ll_state s)) s = (Inr (Some h), s1)"
    by (cases path) (auto simp: usb_api_def)
  from usb_opened_ready [OF this]
  show "\<exists>c s2. api_set_nonblocking (usb_api os ue errno) (Some h) 0 s1 = (Inr 0, s2) \<and> usb_ready s2 h c" .
next
  fix s :: "'w lu_library" and h c p v
  assume "usb_ready s h c" "queued_put (usb_put os) c p (usb_queues s) = Some v"
  from usb_write_ready [OF this]
  show "\<exists>n s1. api_write (usb_api os ue errno) (Some h) (if b_win32 posix_build then 0 # p else p) s = (Inr n, s1) \<and>
      usb_ready s1 h c \<and> usb_queues s1 = v"
    by (simp add: posix_build_def)
next
  fix s :: "'w lu_library" and h c f v
  assume a: "usb_ready s h c" "length f = 64"
    "queued_get (usb_since ue) (\<lambda>d. usb_await ue (lu_handle d)) c (usb_queues s) = Some (f, v)"
  from usb_read_ready [OF a(1,3,2)] obtain s1 where
    "usb_read ue (Some h) 64 s = Some (Inr (64, f), s1)" "usb_ready s1 h c" "usb_queues s1 = v" by auto
  then show "\<exists>bs s1. api_read (usb_api os ue errno) (Some h) (if b_msc posix_build then 65 else 64) s =
        (Inr (int (length bs), bs), s1) \<and> (if b_msc posix_build then bs \<noteq> [] \<and> tl bs = f else bs = f) \<and>
      usb_ready s1 h c \<and> usb_queues s1 = v \<and> api_error (usb_api os ue errno) (Some h) s1 = Inr None"
    using a(2) by (intro exI [of _ f] exI [of _ s1]) (simp add: usb_api_def or_never_def posix_build_def lu_error_def)
qed

section \<open>Property\<close>

text \<open>
  C15. From \<^verbatim>\<open>init\<close> to the results over libusb: after a successful \<^verbatim>\<open>init\<close> the wallet holds an open
  device in blocking mode with its read thread in its loop, a transfer pending unless the first
  submission failed, in which case nothing arrives; and every sequence of address and
  signature commands whose packets the device takes, and answers with interrupt transfers, gives for
  every command the data or the status of its own answer. The transfers may complete while the
  caller waits or before it reads, with any number of time-outs in between; the reports queued
  come first, and no read waits for ever.
\<close>

theorem libusb_session:
  assumes "env_api env = usb_api os ue errno" and "env_build env = posix_build" and "tb_laws (env_tb env)"
    and "wallet_init env pid (nanos_wallet_new (env_tb env)) s = (Inr True, w1, s1)"
  shows "\<exists>h c. m_dev (m_io (m_framer w1)) = Some h \<and> usb_ready s1 h c \<and>
    (\<forall>script v. dialogues (queued_put (usb_put os) c)
         (queued_get (usb_since ue) (\<lambda>d. usb_await ue (lu_handle d)) c) script (usb_queues s1) = Some v \<longrightarrow>
       (\<exists>w' s'. perform_all env (map fst script) w1 s1 = Some (map (\<lambda>(q, x). reply_to q x) script, w', s') \<and>
          wallet_ready w' \<and> usb_ready s' h c \<and> usb_queues s' = v))"
proof -
  have "usbp.runs_on os ue errno env" using assms(1-3) by (simp add: usbp.runs_on_def)
  from usbp.init_session [OF assms(4) this] show ?thesis .
qed

text \<open>
  A bus with a wallet on it, for the example: before every read a transfer has timed out, and then
  the answer comes.
\<close>

definition nano_usb :: "unit libusb_os" where
  "nano_usb = demo_usb
     \<lparr>us_descriptor := (\<lambda>w d. \<lparr>idVendor = LEDGER_VID, idProduct = NANOS_PID, bcdDevice = 0, iManufacturer = 0,
        iProduct = 0, iSerialNumber = 0\<rparr>),
      us_active_config := (\<lambda>w d. Some [[\<lparr>bInterfaceNumber = 0, bInterfaceClass = 3, endpoints =
        [\<lparr>bEndpointAddress = 0x81, bmAttributes = 3, wMaxPacketSize = 64\<rparr>,
         \<lparr>bEndpointAddress = 0x02, bmAttributes = 3, wMaxPacketSize = 64\<rparr>]\<rparr>]]),
      us_interrupt_out := (\<lambda>h e bs w. (Some (length bs), w))\<rparr>"

definition nano_events :: "unit usb_events" where
  "nano_events = \<lparr>ue_since = (\<lambda>k w. ([Transfer TRANSFER_TIMED_OUT [] 0], w)),
     ue_next = (\<lambda>k w. Some (Transfer TRANSFER_COMPLETED demo_answer 0, w))\<rparr>"

definition nano_usb_state :: "lu_open_device option list \<Rightarrow> unit lu_library" where
  "nano_usb_state heap = \<lparr>ll_state = \<lparr>lu_world = (), usb_context = True\<rparr>, ll_heap = heap\<rparr>"

definition nano_usb_device :: lu_open_device where
  "nano_usb_device = \<lparr>lo_dev = lu_new_hid_device\<lparr>input_endpoint := 0x81, output_endpoint := 2,
     input_ep_max_packet_size := 64, lu_readers := 1, lu_submit := 0\<rparr>, lo_sys = lu_start 0\<rparr>"

definition nano_usb_env :: "unit lu_library env" where
  "nano_usb_env = \<lparr>env_build = posix_build, env_tb = tb_vec, env_api = usb_api nano_usb nano_events (\<lambda>w. 0),
     env_lib = \<lparr>narrow = (\<lambda>_. None), tl_strerror = (\<lambda>_. [])\<rparr>, env_sleep = (\<lambda>_ s. s)\<rparr>"

lemma nano_usb_env_sel [simp]:
  "env_api nano_usb_env = usb_api nano_usb nano_events (\<lambda>w. 0)" "env_tb nano_usb_env = tb_vec"
  by (simp_all add: nano_usb_env_def)

definition nano_usb_record :: dev_info where
  "nano_usb_record = calloc_dev_info\<lparr>di_path := Some (make_path nano_usb () 0 0), di_vendor_id := LEDGER_VID,
     di_product_id := NANOS_PID\<rparr>"

lemma nano_usb_sel:
  "us_descriptor nano_usb w d = \<lparr>idVendor = LEDGER_VID, idProduct = NANOS_PID, bcdDevice = 0, iManufacturer = 0,
     iProduct = 0, iSerialNumber = 0\<rparr>"
  "us_active_config nano_usb w d = Some [[\<lparr>bInterfaceNumber = 0, bInterfaceClass = 3, endpoints =
     [\<lparr>bEndpointAddress = 0x81, bmAttributes = 3, wMaxPacketSize = 64\<rparr>,
      \<lparr>bEndpointAddress = 0x02, bmAttributes = 3, wMaxPacketSize = 64\<rparr>]\<rparr>]]"
  "us_interrupt_out nano_usb h e bs w = (Some (length bs), w)" "us_device_list nano_usb w = Some [0]"
  "us_open nano_usb d w = (Some 0, w)" "us_driver_active nano_usb h n w = (0, w)" "us_claim nano_usb h n w = (0, w)"
  "us_start_reading nano_usb h e len w = (0, w)"
  by (simp_all add: nano_usb_def demo_usb_def)

lemma nano_usb_enumerate:
  "lu_enumerate nano_usb v p (ll_state (nano_usb_state heap)) =
    (Inr (if id_matches v p LEDGER_VID NANOS_PID then [nano_usb_record] else []), ll_state (nano_usb_state heap))"
proof -
  have "lu_record nano_usb 0 (us_descriptor nano_usb () 0) 0 () = (Inr nano_usb_record, ())"
    by (simp add: lu_record_def nano_usb_record_def lu_opt_string_def nano_usb_sel calloc_dev_info_def)
  then show ?thesis
    by (simp add: lu_enumerate_def lu_hid_init_def nano_usb_state_def nano_usb_sel LIBUSB_CLASS_HID_def)
qed

lemma nano_usb_open:
  "lu_open nano_usb LEDGER_VID NANOS_PID None (ll_state (nano_usb_state heap)) =
    (Inr (Some (lo_dev nano_usb_device)), ll_state (nano_usb_state heap))"
proof -
  have "lu_open_path nano_usb (make_path nano_usb () 0 0) (ll_state (nano_usb_state heap)) =
      (Inr (Some (lo_dev nano_usb_device)), ll_state (nano_usb_state heap))"
    by (simp add: lu_open_path_def lu_hid_init_def nano_usb_state_def nano_usb_sel LIBUSB_CLASS_HID_def pick_endpoint_def
        nano_usb_device_def lu_new_hid_device_def Let_def)
  then show ?thesis
    by (simp add: lu_open_def nano_usb_enumerate id_matches_def nano_usb_record_def)
qed

lemma nano_usb_init:
  "\<exists>w1. wallet_init nano_usb_env NANOS_PID (nanos_wallet_new tb_vec) (nano_usb_state []) =
    (Inr True, w1, nano_usb_state [Some nano_usb_device]) \<and> m_dev (m_io (m_framer w1)) = Some 0"
proof -
  have r: "di_vendor_id nano_usb_record = LEDGER_VID" by (simp add: nano_usb_record_def)
  have e: "wenumerate nano_usb_env LEDGER_VID NANOS_PID_ROOT w (nano_usb_state heap) = (Inr [], w, nano_usb_state heap)"
    "wenumerate nano_usb_env LEDGER_VID NANOS_PID w (nano_usb_state heap) = (Inr [nano_usb_record], w, nano_usb_state heap)"
    for w heap
    by (simp_all add: wenumerate_def enumerate_devices_def usb_api_def nano_usb_enumerate
        id_matches_def LEDGER_VID_def NANOS_PID_def NANOS_PID_ROOT_def)
  have "(lo_dev nano_usb_device)\<lparr>lu_blocking := True\<rparr> = lo_dev nano_usb_device"
    by (simp add: nano_usb_device_def lu_new_hid_device_def)
  then have n: "api_set_nonblocking (usb_api nano_usb nano_events (\<lambda>w. 0)) (Some 0) 0 (nano_usb_state [Some nano_usb_device]) =
      (Inr 0, nano_usb_state [Some nano_usb_device])"
    by (simp add: usb_api_def lu_set_nonblocking_def lu_deref_def handle_at_def nano_usb_state_def lu_put_def)
  have "api_open (usb_api nano_usb nano_events (\<lambda>w. 0)) LEDGER_VID NANOS_PID None (nano_usb_state []) =
      (Inr (Some 0), nano_usb_state [Some nano_usb_device])"
    by (simp add: usb_api_def nano_usb_open usb_opened_def) (simp add: nano_usb_state_def nano_usb_device_def)
  then have o: "hidpp_open (usb_api nano_usb nano_events (\<lambda>w. 0)) (hidpp_device_ids LEDGER_VID NANOS_PID) (nano_usb_state []) =
    (Inr True, (hidpp_device_ids LEDGER_VID NANOS_PID)\<lparr>m_dev := Some 0\<rparr>, nano_usb_state [Some nano_usb_device])"
    using n by (simp add: hidpp_open_def lock_guard_def hidpp_device_ids_def LEDGER_VID_def NANOS_PID_def)
  have d: "hidpp_assign (m_io (m_framer (nanos_wallet_new tb_vec))) (hidpp_copy (hidpp_device_ids LEDGER_VID NANOS_PID)) =
      hidpp_device_ids LEDGER_VID NANOS_PID" "m_devLock (nanos_wallet_new tb_vec) = False"
    by (simp_all add: nanos_wallet_new_def hidpp_assign_def hidpp_copy_def hidpp_device_ids_def frame_io_apdu_new_def)
  show ?thesis
    using o d r
    by (simp add: wallet_init_def wlock_def wbind_def e assign_framer_def open_framer_def wio_def
        io_valid_def hidpp_valid_def frame_io_apdu_new_def Let_def)
qed

lemma nano_usb_dialogue:
  assumes "qs h = []" "output_endpoint d \<noteq> 0" "lu_submit d = 0"
  shows "dialogue (queued_put (usb_put nano_usb) (h, d))
    (queued_get (usb_since nano_events) (\<lambda>d. usb_await nano_events (lu_handle d)) (h, d))
    a (0, replicate 20 7, 0x9000) (qs, w) = Some (qs, w)"
proof -
  have "usb_put nano_usb d p w = Some w" if "p \<noteq> []" for p
    using that assms(2) by (cases p) (auto simp: usb_put_def lu_write_def strip_report_id_def c_index_def nano_usb_sel)
  then have put: "put_all (usb_put nano_usb d) (wire_packets 0 (message (apdu_bytes a))) w = Some w"
    using wire_packets_not_Nil by (intro put_all_const) blast
  have "usb_await nano_events k w = Some (demo_answer, w)" for k
    by (subst usb_await.simps) (simp add: nano_events_def)
  then have "get_all (queued_get (usb_since nano_events) (\<lambda>d. usb_await nano_events (lu_handle d)) (h, d)) [demo_answer] (qs, w) =
      Some (qs, w)" using assms(1,3) by (auto simp: usb_since_def nano_events_def)
  then show ?thesis unfolding dialogue.simps demo_answer_packets queued_put_all
    using put by (simp del: get_all.simps)
qed

theorem libusb_session_witness:
  "\<exists>w1 s1 w' s'. wallet_init nano_usb_env NANOS_PID (nanos_wallet_new tb_vec) (nano_usb_state []) = (Inr True, w1, s1) \<and>
     perform_all nano_usb_env [Get_Address 0 False, Get_Address 5 True] w1 s1 =
       Some ([Inr (Address (replicate 20 7)), Inr (Address (replicate 20 7))], w', s')"
proof -
  let ?s1 = "nano_usb_state [Some nano_usb_device]"
  let ?x = "(0, replicate 20 7, 0x9000) :: answer"
  let ?script = "[(Get_Address 0 False, ?x), (Get_Address 5 True, ?x)]"
  obtain w1 where i: "wallet_init nano_usb_env NANOS_PID (nanos_wallet_new (env_tb nano_usb_env)) (nano_usb_state []) =
      (Inr True, w1, ?s1)" using nano_usb_init by auto
  have b: "env_build nano_usb_env = posix_build" "tb_laws (env_tb nano_usb_env)"
    by (simp_all add: nano_usb_env_def tb_vec_laws)
  obtain h c where c: "usb_ready ?s1 h c" and run: "\<And>v. dialogues (queued_put (usb_put nano_usb) c)
      (queued_get (usb_since nano_events) (\<lambda>d. usb_await nano_events (lu_handle d)) c) ?script (usb_queues ?s1) = Some v \<Longrightarrow>
      \<exists>w' s'. perform_all nano_usb_env (map fst ?script) w1 ?s1 = Some (map (\<lambda>(q, x). reply_to q x) ?script, w', s')"
    using libusb_session [OF nano_usb_env_sel(1) b i] by blast
  have "c = (0, lo_dev nano_usb_device)" "output_endpoint (lo_dev nano_usb_device) \<noteq> 0"
    "lu_submit (lo_dev nano_usb_device) = 0"
    using c by (auto simp: usb_ready_def lu_deref_def handle_at_def nano_usb_state_def nano_usb_device_def split: if_splits)
  moreover obtain qs where "usb_queues ?s1 = (qs, ())" "qs 0 = []"
    by (simp add: usb_queues_def lu_deref_def handle_at_def nano_usb_state_def nano_usb_device_def lu_queue_of_def lu_start_def)
  ultimately obtain w' s' where
    "perform_all nano_usb_env (map fst ?script) w1 ?s1 = Some (map (\<lambda>(q, x). reply_to q x) ?script, w', s')"
    using run by (auto simp: nano_usb_dialogue simp del: dialogue.simps)
  then show ?thesis using i by auto
qed

end
