(* ===== verification/Stack_Close.thy ===== *)
theory Stack_Close
  imports Stack_Linux Stack_Windows Stack_Mac Stack_Libusb
begin

text \<open>
  What the contracts \<open>hid_backend\<close> and \<open>closing_backend\<close> give a wallet, on the four backends: in
  which state any sequence of operations leaves it, and when it can be closed.
\<close>

text \<open>
  Between two calls: the mutexes of the wallet are free, its buffer has the 64 bytes of a packet,
  and its handle, if it has one, is alive.
\<close>

definition wallet_rests :: "('s \<Rightarrow> nat \<Rightarrow> bool) \<Rightarrow> nanos_wallet \<Rightarrow> 's \<Rightarrow> bool" where
  "wallet_rests alive w s \<longleftrightarrow>
     \<not> m_devLock w \<and> \<not> m_dev_lock (m_io (m_framer w)) \<and> length (m_buffer (m_framer w)) = 64 \<and>
     (\<forall>h. m_dev (m_io (m_framer w)) = Some h \<longrightarrow> alive s h)"

text \<open>And \<^verbatim>\<open>close()\<close> returns and frees exactly that handle.\<close>

definition closes_well :: "('s \<Rightarrow> nat \<Rightarrow> bool) \<Rightarrow> 's env \<Rightarrow> nanos_wallet \<Rightarrow> 's \<Rightarrow> bool" where
  "closes_well alive env w s \<longleftrightarrow> wallet_rests alive w s \<and>
     (\<exists>w1 s1. wallet_close env w s = (Inr (), w1, s1) \<and> \<not> m_valid w1 \<and> \<not> io_valid w1 \<and>
        alive s1 = (case m_dev (m_io (m_framer w)) of None \<Rightarrow> alive s | Some h \<Rightarrow> (alive s)(h := False)))"

context hid_backend
begin

lemma reach_rests: "wallet_reach env s0 w s \<Longrightarrow> serves api alive env \<Longrightarrow> wallet_rests alive w s"
  using wallet_reach_ok [of env s0 w s]
  by (simp add: wallet_rests_def wallet_ok_def framer_ok_def dev_ok_def)

end

context closing_backend
begin

lemma reach_closes_well:
  assumes "wallet_reach env s0 w s" "serves api alive env"
    and "\<forall>h. m_dev (m_io (m_framer w)) = Some h \<longrightarrow> closable s h"
  shows "closes_well alive env w s"
  using reach_rests [OF assms(1,2)] wallet_reach_close [OF assms] by (simp add: closes_well_def)

end

lemmas lx_closes_well = lxc.reach_closes_well [simplified]
lemmas wn_closes_well = wnc.reach_closes_well [simplified]

text \<open>How closing ends over libusb: it depends on the first submission and on the number of threads.\<close>

definition usb_closing :: "'w lu_library env \<Rightarrow> nanos_wallet \<Rightarrow> 'w lu_library \<Rightarrow> bool" where
  "usb_closing env w s \<longleftrightarrow>
     (case m_dev (m_io (m_framer w)) of
        None \<Rightarrow> closes_well usb_alive env w s
      | Some h \<Rightarrow>
          (\<exists>d. lu_deref (Some h) s = Inr (h, d) \<and>
             (if lu_submit (lo_dev d) \<noteq> 0 then fst (wallet_close env w s) = Inl Deadlock
              else if lu_readers (lo_dev d) \<noteq> 1 then fst (wallet_close env w s) = Inl (UB Use_After_Free)
              else closes_well usb_alive env w s)))"

lemma usb_reach_closing:
  assumes "wallet_reach env s0 w s" "serves (usb_api os ue errno) usb_alive env"
  shows "usb_closing env w s"
proof (cases "m_dev (m_io (m_framer w))")
  case None
  then show ?thesis using usbc.reach_closes_well [OF assms] by (simp add: usb_closing_def)
next
  case (Some h)
  have rests: "wallet_rests usb_alive w s" by (rule usb.reach_rests [OF assms])
  then have al: "usb_alive s h" using Some by (simp add: wallet_rests_def)
  then obtain d where d: "lu_deref (Some h) s = Inr (h, d)" by (auto simp: usb_alive_def)
  have close: "fst (wallet_close env w s) = Inl e"
    if "or_never s (usb_close os (Some h) s) = (Inl e, s)" for e
    using that rests Some servesD(1) [OF assms(2)]
    by (cases e) (simp_all add: wallet_close_def wbind_def wio_def hidpp_close_def lock_guard_def
        usb_api_def io_valid_def hidpp_valid_def wallet_rests_def)
  have "usb_closable s h" if "lu_submit (lo_dev d) = 0" "lu_readers (lo_dev d) = 1"
    using that d by (auto simp: usb_closable_def)
  then show ?thesis
    using Some d usbc.reach_closes_well [OF assms] usb_close_fails [OF al d, of os] close
    by (auto simp: usb_closing_def or_never_def)
qed

text \<open>
  C12. Whatever sequence of operations a program calls, opening, closing, commands that return and
  commands that throw, the wallet's mutexes are free between the calls, its buffer has the 64 bytes
  of a packet and its handle, if it has one, is alive: on each of the four backends. So on linux
  and windows \<^verbatim>\<open>close()\<close>, and with it the destructor, always returns, has no undefined behaviour and
  frees exactly that handle. Over libusb it does so when the one read thread of the device
  submitted its first transfer; if that failed, \<^verbatim>\<open>close()\<close> waits for ever, and if several alternate
  settings were opened, it frees a device their threads still use. How the read thread of the mac
  backend ends is not part of this theorem. A command that waits for ever, for its own lock or in a
  read, does not come back and is not among the operations of the sequence.
\<close>

theorem wallet_closes:
  "(\<forall>env s0 w s. wallet_reach env s0 w s \<and> serves (linux_api lo) lx_alive env \<longrightarrow> closes_well lx_alive env w s) \<and>
   (\<forall>env s0 w s. wallet_reach env s0 w s \<and> serves (windows_api wo) wn_alive env \<longrightarrow> closes_well wn_alive env w s) \<and>
   (\<forall>env s0 w s. wallet_reach env s0 w s \<and> serves (usb_api uo ue ln) usb_alive env \<longrightarrow>
      wallet_rests usb_alive w s \<and> usb_closing env w s) \<and>
   (\<forall>env s0 w s. wallet_reach env s0 w s \<and> serves (mac_api mo rl mn) mac_alive env \<longrightarrow> wallet_rests mac_alive w s)"
  by (auto intro: lx_closes_well wn_closes_well usb.reach_rests usb_reach_closing mac.reach_rests)

text \<open>The machines of the examples, after an \<^verbatim>\<open>init\<close>.\<close>

lemma init_reach:
  "wallet_init env pid (nanos_wallet_new (env_tb env)) s = (Inr True, w, s1) \<Longrightarrow> wallet_reach env s w s1"
  by (rule wallet_reach.init [OF wallet_reach.start])

theorem wallet_closes_witness:
  "closes_well lx_alive linux_env (opened_wallet 0) ((demo_state 3)\<lparr>lx_heap := [Some demo_device]\<rparr>) \<and>
   (\<exists>w. m_dev (m_io (m_framer w)) = Some 0 \<and>
      closes_well usb_alive nano_usb_env w (nano_usb_state [Some nano_usb_device])) \<and>
   (\<exists>w. m_dev (m_io (m_framer w)) = Some 0 \<and>
      wallet_rests mac_alive w (nano_mac_state [Some nano_mac_device])) \<and>
   (\<exists>w. m_dev (m_io (m_framer w)) = Some 0 \<and>
      closes_well wn_alive nano_win_env w (nano_win_state [Some nano_win_device]))"
proof -
  have s: "serves (usb_api nano_usb nano_events (\<lambda>w. 0)) usb_alive nano_usb_env"
    "serves (mac_api nano_mac nano_run_loop (\<lambda>w. 0)) mac_alive nano_mac_env"
    "serves (windows_api nano_win) wn_alive nano_win_env"
    by (simp_all add: serves_def nano_usb_env_def nano_mac_env_def nano_win_env_def tb_vec_laws)
  obtain w1 where w1: "wallet_reach nano_usb_env (nano_usb_state []) w1 (nano_usb_state [Some nano_usb_device])"
    "m_dev (m_io (m_framer w1)) = Some 0" using nano_usb_init init_reach [of nano_usb_env NANOS_PID "nano_usb_state []"] by auto
  obtain w2 where w2: "wallet_reach nano_mac_env (nano_mac_state []) w2 (nano_mac_state [Some nano_mac_device])"
    "m_dev (m_io (m_framer w2)) = Some 0" using nano_mac_init init_reach [of nano_mac_env NANOS_PID "nano_mac_state []"] by auto
  obtain w3 where w3: "wallet_reach nano_win_env (nano_win_state []) w3 (nano_win_state [Some nano_win_device])"
    "m_dev (m_io (m_framer w3)) = Some 0" using nano_win_init init_reach [of nano_win_env NANOS_PID "nano_win_state []"] by auto
  note all = wallet_closes [of demo_os nano_win nano_usb nano_events "\<lambda>w. 0" nano_mac nano_run_loop "\<lambda>w. 0"]
  have "closes_well lx_alive linux_env (opened_wallet 0) ((demo_state 3)\<lparr>lx_heap := [Some demo_device]\<rparr>)"
    using all demo_wallet_reach linux_env_serves by blast
  moreover have "usb_closing nano_usb_env w1 (nano_usb_state [Some nano_usb_device])" using all w1(1) s(1) by blast
  then have "closes_well usb_alive nano_usb_env w1 (nano_usb_state [Some nano_usb_device])"
    using w1(2) by (simp add: usb_closing_def lu_deref_def handle_at_def nano_usb_state_def nano_usb_device_def)
  moreover have "wallet_rests mac_alive w2 (nano_mac_state [Some nano_mac_device])" using all w2(1) s(2) by blast
  moreover have "closes_well wn_alive nano_win_env w3 (nano_win_state [Some nano_win_device])" using all w3(1) s(3) by blast
  ultimately show ?thesis using w1(2) w2(2) w3(2) by blast
qed

end
