(* ===== verification/Mac_Lifecycle.thy ===== *)
theory Mac_Lifecycle
  imports Mac_Thread
begin

text \<open>
  The life of an open device of the mac backend (\<^verbatim>\<open>src/src/hid/mac/hid.c\<close>): the thread that calls
  \<^verbatim>\<open>hid_open_path\<close> and later \<^verbatim>\<open>hid_close\<close>, the read thread, and the two barriers between them, as
  a step relation. A step that uses a null reference, the run loop of a thread that has ended, or
  the freed device has a fault as its result. What is asked is whether the barriers keep the
  order the comments of the file promise, and whether \<^verbatim>\<open>hid_close\<close> comes to its end.
\<close>

section \<open>Places in the code\<close>

text \<open>
  The owner: before \<^verbatim>\<open>pthread_create\<close>, at the barrier, using the device; then in \<^verbatim>\<open>hid_close\<close>
  before the lines that take the callbacks off, set \<^verbatim>\<open>shutdown_thread\<close>, signal the source, wake
  the run loop up, at the second barrier, before \<^verbatim>\<open>pthread_join\<close>, before the device is closed
  and freed, and at the end.
\<close>

datatype owner_pc =
  O_Create | O_Barrier | O_Using | O_Unregister | O_Shutdown | O_Signal | O_Wake_Up
| O_Shut_Barrier | O_Join | O_Close_Device | O_End

text \<open>
  The read thread: not created; before it makes the source, before it stores the run loop, at the
  barrier, before the test of the loop, in \<^verbatim>\<open>CFRunLoopRunInMode\<close>, before the broadcast, at the
  second barrier, ended.
\<close>

datatype mthread_pc =
  M_None | M_Source | M_Run_Loop | M_Barrier | M_Test | M_Run | M_Broadcast | M_Shut_Barrier | M_End

text \<open>Both are passed through in the order of the code, the loop of the thread apart.\<close>

fun owner_rank :: "owner_pc \<Rightarrow> nat" where
  "owner_rank O_Create = 0" | "owner_rank O_Barrier = 1" | "owner_rank O_Using = 2"
| "owner_rank O_Unregister = 3" | "owner_rank O_Shutdown = 4" | "owner_rank O_Signal = 5"
| "owner_rank O_Wake_Up = 6" | "owner_rank O_Shut_Barrier = 7" | "owner_rank O_Join = 8"
| "owner_rank O_Close_Device = 9" | "owner_rank O_End = 10"

fun mthread_rank :: "mthread_pc \<Rightarrow> nat" where
  "mthread_rank M_None = 0" | "mthread_rank M_Source = 1" | "mthread_rank M_Run_Loop = 2"
| "mthread_rank M_Barrier = 3" | "mthread_rank M_Test = 4" | "mthread_rank M_Run = 5"
| "mthread_rank M_Broadcast = 6" | "mthread_rank M_Shut_Barrier = 7" | "mthread_rank M_End = 8"

instantiation owner_pc :: linorder
begin

definition less_eq_owner_pc :: "owner_pc \<Rightarrow> owner_pc \<Rightarrow> bool" where
  "less_eq_owner_pc a b \<longleftrightarrow> owner_rank a \<le> owner_rank b"

definition less_owner_pc :: "owner_pc \<Rightarrow> owner_pc \<Rightarrow> bool" where
  "less_owner_pc a b \<longleftrightarrow> owner_rank a < owner_rank b"

instance
proof
  fix a b :: owner_pc
  assume "a \<le> b" "b \<le> a"
  then show "a = b" by (cases a; cases b) (simp_all add: less_eq_owner_pc_def)
qed (auto simp: less_eq_owner_pc_def less_owner_pc_def)

end

instantiation mthread_pc :: linorder
begin

definition less_eq_mthread_pc :: "mthread_pc \<Rightarrow> mthread_pc \<Rightarrow> bool" where
  "less_eq_mthread_pc a b \<longleftrightarrow> mthread_rank a \<le> mthread_rank b"

definition less_mthread_pc :: "mthread_pc \<Rightarrow> mthread_pc \<Rightarrow> bool" where
  "less_mthread_pc a b \<longleftrightarrow> mthread_rank a < mthread_rank b"

instance
proof
  fix a b :: mthread_pc
  assume "a \<le> b" "b \<le> a"
  then show "a = b" by (cases a; cases b) (simp_all add: less_eq_mthread_pc_def)
qed (auto simp: less_eq_mthread_pc_def less_mthread_pc_def)

end

lemmas pc_order = less_eq_owner_pc_def less_owner_pc_def less_eq_mthread_pc_def less_mthread_pc_def

section \<open>The system\<close>

text \<open>
  \<open>ml_signaled\<close>: the source was signalled and its callback has not run; \<open>ml_stopped\<close>: the callback
  has called \<^verbatim>\<open>CFRunLoopStop\<close>; \<open>ml_registered\<close>: the removal callback is set; \<open>ml_live\<close>: the device
  is not freed. In both barriers the owner is thread 0, the read thread is thread 1.
\<close>

record mac_life =
  ml_owner :: owner_pc
  ml_thread :: mthread_pc
  ml_open_bar :: barrier
  ml_shut_bar :: barrier
  ml_source :: bool
  ml_run_loop :: bool
  ml_shutdown :: bool
  ml_disconnected :: bool
  ml_signaled :: bool
  ml_stopped :: bool
  ml_registered :: bool
  ml_plugged :: bool
  ml_live :: bool

definition life_start :: mac_life where
  "life_start = \<lparr>ml_owner = O_Create, ml_thread = M_None, ml_open_bar = barrier_start 2,
     ml_shut_bar = barrier_start 2, ml_source = False, ml_run_loop = False, ml_shutdown = False,
     ml_disconnected = False, ml_signaled = False, ml_stopped = False, ml_registered = True,
     ml_plugged = True, ml_live = True\<rparr>"

text \<open>One step of thread \<open>i\<close> inside \<^verbatim>\<open>pthread_barrier_wait\<close>; asleep, it has none of its own.\<close>

definition barrier_wait :: "nat \<Rightarrow> barrier \<Rightarrow> barrier option" where
  "barrier_wait i b =
     (case bar_threads b ! i of
        B_Before \<Rightarrow> Some (barrier_arrive i b)
      | B_Woken \<Rightarrow> Some (b\<lparr>bar_threads := (bar_threads b)[i := B_Past 0]\<rparr>)
      | _ \<Rightarrow> None)"

text \<open>The owner: the end of \<^verbatim>\<open>hid_open_path\<close> and \<^verbatim>\<open>hid_close\<close>. \<open>None\<close>: it waits.\<close>

definition owner_step :: "mac_life \<Rightarrow> mac_life res option" where
  "owner_step s =
     (case ml_owner s of
        O_Create \<Rightarrow> Some (Inr (s\<lparr>ml_thread := M_Source, ml_owner := O_Barrier\<rparr>))
      | O_Barrier \<Rightarrow>
          (if past (bar_threads (ml_open_bar s) ! 0) then Some (Inr (s\<lparr>ml_owner := O_Using\<rparr>))
           else map_option (\<lambda>b. Inr (s\<lparr>ml_open_bar := b\<rparr>)) (barrier_wait 0 (ml_open_bar s)))
      | O_Using \<Rightarrow> Some (Inr (s\<lparr>ml_owner := O_Unregister\<rparr>))
      | O_Unregister \<Rightarrow>
          Some (if ml_disconnected s then Inr (s\<lparr>ml_owner := O_Shutdown\<rparr>)
                else if \<not> ml_run_loop s then Inl (UB Null_Pointer)
                else Inr (s\<lparr>ml_registered := False, ml_owner := O_Shutdown\<rparr>))
      | O_Shutdown \<Rightarrow> Some (Inr (s\<lparr>ml_shutdown := True, ml_owner := O_Signal\<rparr>))
      | O_Signal \<Rightarrow>
          Some (if \<not> ml_source s then Inl (UB Null_Pointer)
                else Inr (s\<lparr>ml_signaled := True, ml_owner := O_Wake_Up\<rparr>))
      | O_Wake_Up \<Rightarrow>
          Some (if \<not> ml_run_loop s then Inl (UB Null_Pointer)
                else if ml_thread s = M_End then Inl (UB Use_After_Free)
                else Inr (s\<lparr>ml_owner := O_Shut_Barrier\<rparr>))
      | O_Shut_Barrier \<Rightarrow>
          (if past (bar_threads (ml_shut_bar s) ! 0) then Some (Inr (s\<lparr>ml_owner := O_Join\<rparr>))
           else map_option (\<lambda>b. Inr (s\<lparr>ml_shut_bar := b\<rparr>)) (barrier_wait 0 (ml_shut_bar s)))
      | O_Join \<Rightarrow> (if ml_thread s = M_End then Some (Inr (s\<lparr>ml_owner := O_Close_Device\<rparr>)) else None)
      | O_Close_Device \<Rightarrow> Some (Inr (s\<lparr>ml_live := False, ml_owner := O_End\<rparr>))
      | O_End \<Rightarrow> None)"

text \<open>\<^verbatim>\<open>read_thread\<close> outside its run loop.\<close>

definition thread_step :: "mac_life \<Rightarrow> mac_life res option" where
  "thread_step s =
     (if ml_thread s = M_None \<or> ml_thread s = M_Run \<or> ml_thread s = M_End then None
      else if \<not> ml_live s then Some (Inl (UB Use_After_Free))
      else case ml_thread s of
        M_Source \<Rightarrow> Some (Inr (s\<lparr>ml_source := True, ml_thread := M_Run_Loop\<rparr>))
      | M_Run_Loop \<Rightarrow> Some (Inr (s\<lparr>ml_run_loop := True, ml_thread := M_Barrier\<rparr>))
      | M_Barrier \<Rightarrow>
          (if past (bar_threads (ml_open_bar s) ! 1) then Some (Inr (s\<lparr>ml_thread := M_Test\<rparr>))
           else map_option (\<lambda>b. Inr (s\<lparr>ml_open_bar := b\<rparr>)) (barrier_wait 1 (ml_open_bar s)))
      | M_Test \<Rightarrow>
          Some (Inr (s\<lparr>ml_thread := if \<not> ml_shutdown s \<and> \<not> ml_disconnected s then M_Run else M_Broadcast\<rparr>))
      | M_Broadcast \<Rightarrow> Some (Inr (s\<lparr>ml_thread := M_Shut_Barrier\<rparr>))
      | M_Shut_Barrier \<Rightarrow>
          (if past (bar_threads (ml_shut_bar s) ! 1) then Some (Inr (s\<lparr>ml_thread := M_End\<rparr>))
           else map_option (\<lambda>b. Inr (s\<lparr>ml_shut_bar := b\<rparr>)) (barrier_wait 1 (ml_shut_bar s))))"

text \<open>The callback of the source, and what the thread does with the code of \<^verbatim>\<open>CFRunLoopRunInMode\<close>.\<close>

definition perform_signal_callback :: "mac_life \<Rightarrow> mac_life res" where
  "perform_signal_callback s =
     (if \<not> ml_live s then Inl (UB Use_After_Free)
      else if \<not> ml_run_loop s then Inl (UB Null_Pointer)
      else Inr (s\<lparr>ml_signaled := False, ml_stopped := True\<rparr>))"

definition run_returns :: "int \<Rightarrow> mac_life \<Rightarrow> mac_life" where
  "run_returns code s =
     (if code = kCFRunLoopRunFinished then s\<lparr>ml_disconnected := True, ml_thread := M_Broadcast\<rparr>
      else if code \<noteq> kCFRunLoopRunTimedOut \<and> code \<noteq> kCFRunLoopRunHandledSource
      then s\<lparr>ml_shutdown := True, ml_thread := M_Broadcast\<rparr>
      else s\<lparr>ml_thread := M_Test\<rparr>)"

text \<open>
  The run loop handles a signalled source by its callback, and returns after \<^verbatim>\<open>CFRunLoopStop\<close>; it
  may return another code at any time. The device may be unplugged at any time.
\<close>

inductive life_step :: "bool \<Rightarrow> mac_life \<Rightarrow> mac_life res \<Rightarrow> bool" for spurious :: bool where
  owner: "owner_step s = Some r \<Longrightarrow> life_step spurious s r"
| thread: "thread_step s = Some r \<Longrightarrow> life_step spurious s r"
| signal: "ml_thread s = M_Run \<Longrightarrow> ml_signaled s \<Longrightarrow> life_step spurious s (perform_signal_callback s)"
| stopped: "ml_thread s = M_Run \<Longrightarrow> ml_stopped s \<Longrightarrow>
    life_step spurious s (Inr (run_returns kCFRunLoopRunStopped (s\<lparr>ml_stopped := False\<rparr>)))"
| returns: "ml_thread s = M_Run \<Longrightarrow> code \<noteq> kCFRunLoopRunStopped \<Longrightarrow>
    life_step spurious s (Inr (run_returns code s))"
| unplug: "life_step spurious s (Inr (s\<lparr>ml_plugged := False\<rparr>))"
| removal: "ml_thread s = M_Run \<Longrightarrow> \<not> ml_plugged s \<Longrightarrow> ml_registered s \<Longrightarrow>
    life_step spurious s (Inr (s\<lparr>ml_disconnected := True\<rparr>))"
| wake_open: "spurious \<Longrightarrow> i < length (bar_threads (ml_open_bar s)) \<Longrightarrow> bar_threads (ml_open_bar s) ! i = B_Asleep \<Longrightarrow>
    life_step spurious s (Inr (s\<lparr>ml_open_bar := (ml_open_bar s)
      \<lparr>bar_threads := (bar_threads (ml_open_bar s))[i := B_Woken]\<rparr>\<rparr>))"
| wake_shut: "spurious \<Longrightarrow> i < length (bar_threads (ml_shut_bar s)) \<Longrightarrow> bar_threads (ml_shut_bar s) ! i = B_Asleep \<Longrightarrow>
    life_step spurious s (Inr (s\<lparr>ml_shut_bar := (ml_shut_bar s)
      \<lparr>bar_threads := (bar_threads (ml_shut_bar s))[i := B_Woken]\<rparr>\<rparr>))"

inductive life_reach :: "bool \<Rightarrow> mac_life \<Rightarrow> bool" for spurious :: bool where
  start: "life_reach spurious life_start"
| step: "life_reach spurious s \<Longrightarrow> life_step spurious s (Inr s') \<Longrightarrow> life_reach spurious s'"

section \<open>Invariant\<close>

lemma barrier_wait_step:
  assumes "barrier_wait i b = Some b'" "i < length (bar_threads b)"
  shows "barrier_step spurious b b'"
  using assms barrier_step.arrive [of i b] barrier_step.pass [of i b]
  by (auto simp: barrier_wait_def split: barrier_pc.splits)

text \<open>Where the threads of a barrier are, by their places in the code.\<close>

definition bar_fits :: "barrier \<Rightarrow> nat \<Rightarrow> bool \<Rightarrow> bool \<Rightarrow> bool" where
  "bar_fits b i before after \<longleftrightarrow>
     (before \<longrightarrow> bar_threads b ! i = B_Before) \<and> (after \<longrightarrow> past (bar_threads b ! i))"

definition life_inv :: "mac_life \<Rightarrow> bool" where
  "life_inv s \<longleftrightarrow>
     barrier_reach False 2 (ml_open_bar s) \<and> barrier_reach False 2 (ml_shut_bar s) \<and>
     bar_fits (ml_open_bar s) 0 (ml_owner s < O_Barrier) (O_Barrier < ml_owner s) \<and>
     bar_fits (ml_open_bar s) 1 (ml_thread s < M_Barrier) (M_Barrier < ml_thread s) \<and>
     bar_fits (ml_shut_bar s) 0 (ml_owner s < O_Shut_Barrier) (O_Shut_Barrier < ml_owner s) \<and>
     bar_fits (ml_shut_bar s) 1 (ml_thread s < M_Shut_Barrier) (M_Shut_Barrier < ml_thread s) \<and>
     (ml_owner s = O_Create \<longleftrightarrow> ml_thread s = M_None) \<and>
     (M_Run_Loop \<le> ml_thread s \<longrightarrow> ml_source s) \<and> (M_Barrier \<le> ml_thread s \<longrightarrow> ml_run_loop s) \<and>
     (O_Signal \<le> ml_owner s \<longrightarrow> ml_shutdown s) \<and>
     (O_Wake_Up \<le> ml_owner s \<longrightarrow> ml_thread s = M_Run \<longrightarrow> ml_signaled s \<or> ml_stopped s) \<and>
     (O_Join < ml_owner s \<longrightarrow> ml_thread s = M_End) \<and>
     (ml_live s \<longleftrightarrow> ml_owner s \<noteq> O_End)"

lemma barrier_reach_count: "barrier_reach False n b \<Longrightarrow> 0 < n \<Longrightarrow> bar_count b < n"
proof (induction rule: barrier_reach.induct)
  case start
  then show ?case by (simp add: barrier_start_def)
next
  case (step b b')
  have "bar_trip_count b = n" using barrier_reach_ok [OF step(1)] by (simp add: barrier_ok_def)
  from step(2) this show ?case using step
    by (cases rule: barrier_step.cases) (auto simp: barrier_arrive_def Let_def)
qed

text \<open>What a barrier for two threads guarantees to each of them.\<close>

lemma two_threads:
  assumes "barrier_reach False 2 b" "i < 2" "j < 2"
  shows "length (bar_threads b) = 2"
    "past (bar_threads b ! i) \<Longrightarrow> bar_threads b ! j = B_Woken \<or> past (bar_threads b ! j)"
    "bar_threads b ! i = B_Asleep \<Longrightarrow> i \<noteq> j \<Longrightarrow> bar_threads b ! j = B_Before"
proof -
  have ok: "barrier_ok 2 b" and c: "bar_count b < 2"
    using barrier_reach_ok [OF assms(1)] barrier_reach_count [OF assms(1)] by simp_all
  show "length (bar_threads b) = 2" using ok by (simp add: barrier_ok_def)
  show "past (bar_threads b ! i) \<Longrightarrow> bar_threads b ! j = B_Woken \<or> past (bar_threads b ! j)"
    using ok assms(2,3) by (auto simp: barrier_ok_def past_iff)
  assume a: "bar_threads b ! i = B_Asleep" "i \<noteq> j"
  have "bar_count b + card (to_arrive b) = 2" "\<forall>j < 2. bar_threads b ! j \<in> {B_Before, B_Asleep}"
    using ok a(1) assms(2) by (auto simp: barrier_ok_def past_iff)
  moreover have "to_arrive b \<subseteq> {j}" using a assms ok
    by (auto simp: to_arrive_def barrier_ok_def less_2_cases_iff)
  moreover have "card (to_arrive b) \<noteq> 0" using calculation(1) c by auto
  ultimately have "j \<in> to_arrive b" by (metis card.empty subset_singletonD singletonI)
  then show "bar_threads b ! j = B_Before" by (simp add: to_arrive_def)
qed

text \<open>A step in the barrier leaves the other thread's place as far as the code can see it.\<close>

lemma barrier_wait_other:
  assumes "barrier_wait i b = Some b'" "j \<noteq> i" "j < length (bar_threads b)"
  shows "(bar_threads b' ! j = B_Before \<longleftrightarrow> bar_threads b ! j = B_Before) \<and>
    (past (bar_threads b' ! j) \<longleftrightarrow> past (bar_threads b ! j))"
  using assms
  by (auto simp: barrier_wait_def barrier_arrive_def Let_def past_iff split: barrier_pc.splits if_splits)

lemma barrier_wait_two:
  assumes "barrier_reach False 2 b" "barrier_wait i b = Some b'" "i < 2" "j < 2" "j \<noteq> i"
  shows "barrier_reach False 2 b'" "bar_fits b j x y \<Longrightarrow> bar_fits b' j x y"
proof -
  have l: "length (bar_threads b) = 2" using two_threads(1) [OF assms(1,3,4)] .
  show "barrier_reach False 2 b'"
    using barrier_reach.step [OF assms(1) barrier_wait_step [OF assms(2)]] l assms(3) by simp
  show "bar_fits b j x y \<Longrightarrow> bar_fits b' j x y"
    using barrier_wait_other [OF assms(2,5)] l assms(4) by (simp add: bar_fits_def)
qed

lemmas barrier_0 = barrier_wait_two [where i = 0 and j = 1, simplified]
lemmas barrier_1 = barrier_wait_two [where i = 1 and j = 0, simplified]

lemma bar_fits_at [simp]: "bar_fits b i False False" "bar_fits b i False True \<longleftrightarrow> past (bar_threads b ! i)"
  by (simp_all add: bar_fits_def)

lemma owner_step_inv:
  assumes "owner_step s = Some (Inr s')" "life_inv s"
  shows "life_inv s'"
proof (cases "ml_owner s")
  case O_Barrier
  show ?thesis
  proof (cases "past (bar_threads (ml_open_bar s) ! 0)")
    case False
    then obtain b where b: "barrier_wait 0 (ml_open_bar s) = Some b" "s' = s\<lparr>ml_open_bar := b\<rparr>"
      using assms(1) O_Barrier by (auto simp: owner_step_def)
    then show ?thesis using assms(2) barrier_0 [OF _ b(1)] O_Barrier by (simp add: life_inv_def pc_order)
  qed (use assms O_Barrier in \<open>auto simp: owner_step_def life_inv_def pc_order\<close>)
next
  case O_Shut_Barrier
  show ?thesis
  proof (cases "past (bar_threads (ml_shut_bar s) ! 0)")
    case False
    then obtain b where b: "barrier_wait 0 (ml_shut_bar s) = Some b" "s' = s\<lparr>ml_shut_bar := b\<rparr>"
      using assms(1) O_Shut_Barrier by (auto simp: owner_step_def)
    then show ?thesis using assms(2) barrier_0 [OF _ b(1)] O_Shut_Barrier by (simp add: life_inv_def pc_order)
  qed (use assms O_Shut_Barrier in \<open>auto simp: owner_step_def life_inv_def pc_order\<close>)
qed (use assms in \<open>clarsimp simp: owner_step_def split: if_splits; simp add: life_inv_def pc_order\<close>)+

lemma thread_step_inv:
  assumes "thread_step s = Some (Inr s')" "life_inv s"
  shows "life_inv s'"
proof (cases "ml_thread s")
  case M_Barrier
  show ?thesis
  proof (cases "past (bar_threads (ml_open_bar s) ! 1)")
    case False
    then obtain b where b: "barrier_wait 1 (ml_open_bar s) = Some b" "s' = s\<lparr>ml_open_bar := b\<rparr>"
      using assms(1) M_Barrier by (auto simp: thread_step_def split: if_splits)
    then show ?thesis using assms(2) barrier_1 [of "ml_open_bar s" b] M_Barrier by (simp add: life_inv_def pc_order)
  qed (use assms M_Barrier in \<open>auto simp: thread_step_def life_inv_def pc_order split: if_splits\<close>)
next
  case M_Shut_Barrier
  show ?thesis
  proof (cases "past (bar_threads (ml_shut_bar s) ! 1)")
    case False
    then obtain b where b: "barrier_wait 1 (ml_shut_bar s) = Some b" "s' = s\<lparr>ml_shut_bar := b\<rparr>"
      using assms(1) M_Shut_Barrier by (auto simp: thread_step_def split: if_splits)
    then show ?thesis using assms(2) barrier_1 [of "ml_shut_bar s" b] M_Shut_Barrier by (simp add: life_inv_def pc_order)
  qed (use assms M_Shut_Barrier in \<open>auto simp: thread_step_def life_inv_def pc_order split: if_splits\<close>)
qed (use assms in \<open>clarsimp simp: thread_step_def split: if_splits; simp add: life_inv_def pc_order\<close>)+

lemma run_returns_inv:
  assumes "life_inv s" "ml_thread s = M_Run"
  shows "life_inv (run_returns code (s\<lparr>ml_stopped := x\<rparr>))" "life_inv (run_returns code s)"
  using assms by (auto simp: run_returns_def life_inv_def pc_order)

lemma life_step_inv:
  assumes "life_step False s (Inr s')" "life_inv s"
  shows "life_inv s'"
  using assms(1)
proof (cases rule: life_step.cases)
  case owner
  then show ?thesis using owner_step_inv assms(2) by blast
next
  case thread
  then show ?thesis using thread_step_inv assms(2) by blast
next
  case signal
  then show ?thesis using assms(2)
    by (auto simp: perform_signal_callback_def life_inv_def pc_order split: if_splits)
next
  case stopped
  then show ?thesis using run_returns_inv(1) [OF assms(2)] by simp
next
  case (returns code)
  then show ?thesis using run_returns_inv(2) [OF assms(2)] by simp
qed (use assms(2) in \<open>auto simp: life_inv_def\<close>)

lemma life_reach_inv: "life_reach False s \<Longrightarrow> life_inv s"
proof (induction rule: life_reach.induct)
  case start
  show ?case using barrier_reach.start [of False 2]
    by (simp add: life_inv_def life_start_def bar_fits_def pc_order barrier_start_def)
next
  case (step s s')
  then show ?case using life_step_inv by blast
qed

text \<open>What the first barrier gives the owner, and the second one.\<close>

lemma life_inv_sync:
  assumes "life_inv s"
  shows "O_Barrier < ml_owner s \<Longrightarrow> ml_source s \<and> ml_run_loop s \<and> M_Barrier \<le> ml_thread s"
    "ml_owner s < O_Shut_Barrier \<Longrightarrow> ml_thread s \<noteq> M_End"
proof -
  have o: "barrier_reach False 2 (ml_open_bar s)" and c: "barrier_reach False 2 (ml_shut_bar s)"
    using assms by (simp_all add: life_inv_def)
  show "ml_source s \<and> ml_run_loop s \<and> M_Barrier \<le> ml_thread s" if a: "O_Barrier < ml_owner s"
  proof -
    have "past (bar_threads (ml_open_bar s) ! 0)" using assms a by (simp add: life_inv_def bar_fits_def)
    then have "bar_threads (ml_open_bar s) ! 1 \<noteq> B_Before"
      using two_threads(2) [OF o, of 0 1] by (auto simp: past_iff)
    then have "M_Barrier \<le> ml_thread s" using assms by (auto simp: life_inv_def bar_fits_def not_less)
    moreover have "M_Run_Loop \<le> M_Barrier" by (simp add: pc_order)
    ultimately show ?thesis using assms order_trans [of M_Run_Loop M_Barrier] by (auto simp: life_inv_def)
  qed
  show "ml_thread s \<noteq> M_End" if a: "ml_owner s < O_Shut_Barrier"
  proof
    assume "ml_thread s = M_End"
    then have "past (bar_threads (ml_shut_bar s) ! 1)" using assms by (simp add: life_inv_def bar_fits_def pc_order)
    moreover have "bar_threads (ml_shut_bar s) ! 0 = B_Before" using assms a by (simp add: life_inv_def bar_fits_def)
    ultimately show False using two_threads(2) [OF c, of 1 0] by (auto simp: past_iff)
  qed
qed

lemma life_step_no_fault:
  assumes "life_inv s"
  shows "\<not> life_step False s (Inl e)"
proof
  assume "life_step False s (Inl e)"
  then show False
  proof (cases rule: life_step.cases)
    case owner
    then show False using life_inv_sync [OF assms] by (cases "ml_owner s") (auto simp: owner_step_def pc_order split: if_splits)
  next
    case thread
    then have "ml_owner s = O_End" "ml_thread s \<noteq> M_End" using assms
      by (auto simp: thread_step_def life_inv_def split: if_splits mthread_pc.splits)
    then show False using assms by (simp add: life_inv_def pc_order)
  next
    case signal
    then show False using assms by (auto simp: perform_signal_callback_def life_inv_def pc_order split: if_splits)
  qed
qed

section \<open>Coming to the end\<close>

text \<open>How far the two threads and the barriers are from the end.\<close>

fun bar_rank :: "barrier_pc \<Rightarrow> nat" where
  "bar_rank B_Before = 3" | "bar_rank B_Asleep = 2" | "bar_rank B_Woken = 1" | "bar_rank (B_Past r) = 0"

definition both_rank :: "barrier \<Rightarrow> nat" where
  "both_rank b = bar_rank (bar_threads b ! 0) + bar_rank (bar_threads b ! 1)"

definition life_rank :: "mac_life \<Rightarrow> nat" where
  "life_rank s = 2 * (10 - owner_rank (ml_owner s)) + 2 * (8 - mthread_rank (ml_thread s)) +
     both_rank (ml_open_bar s) + both_rank (ml_shut_bar s) + of_bool (ml_signaled s)"

lemma barrier_wait_rank:
  assumes "barrier_reach False 2 b" "i < 2" "barrier_wait i b = Some b'"
  shows "both_rank b' < both_rank b"
proof -
  have l: "length (bar_threads b) = 2" by (rule two_threads(1) [OF assms(1,2,2)])
  then obtain x y where "bar_threads b = [x, y]" by (auto simp: numeral_2_eq_2 length_Suc_conv)
  then show ?thesis using assms(2,3)
    by (cases x; cases y) (auto simp: barrier_wait_def both_rank_def barrier_arrive_def Let_def less_2_cases_iff
        split: if_splits)
qed

lemma barrier_wait_enabled:
  "bar_threads b ! i \<noteq> B_Asleep \<Longrightarrow> \<not> past (bar_threads b ! i) \<Longrightarrow> \<exists>b'. barrier_wait i b = Some b'"
  by (cases "bar_threads b ! i") (auto simp: barrier_wait_def past_iff)

definition progress :: "mac_life \<Rightarrow> bool" where
  "progress s \<longleftrightarrow> (\<exists>s'. life_step False s (Inr s') \<and> life_rank s' < life_rank s)"

lemma progress_owner: "owner_step s = Some (Inr s') \<Longrightarrow> life_rank s' < life_rank s \<Longrightarrow> progress s"
  unfolding progress_def by (blast intro: life_step.owner)

lemma progress_thread: "thread_step s = Some (Inr s') \<Longrightarrow> life_rank s' < life_rank s \<Longrightarrow> progress s"
  unfolding progress_def by (blast intro: life_step.thread)

lemma thread_progress:
  assumes inv: "life_inv s" and pc: "ml_thread s \<noteq> M_None" "ml_thread s \<noteq> M_End"
    and b: "ml_thread s = M_Barrier \<Longrightarrow> bar_threads (ml_open_bar s) ! 1 \<noteq> B_Asleep"
      "ml_thread s = M_Shut_Barrier \<Longrightarrow> bar_threads (ml_shut_bar s) ! 1 \<noteq> B_Asleep"
    and run: "ml_thread s = M_Run \<Longrightarrow> ml_signaled s \<or> ml_stopped s"
  shows "progress s"
proof -
  have live: "ml_live s" using inv pc(2) by (auto simp: life_inv_def pc_order)
  have reach: "barrier_reach False 2 (ml_open_bar s)" "barrier_reach False 2 (ml_shut_bar s)"
    using inv by (simp_all add: life_inv_def)
  show ?thesis
  proof (cases "ml_thread s")
    case M_Barrier
    show ?thesis
    proof (cases "past (bar_threads (ml_open_bar s) ! 1)")
      case True
      then show ?thesis using M_Barrier live
        by (intro progress_thread [of s "s\<lparr>ml_thread := M_Test\<rparr>"]) (simp_all add: thread_step_def life_rank_def)
    next
      case False
      then obtain b' where b': "barrier_wait 1 (ml_open_bar s) = Some b'"
        using barrier_wait_enabled b(1) [OF M_Barrier] by blast
      then show ?thesis using M_Barrier live False barrier_wait_rank [OF reach(1) _ b']
        by (intro progress_thread [of s "s\<lparr>ml_open_bar := b'\<rparr>"]) (simp_all add: thread_step_def life_rank_def)
    qed
  next
    case M_Shut_Barrier
    show ?thesis
    proof (cases "past (bar_threads (ml_shut_bar s) ! 1)")
      case True
      then show ?thesis using M_Shut_Barrier live
        by (intro progress_thread [of s "s\<lparr>ml_thread := M_End\<rparr>"]) (simp_all add: thread_step_def life_rank_def)
    next
      case False
      then obtain b' where b': "barrier_wait 1 (ml_shut_bar s) = Some b'"
        using barrier_wait_enabled b(2) [OF M_Shut_Barrier] by blast
      then show ?thesis using M_Shut_Barrier live False barrier_wait_rank [OF reach(2) _ b']
        by (intro progress_thread [of s "s\<lparr>ml_shut_bar := b'\<rparr>"]) (simp_all add: thread_step_def life_rank_def)
    qed
  next
    case M_Run
    show ?thesis
    proof (cases "ml_stopped s")
      case True
      let ?s = "run_returns kCFRunLoopRunStopped (s\<lparr>ml_stopped := False\<rparr>)"
      have "life_rank ?s < life_rank s" using M_Run
        by (simp add: life_rank_def run_returns_def kCFRunLoopRunStopped_def kCFRunLoopRunFinished_def
            kCFRunLoopRunTimedOut_def kCFRunLoopRunHandledSource_def)
      then show ?thesis using life_step.stopped [OF M_Run True] unfolding progress_def by blast
    next
      case False
      then have sig: "ml_signaled s" using run [OF M_Run] by simp
      have "ml_run_loop s" using inv M_Run by (simp add: life_inv_def pc_order)
      then have "perform_signal_callback s = Inr (s\<lparr>ml_signaled := False, ml_stopped := True\<rparr>)"
        using live by (simp add: perform_signal_callback_def)
      moreover have "life_rank (s\<lparr>ml_signaled := False, ml_stopped := True\<rparr>) < life_rank s"
        using sig by (simp add: life_rank_def)
      ultimately show ?thesis using life_step.signal [OF M_Run sig, of False] unfolding progress_def by metis
    qed
  next
    case M_Source
    then show ?thesis using live
      by (intro progress_thread [of s "s\<lparr>ml_source := True, ml_thread := M_Run_Loop\<rparr>"])
        (simp_all add: thread_step_def life_rank_def)
  next
    case M_Run_Loop
    then show ?thesis using live
      by (intro progress_thread [of s "s\<lparr>ml_run_loop := True, ml_thread := M_Barrier\<rparr>"])
        (simp_all add: thread_step_def life_rank_def)
  next
    case M_Test
    then show ?thesis using live
      by (intro progress_thread [of s "s\<lparr>ml_thread := if \<not> ml_shutdown s \<and> \<not> ml_disconnected s then M_Run else M_Broadcast\<rparr>"])
        (simp_all add: thread_step_def life_rank_def)
  next
    case M_Broadcast
    then show ?thesis using live
      by (intro progress_thread [of s "s\<lparr>ml_thread := M_Shut_Barrier\<rparr>"]) (simp_all add: thread_step_def life_rank_def)
  qed (use pc in simp_all)
qed

lemma owner_step_rank:
  assumes "owner_step s = Some (Inr s')" "life_inv s"
  shows "life_rank s' < life_rank s"
proof (cases "ml_owner s")
  case O_Barrier
  have "barrier_reach False 2 (ml_open_bar s)" using assms(2) by (simp add: life_inv_def)
  then show ?thesis using assms(1) O_Barrier barrier_wait_rank [of "ml_open_bar s" 0]
    by (auto simp: owner_step_def life_rank_def split: if_splits)
next
  case O_Shut_Barrier
  have "barrier_reach False 2 (ml_shut_bar s)" using assms(2) by (simp add: life_inv_def)
  then show ?thesis using assms(1) O_Shut_Barrier barrier_wait_rank [of "ml_shut_bar s" 0]
    by (auto simp: owner_step_def life_rank_def split: if_splits)
next
  case O_Create
  then have "ml_thread s = M_None" using assms(2) by (simp add: life_inv_def)
  then show ?thesis using assms(1) O_Create by (auto simp: owner_step_def life_rank_def)
qed (use assms(1) in \<open>clarsimp simp: owner_step_def split: if_splits; simp add: life_rank_def\<close>)+

lemma owner_enabled:
  assumes "owner_step s \<noteq> None" "life_inv s"
  shows "progress s"
proof -
  obtain r where r: "owner_step s = Some r" using assms(1) by blast
  then obtain s' where "r = Inr s'"
    using life_step_no_fault [OF assms(2)] life_step.owner [OF r, of False] by (cases r) auto
  then show ?thesis using progress_owner owner_step_rank assms(2) r by blast
qed

lemma life_invD:
  assumes "life_inv s"
  shows "O_Barrier < ml_owner s \<Longrightarrow> past (bar_threads (ml_open_bar s) ! 0)"
    "M_Barrier < ml_thread s \<Longrightarrow> past (bar_threads (ml_open_bar s) ! 1)"
    "O_Shut_Barrier < ml_owner s \<Longrightarrow> past (bar_threads (ml_shut_bar s) ! 0)"
    "M_Shut_Barrier < ml_thread s \<Longrightarrow> past (bar_threads (ml_shut_bar s) ! 1)"
    "O_Wake_Up \<le> ml_owner s \<Longrightarrow> ml_thread s = M_Run \<Longrightarrow> ml_signaled s \<or> ml_stopped s"
  using assms by (simp_all add: life_inv_def bar_fits_def)

lemma life_progress:
  assumes inv: "life_inv s" and pc: "ml_owner s \<noteq> O_End"
  shows "progress s"
proof (cases "owner_step s = None")
  case False
  then show ?thesis using owner_enabled inv by blast
next
  case True
  have reach: "barrier_reach False 2 (ml_open_bar s)" "barrier_reach False 2 (ml_shut_bar s)"
    using inv by (simp_all add: life_inv_def)
  have none: "ml_thread s \<noteq> M_None" using True inv by (auto simp: owner_step_def life_inv_def)
  have "ml_owner s = O_Barrier \<and> bar_threads (ml_open_bar s) ! 0 = B_Asleep \<or>
      ml_owner s = O_Shut_Barrier \<and> bar_threads (ml_shut_bar s) ! 0 = B_Asleep \<or>
      ml_owner s = O_Join \<and> ml_thread s \<noteq> M_End"
    using True pc barrier_wait_enabled [of "ml_open_bar s" 0] barrier_wait_enabled [of "ml_shut_bar s" 0]
    by (cases "ml_owner s") (auto simp: owner_step_def split: if_splits)
  then consider
      (at_open) "ml_owner s = O_Barrier" "bar_threads (ml_open_bar s) ! 0 = B_Asleep"
    | (at_close) "ml_owner s = O_Shut_Barrier" "bar_threads (ml_shut_bar s) ! 0 = B_Asleep"
    | (join) "ml_owner s = O_Join" "ml_thread s \<noteq> M_End" by blast
  then show ?thesis
  proof cases
    case at_open
    then have b: "bar_threads (ml_open_bar s) ! 1 = B_Before" using two_threads(3) [OF reach(1), of 0 1] by simp
    then have "\<not> M_Barrier < ml_thread s" using life_invD(2) [OF inv] by auto
    then show ?thesis using b none by (intro thread_progress [OF inv]) (auto simp: pc_order)
  next
    case at_close
    then have b: "bar_threads (ml_shut_bar s) ! 1 = B_Before" using two_threads(3) [OF reach(2), of 0 1] by simp
    have e: "ml_thread s \<noteq> M_End" using life_invD(4) [OF inv] b by (auto simp: pc_order)
    have "past (bar_threads (ml_open_bar s) ! 0)" using life_invD(1) [OF inv] at_close(1) by (simp add: pc_order)
    then have o: "bar_threads (ml_open_bar s) ! 1 \<noteq> B_Asleep"
      using two_threads(2) [OF reach(1), of 0 1] by auto
    have r: "ml_thread s = M_Run \<Longrightarrow> ml_signaled s \<or> ml_stopped s"
      using life_invD(5) [OF inv] at_close(1) by (simp add: pc_order)
    show ?thesis by (rule thread_progress [OF inv none e o _ r]) (use b in simp_all)
  next
    case join
    have "past (bar_threads (ml_open_bar s) ! 0)" "past (bar_threads (ml_shut_bar s) ! 0)"
      using life_invD(1,3) [OF inv] join(1) by (simp_all add: pc_order)
    then have o: "bar_threads (ml_open_bar s) ! 1 \<noteq> B_Asleep" "bar_threads (ml_shut_bar s) ! 1 \<noteq> B_Asleep"
      using two_threads(2) [OF reach(1), of 0 1] two_threads(2) [OF reach(2), of 0 1] by auto
    have r: "ml_thread s = M_Run \<Longrightarrow> ml_signaled s \<or> ml_stopped s"
      using life_invD(5) [OF inv] join(1) by (simp add: pc_order)
    show ?thesis by (rule thread_progress [OF inv none join(2) o r])
  qed
qed

abbreviation life_steps :: "mac_life \<Rightarrow> mac_life \<Rightarrow> bool" where
  "life_steps \<equiv> (\<lambda>a b. life_step False a (Inr b))\<^sup>*\<^sup>*"

lemma life_ends:
  assumes "life_inv s"
  shows "\<exists>s'. life_steps s s' \<and> ml_owner s' = O_End"
  using assms
proof (induction "life_rank s" arbitrary: s rule: less_induct)
  case less
  show ?case
  proof (cases "ml_owner s = O_End")
    case False
    then obtain s1 where s1: "life_step False s (Inr s1)" "life_rank s1 < life_rank s"
      using life_progress [OF less.prems] unfolding progress_def by blast
    obtain s' where "life_steps s1 s'" "ml_owner s' = O_End"
      using less.hyps [OF s1(2) life_step_inv [OF s1(1) less.prems]] by blast
    then show ?thesis using s1(1) by (meson converse_rtranclp_into_rtranclp)
  qed blast
qed

lemma life_steps_reach: "life_steps s s' \<Longrightarrow> life_reach False s \<Longrightarrow> life_reach False s'"
  by (induction rule: rtranclp_induct) (auto intro: life_reach.step)

section \<open>Runs\<close>

text \<open>A schedule: who makes the next step, or what happens to it.\<close>

datatype life_label =
  L_Owner | L_Thread | L_Signal | L_Stopped | L_Returns int | L_Unplug | L_Wake_Open nat | L_Wake_Shut nat

fun take_label :: "life_label \<Rightarrow> mac_life \<Rightarrow> mac_life res option" where
  "take_label L_Owner s = owner_step s"
| "take_label L_Thread s = thread_step s"
| "take_label L_Signal s = (if ml_thread s = M_Run \<and> ml_signaled s then Some (perform_signal_callback s) else None)"
| "take_label L_Stopped s =
     (if ml_thread s = M_Run \<and> ml_stopped s
      then Some (Inr (run_returns kCFRunLoopRunStopped (s\<lparr>ml_stopped := False\<rparr>))) else None)"
| "take_label (L_Returns code) s =
     (if ml_thread s = M_Run \<and> code \<noteq> kCFRunLoopRunStopped then Some (Inr (run_returns code s)) else None)"
| "take_label L_Unplug s = Some (Inr (s\<lparr>ml_plugged := False\<rparr>))"
| "take_label (L_Wake_Open i) s =
     (if i < length (bar_threads (ml_open_bar s)) \<and> bar_threads (ml_open_bar s) ! i = B_Asleep
      then Some (Inr (s\<lparr>ml_open_bar := (ml_open_bar s)
        \<lparr>bar_threads := (bar_threads (ml_open_bar s))[i := B_Woken]\<rparr>\<rparr>)) else None)"
| "take_label (L_Wake_Shut i) s =
     (if i < length (bar_threads (ml_shut_bar s)) \<and> bar_threads (ml_shut_bar s) ! i = B_Asleep
      then Some (Inr (s\<lparr>ml_shut_bar := (ml_shut_bar s)
        \<lparr>bar_threads := (bar_threads (ml_shut_bar s))[i := B_Woken]\<rparr>\<rparr>)) else None)"

fun life_run :: "life_label list \<Rightarrow> mac_life \<Rightarrow> mac_life res option" where
  "life_run [] s = Some (Inr s)"
| "life_run (l # ls) s =
     (case take_label l s of
        None \<Rightarrow> None
      | Some (Inl e) \<Rightarrow> (if ls = [] then Some (Inl e) else None)
      | Some (Inr s1) \<Rightarrow> life_run ls s1)"

fun spurious_label :: "life_label \<Rightarrow> bool" where
  "spurious_label (L_Wake_Open i) = True" | "spurious_label (L_Wake_Shut i) = True"
| "spurious_label l = False"

lemma take_label_step: "take_label l s = Some r \<Longrightarrow> spurious_label l \<longrightarrow> spurious \<Longrightarrow> life_step spurious s r"
  by (cases l) (auto intro: life_step.intros split: if_splits)

lemma life_run_reach:
  assumes "life_run ls s = Some r" "list_ex spurious_label ls \<longrightarrow> spurious" "life_reach spurious s"
  shows "case r of Inl e \<Rightarrow> \<exists>s'. life_reach spurious s' \<and> life_step spurious s' (Inl e)
    | Inr s' \<Rightarrow> life_reach spurious s'"
  using assms
proof (induction ls arbitrary: s)
  case (Cons l ls)
  obtain x where x: "take_label l s = Some x" using Cons.prems(1) by (cases "take_label l s") auto
  then have st: "life_step spurious s x" using take_label_step Cons.prems(2) by auto
  show ?case
  proof (cases x)
    case (Inl e)
    then show ?thesis using Cons.prems x st by (auto split: if_splits)
  next
    case (Inr s1)
    then show ?thesis using Cons.IH [of s1] Cons.prems x st life_reach.step by auto
  qed
qed auto

text \<open>
  The owner passes the first barrier alone and finds no run loop; the thread passes the second
  one alone, and the owner wakes a run loop up that is gone.
\<close>

definition alone_in_open :: "life_label list" where
  "alone_in_open = [L_Owner, L_Owner, L_Wake_Open 0, L_Owner, L_Owner, L_Owner, L_Owner]"

definition opened :: "life_label list" where
  "opened = [L_Owner, L_Thread, L_Thread, L_Owner, L_Thread, L_Owner, L_Owner, L_Thread, L_Thread]"

definition alone_in_close :: "life_label list" where
  "alone_in_close = opened @ [L_Returns kCFRunLoopRunFinished, L_Thread, L_Thread, L_Wake_Shut 1,
     L_Thread, L_Thread, L_Owner, L_Owner, L_Owner, L_Owner, L_Owner]"

lemma alone_runs:
  "life_run alone_in_open life_start = Some (Inl (UB Null_Pointer))"
  "life_run alone_in_close life_start = Some (Inl (UB Use_After_Free))"
  by code_simp+

definition unplugged_in_close :: "life_label list" where
  "unplugged_in_close = opened @ [L_Owner, L_Owner, L_Unplug, L_Owner, L_Owner, L_Signal, L_Stopped, L_Owner,
     L_Thread, L_Thread, L_Owner, L_Thread, L_Thread, L_Owner, L_Owner]"

lemma unplugged_run:
  "map_option (map_sum id (\<lambda>s. (ml_owner s, ml_plugged s, ml_disconnected s))) (life_run unplugged_in_close life_start) =
     Some (Inr (O_Close_Device, False, False))"
  by code_simp

lemma spurious_labels: "\<not> list_ex spurious_label unplugged_in_close"
  by (simp add: unplugged_in_close_def opened_def)

section \<open>Properties\<close>

text \<open>
  C36. The order the barriers are for, as long as \<^verbatim>\<open>pthread_cond_wait\<close> does not wake up spuriously:
  whatever the threads and the run loop do, no null reference, no ended thread's run loop and no
  freed device is used; while \<^verbatim>\<open>hid_close\<close> signals and wakes the run loop, its thread has not
  ended; the device is freed after the thread has ended; and the wake-up is not lost: a thread in
  the run loop has the signal, or the stop it caused, still to handle.
\<close>

theorem mac_close_order:
  assumes "life_reach False s"
  shows "\<not> life_step False s (Inl e) \<and>
    (ml_owner s = O_Signal \<or> ml_owner s = O_Wake_Up \<longrightarrow> ml_source s \<and> ml_run_loop s \<and> ml_thread s \<noteq> M_End) \<and>
    (\<not> ml_live s \<longrightarrow> ml_thread s = M_End) \<and>
    (O_Wake_Up \<le> ml_owner s \<longrightarrow> ml_thread s = M_Run \<longrightarrow> ml_signaled s \<or> ml_stopped s)"
proof -
  have inv: "life_inv s" by (rule life_reach_inv [OF assms])
  have "\<not> ml_live s \<Longrightarrow> ml_thread s = M_End" using inv by (simp add: life_inv_def pc_order)
  moreover have "ml_owner s = O_Signal \<or> ml_owner s = O_Wake_Up \<Longrightarrow>
      ml_source s \<and> ml_run_loop s \<and> ml_thread s \<noteq> M_End"
    using life_inv_sync [OF inv] by (auto simp: less_owner_pc_def)
  ultimately show ?thesis using life_step_no_fault [OF inv] life_invD(5) [OF inv] by blast
qed

lemma closed_run:
  "map_option (map_sum id (\<lambda>s. (ml_owner s, ml_live s, ml_thread s)))
     (life_run (unplugged_in_close @ [L_Owner]) life_start) = Some (Inr (O_End, False, M_End))"
  by code_simp

theorem mac_close_order_witness:
  "\<exists>s. life_run (unplugged_in_close @ [L_Owner]) life_start = Some (Inr s) \<and> \<not> ml_live s \<and> ml_thread s = M_End"
proof -
  obtain s where s: "life_run (unplugged_in_close @ [L_Owner]) life_start = Some (Inr s)" "\<not> ml_live s"
    using closed_run by (cases "life_run (unplugged_in_close @ [L_Owner]) life_start")
      (auto simp: map_sum_def split: sum.splits)
  have "life_reach False s"
    using life_run_reach [OF s(1) _ life_reach.start] spurious_labels by simp
  from mac_close_order [OF this] show ?thesis using s by blast
qed

text \<open>
  C37. \<^verbatim>\<open>hid_close\<close> comes to its end: from every state the two threads can get into, closing included,
  there is a way on to the end of \<^verbatim>\<open>hid_close\<close>, with the read thread joined and the device freed;
  in every state before that one of the two threads, or the run loop with the signal it has, can
  make a step that brings the end nearer.
\<close>

theorem mac_close_returns:
  assumes "life_reach False s"
  shows "(\<exists>s'. life_steps s s' \<and> ml_owner s' = O_End \<and> ml_thread s' = M_End \<and> \<not> ml_live s') \<and>
    (ml_owner s \<noteq> O_End \<longrightarrow> progress s)"
proof -
  have inv: "life_inv s" by (rule life_reach_inv [OF assms])
  obtain s' where s': "life_steps s s'" "ml_owner s' = O_End" using life_ends [OF inv] by blast
  have "life_inv s'" by (rule life_reach_inv [OF life_steps_reach [OF s'(1) assms]])
  then have "ml_thread s' = M_End" "\<not> ml_live s'" using s'(2) by (simp_all add: life_inv_def pc_order)
  then show ?thesis using s' life_progress [OF inv] by blast
qed

theorem mac_close_returns_witness:
  "\<exists>s'. life_steps life_start s' \<and> ml_owner s' = O_End \<and> ml_thread s' = M_End \<and> \<not> ml_live s'"
  using mac_close_returns [OF life_reach.start] by blast

text \<open>
  C38. With the spurious wake-ups POSIX allows, both barriers fail: \<^verbatim>\<open>hid_open_path\<close> can return
  before the read thread has stored its run loop, so that \<^verbatim>\<open>hid_close\<close> uses a null reference; and
  the read thread can end before \<^verbatim>\<open>hid_close\<close> wakes its run loop up.
\<close>

theorem mac_spurious_wakeup:
  "(\<exists>s. life_reach True s \<and> life_step True s (Inl (UB Null_Pointer))) \<and>
   (\<exists>s. life_reach True s \<and> life_step True s (Inl (UB Use_After_Free)))"
  using life_run_reach [OF alone_runs(1) _ life_reach.start [of True]]
    life_run_reach [OF alone_runs(2) _ life_reach.start [of True]] by simp

text \<open>
  A device that is unplugged after \<^verbatim>\<open>hid_close\<close> took the callbacks off is not seen to be gone:
  \<^verbatim>\<open>IOHIDDeviceClose\<close> is called on it, which the comment there says will crash.
\<close>

theorem mac_unplug_unnoticed:
  "\<exists>s. life_reach False s \<and> ml_owner s = O_Close_Device \<and> \<not> ml_plugged s \<and> \<not> ml_disconnected s"
proof -
  obtain s where s: "life_run unplugged_in_close life_start = Some (Inr s)"
    "ml_owner s = O_Close_Device" "\<not> ml_plugged s" "\<not> ml_disconnected s"
    using unplugged_run by (cases "life_run unplugged_in_close life_start")
      (auto simp: map_sum_def split: sum.splits)
  then show ?thesis using life_run_reach [OF s(1) _ life_reach.start] spurious_labels by auto
qed

end
