(* ===== verification/Spec2Isabelle.thy ===== *)
theory Spec2Isabelle
  imports Report_Descriptor Frame_Correct Linux_Correct Hidpp_Correct Wallet_Correct Wallet_Life Libusb_Lang
    Libusb_Correct Libusb_Thread Mac_Correct Enum_Correct Cli_Correct
    Stack_Linux Stack_Windows Stack_Mac Stack_Libusb Stack_Close Mac_Lifecycle Mac_Reader
begin

text \<open>
  A model of mhwallet, a library that talks to a Ledger hardware wallet over USB HID, and the
  theorems about it. The program has three layers:

    \<^item> hidapi, in C (\<^verbatim>\<open>src/src/hid\<close>): one interface, \<^verbatim>\<open>hidapi.h\<close>, implemented four times
      (linux hidraw, libusb, mac, windows); it lists the devices and exchanges reports with one;
    \<^item> \<^verbatim>\<open>hidpp_device\<close> (\<^verbatim>\<open>src/src/hidpp_device.cpp\<close>), the C++ handle of a device, with its mutex,
      and on it the framing protocol (\<^verbatim>\<open>frame_io.cpp\<close>, \<^verbatim>\<open>frame_io_apdu.cpp\<close>), which cuts a command
      into packets of 64 bytes and puts the response together;
    \<^item> \<^verbatim>\<open>nanos_wallet\<close> (\<^verbatim>\<open>src/src/nanos_wallet.cpp\<close>), the commands of the Minter application on the
      device: address, signature, version, list and start of applications.

  The layers meet in the record \<open>hidapi\<close> of theory Hidapi: the operations of \<^verbatim>\<open>hidapi.h\<close> as
  functions on a state \<open>'s\<close> that holds the devices and the rest of the world. The wallet, the
  framing and the handle are written over this record; the four backends are values of it,
  \<open>linux_api\<close>, \<open>usb_api\<close>, \<open>mac_api\<close> and \<open>windows_api\<close>, and keep its contract (locale \<open>hid_backend\<close>).
  A read may wait for ever by the contract, and so may closing a device; the reads of linux and
  windows, which block in a system call, come back when it does (\<open>returning_backend\<close>), and closing
  returns for every open device there, over libusb for those whose read thread can be joined
  (\<open>closing_backend\<close>).

  \<^bold>\<open>The theories and the code\<close>

    \<^item> Prelude: words of 8 to 64 bits, the faults of C (out of bounds, null, uninitialised data,
      signed overflow, use after free) and the exceptions of C++ as values, \<open>'a res\<close>; copying into
      buffers.
    \<^item> Report_Descriptor: \<^verbatim>\<open>uses_numbered_reports\<close> (linux), \<^verbatim>\<open>get_bytes\<close> and \<^verbatim>\<open>get_usage\<close> (libusb).
    \<^item> Report_Queue: the linked list of input reports of libusb and mac, on a heap of nodes with
      free and use after free.
    \<^item> Reader_Order: the contract \<open>ordered_reader\<close> between a thread that queues reports and a
      caller that reads them, and what the caller gets; libusb and mac keep it.
    \<^item> Hidapi: \<^verbatim>\<open>struct hid_device_info\<close>, the record of operations and the contracts \<open>hid_backend\<close>
      with its two extensions and \<open>path_search\<close> (the search of \<^verbatim>\<open>hid_open\<close>, the same in all backends).
    \<^item> Handles: device pointers as indices into the list of the devices allocated so far.
    \<^item> Linux_Uevent, Linux_Hid, Linux_Correct: \<^verbatim>\<open>linux/hid.c\<close>. udev and the system calls are the
      fields of \<open>linux_os\<close>; \<^verbatim>\<open>sscanf\<close>, \<^verbatim>\<open>strtok_r\<close> and \<^verbatim>\<open>strtol\<close> are written out.
    \<^item> Libusb_Lang, Libusb_Hid, Libusb_Thread, Libusb_Correct: \<^verbatim>\<open>libusb/hid.c\<close>. libusb, iconv and
      setlocale are the fields of \<open>libusb_os\<close>. Libusb_Thread has the read thread and a reader as
      the step relation \<open>lu_step\<close>, one step for each stretch of code between two blocking calls.
    \<^item> Libusb_Backend, Mac_Backend: these two backends as values of the interface. A read on them is
      a run of the read thread and the reader by the steps of \<open>lu_step\<close> and \<open>mc_step\<close>; what the
      event loop is given, before a read and while it waits, is a parameter.
    \<^item> Mac_Hid, Mac_Thread, Mac_Reader, Mac_Correct: \<^verbatim>\<open>mac/hid.c\<close>, IOKit and CoreFoundation as \<open>mac_os\<close>; the
      callbacks, the condition waits and the barrier the file defines, as \<open>barrier_step\<close>;
      the read thread and a reader interleaved as \<open>mc_step\<close>.
    \<^item> Mac_Lifecycle: the thread that opens and closes a device, and the read thread, with the two
      barriers between them, as the step relation \<open>life_step\<close>.
    \<^item> Windows_Hid, Windows_Correct: \<^verbatim>\<open>windows/hid.c\<close>, the Win32 calls and \<^verbatim>\<open>hid.dll\<close> as \<open>win_os\<close>.
    \<^item> Toolbox: the byte containers of the external toolbox library, as a record of their
      operations with the documented behaviour as the named hypothesis \<open>tb_laws\<close>, and an instance.
    \<^item> Hidpp_Device, Hidpp_Correct: \<^verbatim>\<open>hidpp_device\<close> and \<^verbatim>\<open>hidpp::enumerate_devices\<close>. The mutex is a
      flag: locking it while it is set is the fault of a deadlock.
    \<^item> Frame_Io, Frame_Correct: \<^verbatim>\<open>struct APDU\<close>, \<^verbatim>\<open>frame_io\<close>, \<^verbatim>\<open>frame_io_apdu\<close>; then the format as
      an abstract specification, packets and a receiver.
    \<^item> Nanos_Wallet, Wallet_Correct, Wallet_Steps, Wallet_Life: \<^verbatim>\<open>nanos_wallet\<close>, \<^verbatim>\<open>utils.cpp\<close> and the constants of
      \<^verbatim>\<open>cfg/mhwallet_core.in.h\<close>.
    \<^item> Cli, Cli_Correct: the command line tool \<^verbatim>\<open>main.cpp\<close> with the texts of \<^verbatim>\<open>errors.h\<close>; boost's
      \<^verbatim>\<open>program_options\<close> is a parameter.
    \<^item> Stack: the layers together. The locale \<open>packet_port\<close> extends \<open>hid_backend\<close> by what connects
      an open handle with the packets the system takes and gives; in it, the wallet from \<^verbatim>\<open>init\<close>
      through a sequence of commands. Stack_Linux and Stack_Windows interpret it on hidraw, with a
      file descriptor, and on the windows backend, with overlapped requests; Stack_Mac and
      Stack_Libusb on the backends with a read thread, over the channel with a queue of
      Queued_Port. Stack_Close says in which state a wallet rests on each of the four, and how
      closing it ends on linux, windows and libusb.
    \<^item> Enum_Heap, Enum_Correct: the linked list of \<^verbatim>\<open>struct hid_device_info\<close> in memory, its
      construction, \<^verbatim>\<open>hid_free_enumeration\<close>, and the owning pointers of \<^verbatim>\<open>hidpp_base.cpp\<close>. The other
      theories take the list as a list of values, which is what is shown to be sound there.

  A function of the source has the name of the source, with the prefix \<open>lx\<close>, \<open>lu\<close>, \<open>mc\<close> or
  \<open>wn\<close> of its backend where the four files share it. C parameters that are filled in become
  part of the result; a buffer is passed as its capacity and returned as what was written.

  \<^bold>\<open>What the theorems show\<close>

    \<^item> The wallet: what each command sends, and what it returns for a device that answers; the
      retry after an exception, the application list as a format with a round trip; the waiting
      loop of \<^verbatim>\<open>run_app\<close> ends; after any sequence of operations, commands that throw
      included, the wallet's locks are free and its handle is open or null, whatever the backend, and
      it can be closed on linux and windows, and over libusb unless the first submission failed or
      the device has several settings; on each backend a whole session. The
      command line tool on top: a whole run over linux, and how the program can end.
    \<^item> The framing: the writer sends the packets of the specification, and a receiver decodes what
      it left with the device to the fields of the command; an exchange returns the device's data
      and status; for which lengths it does not, what comes out of it then or after a short report,
      and what a failed exchange leaves behind for the next.
    \<^item> Report descriptors: both parsers end, stay in the buffer, and answer as a scan of the
      descriptor's items does.
    \<^item> The queues of both backends refine one bounded first-in first-out queue (locale
      \<open>report_queue\<close>); every node is freed once, and so is every block of an enumeration.
    \<^item> The threads: no wake-up of a libusb or mac reader is lost, and in every interleaving it gets
      the reports in order, of which the oldest waiting is dropped when one arrives while 32 wait; the libusb thread can always be
      joined, except after a failed first submission; the barriers of the mac backend keep the order
      of opening and closing without spurious wake-ups, and do not with them.
    \<^item> The backends: the linux enumeration lists exactly the matching devices; strings, paths,
      descriptors and time limits are exact; the error branches on which a backend departs from
      \<^verbatim>\<open>hidapi.h\<close>.

  \<^bold>\<open>Loops and bounds\<close>

  A loop that is not structural is \<open>partial_function (option)\<close>: \<open>None\<close> is not returning, and
  theorems about results state \<open>Some\<close>. Report descriptors have at most 4096 bytes
  (\<^verbatim>\<open>HID_MAX_DESCRIPTOR_SIZE\<close>), so the 32-bit position of the parser does not wrap.
  \<^verbatim>\<open>run_app\<close> waits at most 300 rounds, the counter of the source. The payload of an APDU has 255
  bytes, a packet 64, a queue 32 reports. A function that may sleep on a condition takes the list
  of what it sees after each wake-up; \<open>None\<close> means that the list ended and it still sleeps. The
  theorems about interleavings use step relations instead and have no bound.

  \<^bold>\<open>Not modelled\<close>

    \<^item> Code that is compiled out: \<^verbatim>\<open>HIDAPI_USE_DDK\<close>, the calls under \<^verbatim>\<open>INVASIVE_GET_USAGE\<close>, the
      FreeBSD and Android variants of the libusb backend (the barrier for Android is the one of the
      mac backend, which is modelled).
    \<^item> udev, the kernel, libusb, IOKit, Win32, the toolbox library and boost: parameters.
    \<^item> The step relations interleave at blocking calls, which is where the mutex is released;
      the flags that are read without the mutex are taken to be read atomically.
    \<^item> In the backends as values, the read thread acts between two reads, or while one waits, not in
      the middle of another call. \<open>usb_api\<close> runs one read thread for a device, from what its first
      submission returned; of the further threads that \<^verbatim>\<open>hid_open_path\<close> starts for alternate settings
      it keeps the number only, and closing, or a later setting that fails, is then a use after free.
    \<^item> How \<^verbatim>\<open>hid_close\<close> of the mac backend waits for its read thread is the parameter \<open>mo_stop\<close> of
      \<open>mac_api\<close>; Mac_Lifecycle models it step by step. Whether the wallet's \<^verbatim>\<open>close\<close> returns over mac
      is therefore not stated.
    \<^item> Log output, the example program \<^verbatim>\<open>hidtest.cpp\<close>, which only prints what the interface returns, the
      empty test and the build files.
\<close>

section \<open>The four searches of hid_open\<close>

text \<open>
  The first record a search stops at that compares without a null check has no serial number:
  it has the ids asked for, and no earlier record with them has the serial number asked for.
\<close>

definition null_serial_met :: "u16 \<Rightarrow> u16 \<Rightarrow> wstr option \<Rightarrow> dev_info list \<Rightarrow> bool" where
  "null_serial_met vid pid serial devs \<longleftrightarrow>
     (case List.find (\<lambda>d. di_vendor_id d = vid \<and> di_product_id d = pid \<and>
             (di_serial_number d = None \<or> serial = None \<or> di_serial_number d = serial)) devs of
        None \<Rightarrow> False
      | Some d \<Rightarrow> serial \<noteq> None \<and> di_serial_number d = None)"

text \<open>
  C23. The searches of \<^verbatim>\<open>hid_open\<close> in the four backends are the same function up to one branch. The
  one of libusb gives the path of the first wanted device, whatever the list holds; the ones of
  linux, mac and windows give the same, but pass a null pointer to \<^verbatim>\<open>wcscmp\<close> when, with a serial
  number to look for, a device with the ids and without a serial number comes first.
\<close>

theorem hid_open_searches:
  "lu_find_path vid pid serial devs =
     Inr (case List.find (wanted vid pid serial) devs of None \<Rightarrow> None | Some d \<Rightarrow> di_path d) \<and>
   lx_find_path vid pid serial devs =
     (if null_serial_met vid pid serial devs then Inl (UB Null_Pointer) else lu_find_path vid pid serial devs) \<and>
   mc_find_path vid pid serial devs = lx_find_path vid pid serial devs \<and>
   wn_find_path vid pid serial devs = lx_find_path vid pid serial devs"
proof -
  have lx: "lx_find_path vid pid serial devs =
      (if null_serial_met vid pid serial devs then Inl (UB Null_Pointer) else lu_find_path vid pid serial devs)"
  proof (induction devs)
    case (Cons d ds)
    then show ?case
      by (cases serial; cases "di_serial_number d") (auto simp: null_serial_met_def)
  qed (simp add: null_serial_met_def)
  have "mc_find_path vid pid serial devs = lx_find_path vid pid serial devs"
    "wn_find_path vid pid serial devs = lx_find_path vid pid serial devs"
    by (induction devs) (auto split: option.split)
  moreover have "lu_find_path vid pid serial devs =
     Inr (case List.find (wanted vid pid serial) devs of None \<Rightarrow> None | Some d \<Rightarrow> di_path d)"
  proof (induction devs)
    case (Cons d ds)
    then show ?case by (cases serial) (auto simp: wanted_def)
  qed simp
  ultimately show ?thesis using lx by (intro conjI)
qed

end
